(* ===== verification/Prelude.thy ===== *)
theory Prelude
  imports
    Complex_Main
    "HOL-Library.AList"
    "HOL-Library.Char_ord"
    "HOL-Library.List_Lexorder"
    "HOL-Library.Sublist"
begin

text \<open>
  Shared vocabulary of the development: 64-bit integers with Go's wrap-around, IEEE
  binary64 values as far as the sources use them, the dynamic values a Go
  \<^verbatim>\<open>any\<close> can hold, JSON texts by their parse, Go maps as association lists with
  distinct keys, byte-string helpers and first-error combinators for validation code.
  Strings are byte lists; \<^verbatim>\<open><\<close> on them is Go's byte-wise order.  Strings that pass
  through JSON are taken to be valid UTF-8 (Go would replace invalid bytes).
\<close>

section \<open>Collections of facts\<close>

named_theorems fab_defs \<open>definitions that component proofs unfold\<close>
named_theorems fab_splits \<open>case splits used by component proofs\<close>

section \<open>Machine integers\<close>

definition int64_min :: int where
  "int64_min = - (2 ^ 63)"

definition int64_max :: int where
  "int64_max = 2 ^ 63 - 1"

text \<open>Conversion to \<^verbatim>\<open>int64\<close>: two's complement wrap-around.\<close>

definition to_int64 :: "int \<Rightarrow> int" where
  "to_int64 n = (n + 2 ^ 63) mod 2 ^ 64 - 2 ^ 63"

text \<open>\<^verbatim>\<open>v + 1\<close> on an \<^verbatim>\<open>int64\<close>.\<close>

definition inc64 :: "int \<Rightarrow> int" where
  "inc64 v = to_int64 (v + 1)"

section \<open>Binary64 numbers\<close>

text \<open>
  A finite binary64 number is its rational value (the two zeros are one value: every
  comparison and map key of the sources identifies them).
\<close>

datatype f64 = Fin rat | PosInf | NegInf | NaN

text \<open>
  Conversion of an integer to binary64 rounds to 53 significant bits, ties to even;
  the result is always an integer.
\<close>

fun f64_shift :: "nat \<Rightarrow> nat" where
  "f64_shift a = (if a < 2 ^ 53 then 0 else Suc (f64_shift (a div 2)))"

declare f64_shift.simps [simp del]

definition f64_round :: "nat \<Rightarrow> nat" where
  "f64_round a =
     (let k = f64_shift a; q = a div 2 ^ k; r = a mod 2 ^ k
      in if 2 * r < 2 ^ k \<or> (2 * r = 2 ^ k \<and> even q) then q * 2 ^ k else (q + 1) * 2 ^ k)"

definition f64_of_int :: "int \<Rightarrow> f64" where
  "f64_of_int n = Fin (of_int (sgn n * int (f64_round (nat \<bar>n\<bar>))))"

text \<open>Comparison of numbers: every comparison with NaN is false.\<close>

fun f64_eq :: "f64 \<Rightarrow> f64 \<Rightarrow> bool" where
  "f64_eq NaN _ = False"
| "f64_eq _ NaN = False"
| "f64_eq a b = (a = b)"

fun f64_lt :: "f64 \<Rightarrow> f64 \<Rightarrow> bool" where
  "f64_lt NaN _ = False"
| "f64_lt _ NaN = False"
| "f64_lt NegInf b = (b \<noteq> NegInf)"
| "f64_lt _ NegInf = False"
| "f64_lt PosInf _ = False"
| "f64_lt _ PosInf = True"
| "f64_lt (Fin a) (Fin b) = (a < b)"

section \<open>Dynamic values\<close>

datatype ikind = KInt | KInt8 | KInt16 | KInt32 | KInt64
  | KUint | KUint8 | KUint16 | KUint32 | KUint64

datatype skind = SAny | SString | SInt | SInt64 | SFloat64 | SOther

text \<open>
  The dynamic values of an \<^verbatim>\<open>any\<close>: nil, booleans, byte strings, the integer
  kinds, the two float kinds, instants (nanoseconds, and the identity of the
  location the value carries), slices by element type, and \<^verbatim>\<open>map[string]any\<close>.
\<close>

datatype gval = VNil
  | VBool bool
  | VStr string
  | VInt ikind int
  | VFloat32 f64
  | VFloat64 f64
  | VTime int nat
  | VSlice skind "gval list"
  | VObj "(string \<times> gval) list"

type_synonym 'v gomap = "(string \<times> 'v) list"
type_synonym vals = "gval gomap"

text \<open>Equality of two \<^verbatim>\<open>any\<close> values: \<open>None\<close> is the run-time panic of comparing two
  values of one uncomparable type.\<close>

fun iface_eq :: "gval \<Rightarrow> gval \<Rightarrow> bool option" where
  "iface_eq (VSlice k xs) (VSlice k' ys) = (if k = k' then None else Some False)"
| "iface_eq (VObj xs) (VObj ys) = None"
| "iface_eq (VFloat32 a) (VFloat32 b) = Some (f64_eq a b)"
| "iface_eq (VFloat64 a) (VFloat64 b) = Some (f64_eq a b)"
| "iface_eq a b = Some (a = b)"

text \<open>A value can be a key of a \<^verbatim>\<open>map[any]T\<close>; using any other value panics.\<close>

fun hashable :: "gval \<Rightarrow> bool" where
  "hashable (VSlice _ _) = False"
| "hashable (VObj _) = False"
| "hashable _ = True"

section \<open>JSON texts\<close>

datatype json = JNull | JBool bool | JStr string | JInt int | JFlt f64
  | JArr "json list" | JObj "(string \<times> json) list"

text \<open>A \<^verbatim>\<open>json.RawMessage\<close>: no bytes, bytes that do not parse, or the text of a value.\<close>

datatype rawmsg = RawEmpty | RawBad string | RawJson json

text \<open>
  Filling a Go map from a list of members: a repeated key keeps its last value.
\<close>

definition go_map_of :: "('k \<times> 'v) list \<Rightarrow> ('k \<times> 'v) list" where
  "go_map_of kvs = fold (\<lambda>(k, v) m. AList.update k v m) kvs []"

text \<open>What \<^verbatim>\<open>json.Unmarshal\<close> stores in an \<^verbatim>\<open>any\<close>.\<close>

fun json_any :: "json \<Rightarrow> gval" where
  "json_any JNull = VNil"
| "json_any (JBool b) = VBool b"
| "json_any (JStr s) = VStr s"
| "json_any (JInt n) = VFloat64 (f64_of_int n)"
| "json_any (JFlt f) = VFloat64 f"
| "json_any (JArr xs) = VSlice SAny (map json_any xs)"
| "json_any (JObj kvs) = VObj (go_map_of (map (\<lambda>(k, v). (k, json_any v)) kvs))"

text \<open>
  \<^verbatim>\<open>json.Marshal\<close> of an \<^verbatim>\<open>any\<close>; \<open>None\<close> is its error on a NaN or an infinity.
  The layout of an instant's text is the argument \<open>fmt\<close>.
\<close>

fun json_of_float :: "f64 \<Rightarrow> json option" where
  "json_of_float (Fin q) = Some (JFlt (Fin q))"
| "json_of_float _ = None"

fun json_marshal :: "(int \<Rightarrow> nat \<Rightarrow> string) \<Rightarrow> gval \<Rightarrow> json option" where
  "json_marshal fmt VNil = Some JNull"
| "json_marshal fmt (VBool b) = Some (JBool b)"
| "json_marshal fmt (VStr s) = Some (JStr s)"
| "json_marshal fmt (VInt k n) = Some (JInt n)"
| "json_marshal fmt (VFloat32 f) = json_of_float f"
| "json_marshal fmt (VFloat64 f) = json_of_float f"
| "json_marshal fmt (VTime t l) = Some (JStr (fmt t l))"
| "json_marshal fmt (VSlice k xs) = map_option JArr (those (map (json_marshal fmt) xs))"
| "json_marshal fmt (VObj kvs) =
     map_option JObj
       (those (map (\<lambda>(k, v). map_option (Pair k) (json_marshal fmt v)) kvs))"

section \<open>The standard library's remaining contribution\<close>

text \<open>
  What the sources take from the Go implementation and does not follow from the
  language definition: parsing and printing an instant in RFC 3339, the
  implementation-defined result of converting an out-of-range float to \<^verbatim>\<open>int64\<close>,
  the Unicode case folding of \<^verbatim>\<open>strings.ToLower\<close> and the bytes
  \<^verbatim>\<open>json.Marshal\<close> prints for a JSON value.
  Definitions that use them take them as an argument.
\<close>

record golib =
  time_parse :: "string \<Rightarrow> (int \<times> nat) option"
  time_format :: "int \<Rightarrow> nat \<Rightarrow> string"
  float_to_int64 :: "f64 \<Rightarrow> int"
  to_lower :: "string \<Rightarrow> string"
  json_text :: "json \<Rightarrow> string"

section \<open>Go maps\<close>

text \<open>
  A Go map is an association list with distinct keys; the list order is the order in
  which a \<^verbatim>\<open>range\<close> loop happens to visit it, so a statement over all such lists
  is a statement over all iteration orders. Lookup is \<^const>\<open>map_of\<close>, assignment
  \<^const>\<open>AList.update\<close>, \<^verbatim>\<open>delete\<close> is \<^const>\<open>AList.delete\<close>.
\<close>

abbreviation mget :: "('k \<times> 'v) list \<Rightarrow> 'k \<Rightarrow> 'v option" where
  "mget m k \<equiv> map_of m k"

abbreviation mput :: "'k \<Rightarrow> 'v \<Rightarrow> ('k \<times> 'v) list \<Rightarrow> ('k \<times> 'v) list" where
  "mput \<equiv> AList.update"

abbreviation mdel :: "'k \<Rightarrow> ('k \<times> 'v) list \<Rightarrow> ('k \<times> 'v) list" where
  "mdel \<equiv> AList.delete"

definition wf_map :: "('k \<times> 'v) list \<Rightarrow> bool" where
  "wf_map m = distinct (map fst m)"

text \<open>Reading a missing key yields the zero value.\<close>

definition mget_or :: "'v \<Rightarrow> ('k \<times> 'v) list \<Rightarrow> 'k \<Rightarrow> 'v" where
  "mget_or z m k = (case map_of m k of None \<Rightarrow> z | Some v \<Rightarrow> v)"

section \<open>Byte strings\<close>

definition is_digit :: "char \<Rightarrow> bool" where
  "is_digit c = (CHR ''0'' \<le> c \<and> c \<le> CHR ''9'')"

definition is_lower :: "char \<Rightarrow> bool" where
  "is_lower c = (CHR ''a'' \<le> c \<and> c \<le> CHR ''z'')"

definition is_upper :: "char \<Rightarrow> bool" where
  "is_upper c = (CHR ''A'' \<le> c \<and> c \<le> CHR ''Z'')"

text \<open>\<^verbatim>\<open>strings.Split(s, sep)\<close> for a one-byte separator.\<close>

fun split_on :: "char \<Rightarrow> string \<Rightarrow> string list" where
  "split_on sep [] = [[]]"
| "split_on sep (c # cs) =
     (if c = sep then [] # split_on sep cs
      else (c # hd (split_on sep cs)) # tl (split_on sep cs))"

text \<open>The text after the last occurrence of a byte, the whole text if there is none.\<close>

definition after_last :: "char \<Rightarrow> string \<Rightarrow> string" where
  "after_last sep s = rev (takeWhile (\<lambda>c. c \<noteq> sep) (rev s))"

text \<open>Decimal text of a number, as \<^verbatim>\<open>%d\<close> prints it.\<close>

fun nat_digits :: "nat \<Rightarrow> string" where
  "nat_digits n = (if n < 10 then [char_of (48 + n)] else nat_digits (n div 10) @ [char_of (48 + n mod 10)])"

declare nat_digits.simps [simp del]

definition int_str :: "int \<Rightarrow> string" where
  "int_str n = (if n < 0 then CHR ''-'' # nat_digits (nat (- n)) else nat_digits (nat n))"

section \<open>First-error combinators\<close>

text \<open>A validation loop returns at its first error.\<close>

fun first_err :: "('a \<Rightarrow> 'e option) \<Rightarrow> 'a list \<Rightarrow> 'e option" where
  "first_err f [] = None"
| "first_err f (x # xs) = (case f x of Some e \<Rightarrow> Some e | None \<Rightarrow> first_err f xs)"

text \<open>A sequence of checks, each with an early return.\<close>

fun err_seq :: "'e option list \<Rightarrow> 'e option" where
  "err_seq [] = None"
| "err_seq (e # es) = (case e of Some x \<Rightarrow> Some x | None \<Rightarrow> err_seq es)"

definition fail_if :: "bool \<Rightarrow> 'e \<Rightarrow> 'e option" where
  "fail_if b e = (if b then Some e else None)"

text \<open>A loop that maps each element and stops at the first error.\<close>

fun map_res :: "('a \<Rightarrow> 'e + 'b) \<Rightarrow> 'a list \<Rightarrow> 'e + 'b list" where
  "map_res f [] = Inr []"
| "map_res f (x # xs) =
     (case f x of Inl e \<Rightarrow> Inl e
      | Inr y \<Rightarrow> (case map_res f xs of Inl e \<Rightarrow> Inl e | Inr ys \<Rightarrow> Inr (y # ys)))"

section \<open>Facts about machine integers\<close>

lemma to_int64_range: "int64_min \<le> to_int64 n \<and> to_int64 n \<le> int64_max"
  by (simp add: to_int64_def int64_min_def int64_max_def)

lemma to_int64_id: "int64_min \<le> n \<Longrightarrow> n \<le> int64_max \<Longrightarrow> to_int64 n = n"
  by (simp add: to_int64_def int64_min_def int64_max_def)

lemma inc64_eq: "int64_min \<le> v \<Longrightarrow> v < int64_max \<Longrightarrow> inc64 v = v + 1"
  by (simp add: inc64_def to_int64_id int64_min_def int64_max_def)

lemma inc64_max: "inc64 int64_max = int64_min"
  by (simp add: inc64_def to_int64_def int64_min_def int64_max_def)

lemma f64_round_small: "a < 2 ^ 53 \<Longrightarrow> f64_round a = a"
  by (simp add: f64_round_def f64_shift.simps)

lemma f64_of_int_small: "\<bar>n\<bar> < 2 ^ 53 \<Longrightarrow> f64_of_int n = Fin (of_int n)"
proof -
  assume a: "\<bar>n\<bar> < 2 ^ 53"
  have "nat \<bar>n\<bar> < 2 ^ 53" using a by (simp add: nat_less_iff)
  then have "f64_round (nat \<bar>n\<bar>) = nat \<bar>n\<bar>" by (rule f64_round_small)
  moreover have "sgn n * \<bar>n\<bar> = n" by (simp add: sgn_mult_abs)
  ultimately show ?thesis by (simp add: f64_of_int_def)
qed

lemma f64_of_int_finite: "f64_of_int n \<noteq> NaN" "f64_of_int n \<noteq> PosInf" "f64_of_int n \<noteq> NegInf"
  by (simp_all add: f64_of_int_def)

lemma f64_eq_refl [simp]: "f64_eq a a = (a \<noteq> NaN)"
  by (cases a) auto

lemma f64_eq_iff: "f64_eq a b = (a \<noteq> NaN \<and> a = b)"
  by (cases a; cases b) auto

lemma f64_eq_sym: "f64_eq a b = f64_eq b a"
  by (auto simp: f64_eq_iff)

lemma f64_lt_trans: "f64_lt a b \<Longrightarrow> f64_lt b c \<Longrightarrow> f64_lt a c"
  by (cases a; cases b; cases c) auto

lemma f64_lt_irrefl [simp]: "\<not> f64_lt a a"
  by (cases a) auto

lemma f64_lt_asym: "f64_lt a b \<Longrightarrow> \<not> f64_lt b a"
  by (cases a; cases b) auto

lemma f64_lt_total: "a \<noteq> NaN \<Longrightarrow> b \<noteq> NaN \<Longrightarrow> f64_lt a b \<or> a = b \<or> f64_lt b a"
  by (cases a; cases b) auto

section \<open>Facts about maps\<close>

lemma mget_mput [simp]: "mget (mput k v m) k' = (if k' = k then Some v else mget m k')"
  by (simp add: AList.update_conv')

lemma mget_mdel [simp]: "mget (mdel k m) k' = (if k' = k then None else mget m k')"
  by (simp add: AList.delete_conv')

lemma wf_map_Nil [simp, intro]: "wf_map []"
  by (simp add: wf_map_def)

lemma wf_map_mput [simp, intro]: "wf_map m \<Longrightarrow> wf_map (mput k v m)"
  by (simp add: wf_map_def AList.distinct_update)

lemma wf_map_mdel [simp, intro]: "wf_map m \<Longrightarrow> wf_map (mdel k m)"
  by (simp add: wf_map_def AList.distinct_delete)

lemma set_mput: "set (mput k v m) \<subseteq> insert (k, v) (set m)"
  by (induction m) auto

lemma mget_in_set: "wf_map m \<Longrightarrow> (mget m k = Some v) = ((k, v) \<in> set m)"
  by (simp add: wf_map_def)

lemma mget_SomeD: "mget m k = Some v \<Longrightarrow> (k, v) \<in> set m"
  by (rule map_of_SomeD)

lemma mget_None_iff: "(mget m k = None) = (k \<notin> fst ` set m)"
  by (simp add: map_of_eq_None_iff)

lemma mget_map_snd: "mget (map (\<lambda>(k, v). (k, f k v)) m) k = map_option (f k) (mget m k)"
  by (induction m) auto

lemma mget_filter_key: "mget (filter (\<lambda>kv. P (fst kv)) m) k = (if P k then mget m k else None)"
  by (induction m) auto

lemma wf_map_filter [simp, intro]: "wf_map m \<Longrightarrow> wf_map (filter P m)"
  by (simp add: wf_map_def distinct_map_filter)

lemma wf_map_snd: "wf_map (map (\<lambda>(k, v). (k, f k v)) m) = wf_map m"
  by (simp add: wf_map_def comp_def split_def)

lemma mget_or_mput [simp]: "mget_or z (mput k v m) k' = (if k' = k then v else mget_or z m k')"
  by (simp add: mget_or_def)

lemma go_map_of_snoc: "go_map_of (kvs @ [(k, v)]) = mput k v (go_map_of kvs)"
  by (simp add: go_map_of_def)

lemma wf_go_map_of [simp, intro]: "wf_map (go_map_of kvs)"
proof (induction kvs rule: rev_induct)
  case Nil
  then show ?case by (simp add: go_map_of_def)
next
  case (snoc kv kvs)
  then show ?case by (cases kv) (simp add: go_map_of_snoc)
qed

lemma mget_go_map_of: "mget (go_map_of kvs) k = mget (rev kvs) k"
proof (induction kvs rule: rev_induct)
  case Nil
  then show ?case by (simp add: go_map_of_def)
next
  case (snoc kv kvs)
  then show ?case by (cases kv) (simp add: go_map_of_snoc)
qed

lemma distinct_map_sort_key: "distinct (map f xs) \<Longrightarrow> distinct (map f (sort_key g xs))"
  by (simp add: distinct_map)

section \<open>Facts about byte strings\<close>

lemma split_on_nonempty [simp]: "split_on sep s \<noteq> []"
  by (cases s) auto

lemma split_on_no_sep: "sep \<notin> set s \<Longrightarrow> split_on sep s = [s]"
  by (induction s) auto

lemma split_on_append: "sep \<notin> set a \<Longrightarrow> split_on sep (a @ sep # b) = a # split_on sep b"
  by (induction a) auto

lemma split_on_clean: "x \<in> set (split_on sep s) \<Longrightarrow> sep \<notin> set x"
proof (induction s arbitrary: x)
  case Nil
  then show ?case by simp
next
  case (Cons c cs)
  obtain h t where ht: "split_on sep cs = h # t"
    by (cases "split_on sep cs") auto
  with Cons show ?case by (auto split: if_splits)
qed

lemma takeWhile_neq_all: "sep \<notin> set s \<Longrightarrow> takeWhile (\<lambda>c. c \<noteq> sep) s = s"
  by (induction s) auto

lemma after_last_append: "sep \<notin> set b \<Longrightarrow> after_last sep (a @ sep # b) = b"
  by (simp add: after_last_def takeWhile_tail takeWhile_neq_all)

lemma after_last_none: "sep \<notin> set s \<Longrightarrow> after_last sep s = s"
  by (simp add: after_last_def takeWhile_neq_all)

text \<open>A separated pair determines its parts when the first part is free of the separator.\<close>

lemma sep_append_inj:
  assumes "sep \<notin> set a" and "sep \<notin> set a'" and "a @ sep # b = a' @ sep # b'"
  shows "a = a' \<and> b = b'"
proof -
  have "takeWhile (\<lambda>c. c \<noteq> sep) (a @ sep # b) = a" "takeWhile (\<lambda>c. c \<noteq> sep) (a' @ sep # b') = a'"
    using assms(1,2) by (auto simp: takeWhile_append)
  with assms(3) show ?thesis by auto
qed

section \<open>Facts about the combinators\<close>

lemma first_err_None [simp]: "(first_err f xs = None) = (\<forall>x \<in> set xs. f x = None)"
  by (induction xs) (auto split: option.splits)

lemma first_err_Some: "first_err f xs = Some e \<Longrightarrow> \<exists>x \<in> set xs. f x = Some e"
  by (induction xs) (auto split: option.splits)

lemma err_seq_None [simp]: "(err_seq es = None) = (\<forall>e \<in> set es. e = None)"
  by (induction es) (auto split: option.splits)

lemma err_case_None [simp]:
  "((case e of None \<Rightarrow> f | Some x \<Rightarrow> Some x) = None) = (e = None \<and> f = None)"
  by (simp split: option.splits)

lemma fail_if_None [simp]: "(fail_if b e = None) = (\<not> b)"
  by (simp add: fail_if_def)

lemma fail_if_Some [simp]: "(fail_if b e = Some e') = (b \<and> e = e')"
  by (auto simp: fail_if_def)

lemma map_res_Inr: "map_res f xs = Inr ys \<Longrightarrow> list_all2 (\<lambda>x y. f x = Inr y) xs ys"
  by (induction xs arbitrary: ys) (auto split: sum.splits)

lemma map_res_Inl: "map_res f xs = Inl e \<Longrightarrow> \<exists>x \<in> set xs. f x = Inl e"
  by (induction xs) (auto split: sum.splits)

end
