(* ===== verification/FabErr.thy ===== *)
theory FabErr
  imports Prelude
begin

text \<open>
  The error values of \<^verbatim>\<open>core/fabriqerr\<close> and \<^verbatim>\<open>core/tenant\<close>, the chain
  walks \<^verbatim>\<open>errors.Is\<close> and \<^verbatim>\<open>errors.As\<close> as the code uses them
  (\<open>errs_is\<close>, \<open>CodeOf\<close>), and the result class the command metrics record.
  An error made by \<^verbatim>\<open>fmt.Errorf\<close> is \<open>Errorf\<close> with its message template, or
  \<open>WrapErr\<close> when the template wraps a cause; the arguments printed into a
  message are not kept.
\<close>

section \<open>Error values\<close>

datatype code = CodeNone | CodeNotFound | CodeAlreadyExists | CodeConstraintViolation
  | CodeSchemaMismatch | CodeInvalidInput | CodeVersionConflict | CodeUnauthorized
  | CodePermissionDenied | CodeUnavailable | CodeTimeout | CodeSerialization
  | CodeNotConfigured | CodeInternal

datatype sentinel = ErrNotFound | ErrVersionConflict | ErrProjectionLag
  | ErrStoreNotConfigured | ErrQueryTimeout | ErrRawSQLUnsupported | ErrAggregateErased
  | ErrNoTenant | ErrTenantHookTripped

text \<open>Driver-native detail, and the exported part of the structured error.\<close>

record Meta =
  mt_driver :: string
  mt_sqlstate :: string
  mt_constraint :: string
  mt_table :: string
  mt_column :: string
  mt_detail :: "string gomap"

record errFields =
  er_code :: code
  er_message :: string
  er_entity :: string
  er_id :: string
  er_op :: string
  er_meta :: Meta
  er_retryable :: bool

text \<open>
  The error values of a chain. \<open>CodedError\<close> is \<^verbatim>\<open>*fabriqerr.Error\<close>: its
  exported fields and the wrapped cause.
\<close>

datatype gerr =
    Sentinel sentinel
  | VersionConflictError string string int int
  | NotFoundError string string
  | CodedError errFields "gerr option"
  | Errorf string
  | WrapErr string gerr

section \<open>Structured errors\<close>

definition Code_string :: "code \<Rightarrow> string" where
  "Code_string c = (case c of
     CodeNone \<Rightarrow> [] | CodeNotFound \<Rightarrow> ''not_found'' | CodeAlreadyExists \<Rightarrow> ''already_exists''
   | CodeConstraintViolation \<Rightarrow> ''constraint_violation'' | CodeSchemaMismatch \<Rightarrow> ''schema_mismatch''
   | CodeInvalidInput \<Rightarrow> ''invalid_input'' | CodeVersionConflict \<Rightarrow> ''version_conflict''
   | CodeUnauthorized \<Rightarrow> ''unauthorized'' | CodePermissionDenied \<Rightarrow> ''permission_denied''
   | CodeUnavailable \<Rightarrow> ''unavailable'' | CodeTimeout \<Rightarrow> ''timeout''
   | CodeSerialization \<Rightarrow> ''serialization'' | CodeNotConfigured \<Rightarrow> ''not_configured''
   | CodeInternal \<Rightarrow> ''internal'')"

definition zero_meta :: Meta where
  "zero_meta = \<lparr>mt_driver = [], mt_sqlstate = [], mt_constraint = [], mt_table = [],
     mt_column = [], mt_detail = []\<rparr>"

text \<open>An option mutates the error under construction, its cause included.\<close>

type_synonym err_option = "errFields \<times> gerr option \<Rightarrow> errFields \<times> gerr option"

definition WithEntity :: "string \<Rightarrow> string \<Rightarrow> err_option" where
  "WithEntity entity i = (\<lambda>(e, c). (e\<lparr>er_entity := entity, er_id := i\<rparr>, c))"

definition WithOp :: "string \<Rightarrow> err_option" where
  "WithOp op = (\<lambda>(e, c). (e\<lparr>er_op := op\<rparr>, c))"

definition WithMeta :: "Meta \<Rightarrow> err_option" where
  "WithMeta mt = (\<lambda>(e, c). (e\<lparr>er_meta := mt\<rparr>, c))"

definition WithRetryable :: "bool \<Rightarrow> err_option" where
  "WithRetryable r = (\<lambda>(e, c). (e\<lparr>er_retryable := r\<rparr>, c))"

definition WithCause :: "gerr option \<Rightarrow> err_option" where
  "WithCause err = (\<lambda>(e, c). (e, err))"

definition err_build :: "code \<Rightarrow> string \<Rightarrow> err_option list \<Rightarrow> errFields \<times> gerr option" where
  "err_build c msg opts = fold (\<lambda>opt e. opt e) opts
     (\<lparr>er_code = c, er_message = msg, er_entity = [], er_id = [], er_op = [],
       er_meta = zero_meta, er_retryable = False\<rparr>, None)"

definition err_new :: "code \<Rightarrow> string \<Rightarrow> err_option list \<Rightarrow> gerr" where
  "err_new c msg opts = (case err_build c msg opts of (e, cause) \<Rightarrow> CodedError e cause)"

definition err_wrap :: "code \<Rightarrow> gerr option \<Rightarrow> string \<Rightarrow> err_option list \<Rightarrow> gerr" where
  "err_wrap c cause msg opts = (case err_build c msg opts of (e, _) \<Rightarrow> CodedError e cause)"

text \<open>The caller-facing text of a structured error: code and message, never the cause.\<close>

definition Error_string :: "errFields \<Rightarrow> string" where
  "Error_string e =
     (if er_message e \<noteq> [] then ''fabriq: '' @ Code_string (er_code e) @ '': '' @ er_message e
      else ''fabriq: '' @ Code_string (er_code e))"

definition SafeMessage :: "code \<Rightarrow> string" where
  "SafeMessage c = (case c of
     CodeNotFound \<Rightarrow> ''The requested resource was not found.''
   | CodeAlreadyExists \<Rightarrow> ''A resource with the same identity already exists.''
   | CodeConstraintViolation \<Rightarrow> ''The request violates a data constraint.''
   | CodeSchemaMismatch \<Rightarrow> ''The requested entity type is not available.''
   | CodeInvalidInput \<Rightarrow> ''The request was invalid.''
   | CodeVersionConflict \<Rightarrow>
       ''The resource was modified concurrently; retry with the current version.''
   | CodeUnauthorized \<Rightarrow> ''Authentication is required.''
   | CodePermissionDenied \<Rightarrow> ''You do not have permission to perform this action.''
   | CodeUnavailable \<Rightarrow> ''The backing store is temporarily unavailable.''
   | CodeTimeout \<Rightarrow> ''The operation timed out.''
   | CodeSerialization \<Rightarrow> ''The transaction could not be serialized; retry.''
   | CodeNotConfigured \<Rightarrow> ''This capability is not configured.''
   | _ \<Rightarrow> ''An internal error occurred.'')"

section \<open>Walking an error chain\<close>

text \<open>The \<^verbatim>\<open>Is\<close> methods of the structured errors.\<close>

fun coded_is :: "code \<Rightarrow> sentinel \<Rightarrow> bool" where
  "coded_is c ErrNotFound = (c = CodeNotFound)"
| "coded_is c ErrVersionConflict = (c = CodeVersionConflict)"
| "coded_is c ErrStoreNotConfigured = (c = CodeNotConfigured)"
| "coded_is c _ = False"

text \<open>\<^verbatim>\<open>errors.Is(err, target)\<close>: the value itself, its \<^verbatim>\<open>Is\<close> method, then the cause.\<close>

fun errs_is :: "gerr \<Rightarrow> sentinel \<Rightarrow> bool" where
  "errs_is (Sentinel s) t = (s = t)"
| "errs_is (VersionConflictError a i e v) t = (t = ErrVersionConflict)"
| "errs_is (NotFoundError e i) t = (t = ErrNotFound)"
| "errs_is (CodedError e cause) t =
     (coded_is (er_code e) t \<or> (case cause of None \<Rightarrow> False | Some err \<Rightarrow> errs_is err t))"
| "errs_is (Errorf m) t = False"
| "errs_is (WrapErr m err) t = errs_is err t"

text \<open>\<^verbatim>\<open>errors.As\<close> onto the structured error: the first one of the chain.\<close>

fun as_coded :: "gerr \<Rightarrow> errFields option" where
  "as_coded (CodedError e cause) = Some e"
| "as_coded (WrapErr m err) = as_coded err"
| "as_coded _ = None"

definition CodeOf :: "gerr \<Rightarrow> code" where
  "CodeOf err = (case as_coded err of Some e \<Rightarrow> er_code e | None \<Rightarrow> CodeNone)"

text \<open>\<^verbatim>\<open>CodeOf(nil)\<close> is the empty code.\<close>

definition CodeOf_nil :: "gerr option \<Rightarrow> code" where
  "CodeOf_nil oe = (case oe of None \<Rightarrow> CodeNone | Some e \<Rightarrow> CodeOf e)"

datatype metric_result = ResultOK | ResultInvalid | ResultNotFound | ResultConflict | ResultError

definition Classify :: "gerr option \<Rightarrow> metric_result" where
  "Classify oe =
     (case oe of None \<Rightarrow> ResultOK
      | Some e \<Rightarrow>
          if errs_is e ErrNotFound then ResultNotFound
          else if errs_is e ErrVersionConflict then ResultConflict
          else ResultError)"

section \<open>Facts\<close>

lemma errs_is_WrapErr [simp]: "errs_is (WrapErr m e) t = errs_is e t"
  by simp

lemma CodeOf_WrapErr [simp]: "CodeOf (WrapErr m e) = CodeOf e"
  by (simp add: CodeOf_def)

lemma CodeOf_err_new [simp]:
  "CodeOf (err_new c m []) = c"
  "CodeOf (err_new c m [WithEntity e i]) = c"
  by (simp_all add: CodeOf_def err_new_def err_build_def WithEntity_def)

lemma CodeOf_err_wrap [simp]: "CodeOf (err_wrap c cause m []) = c"
  by (simp add: CodeOf_def err_wrap_def err_build_def)

text \<open>The structured code and the sentinel agree on the three mapped codes.\<close>

lemma CodeOf_errs_is:
  "CodeOf e = CodeNotFound \<Longrightarrow> errs_is e ErrNotFound"
  "CodeOf e = CodeVersionConflict \<Longrightarrow> errs_is e ErrVersionConflict"
  "CodeOf e = CodeNotConfigured \<Longrightarrow> errs_is e ErrStoreNotConfigured"
  by (induction e) (auto simp: CodeOf_def)

end
