(* ===== verification/Tenant.thy ===== *)
theory Tenant
  imports FabErr
begin

text \<open>
  The tenancy layer: \<^verbatim>\<open>core/tenant\<close> (identifier check, stamping a context, the
  structural guard \<^verbatim>\<open>Require\<close>, the optional scope) and \<^verbatim>\<open>core/pathctx\<close>
  (schema-per-tenant names). A context is the record of the values the code stores
  under its private keys.
\<close>

section \<open>Contexts\<close>

record gctx =
  cv_tenant :: "string option"
  cv_scope :: "string option"
  cv_schema :: "string option"

definition background :: gctx where
  "background = \<lparr>cv_tenant = None, cv_scope = None, cv_schema = None\<rparr>"

text \<open>The pattern \<^verbatim>\<open>^[a-zA-Z0-9_-]{1,64}$\<close>.\<close>

definition id_char :: "char \<Rightarrow> bool" where
  "id_char c = (is_lower c \<or> is_upper c \<or> is_digit c \<or> c = CHR ''_'' \<or> c = CHR ''-'')"

definition Valid :: "string \<Rightarrow> bool" where
  "Valid s = (1 \<le> length s \<and> length s \<le> 64 \<and> list_all id_char s)"

definition WithTenant :: "gctx \<Rightarrow> string \<Rightarrow> gerr + gctx" where
  "WithTenant ctx i =
     (if \<not> Valid i then Inl (Errorf ''invalid tenant id'') else Inr (ctx\<lparr>cv_tenant := Some i\<rparr>))"

definition FromContext :: "gctx \<Rightarrow> gerr + string" where
  "FromContext ctx =
     (case cv_tenant ctx of None \<Rightarrow> Inl (Sentinel ErrNoTenant)
      | Some i \<Rightarrow> if i = [] then Inl (Sentinel ErrNoTenant) else Inr i)"

definition Require :: "gctx \<Rightarrow> gerr + string" where
  "Require ctx = FromContext ctx"

definition WithScope :: "gctx \<Rightarrow> string \<Rightarrow> gerr + gctx" where
  "WithScope ctx sc =
     (if \<not> Valid sc then Inl (Errorf ''invalid scope id'') else Inr (ctx\<lparr>cv_scope := Some sc\<rparr>))"

definition ScopeFromContext :: "gctx \<Rightarrow> string option" where
  "ScopeFromContext ctx =
     (case cv_scope ctx of None \<Rightarrow> None | Some s \<Rightarrow> if s = [] then None else Some s)"

definition ScopeOrEmpty :: "gctx \<Rightarrow> string" where
  "ScopeOrEmpty ctx = (case ScopeFromContext ctx of None \<Rightarrow> [] | Some s \<Rightarrow> s)"

section \<open>Schema-per-tenant names\<close>

text \<open>The pattern \<^verbatim>\<open>^tenant_[a-z0-9_]{1,54}$\<close>.\<close>

definition schema_char :: "char \<Rightarrow> bool" where
  "schema_char c = (is_lower c \<or> is_digit c \<or> c = CHR ''_'')"

definition ValidSchema :: "string \<Rightarrow> bool" where
  "ValidSchema s =
     (prefix ''tenant_'' s \<and> 1 \<le> length (drop 7 s) \<and> length (drop 7 s) \<le> 54
      \<and> list_all schema_char (drop 7 s))"

definition SchemaForTenant :: "string \<Rightarrow> gerr + string" where
  "SchemaForTenant tenantID =
     (let s = ''tenant_'' @ map (\<lambda>c. if c = CHR ''-'' then CHR ''_'' else c) tenantID
      in if \<not> ValidSchema s then Inl (Errorf ''tenant has no valid consolidation schema'') else Inr s)"

definition WithSearchPath :: "gctx \<Rightarrow> string \<Rightarrow> gerr + gctx" where
  "WithSearchPath ctx schema =
     (if \<not> ValidSchema schema then Inl (Errorf ''invalid tenant schema'')
      else Inr (ctx\<lparr>cv_schema := Some schema\<rparr>))"

definition SchemaOrEmpty :: "gctx \<Rightarrow> string" where
  "SchemaOrEmpty ctx = (case cv_schema ctx of None \<Rightarrow> [] | Some s \<Rightarrow> s)"

section \<open>Facts\<close>

lemma id_char_no_colon: "id_char c \<Longrightarrow> c \<noteq> CHR '':''"
  by (auto simp: id_char_def is_lower_def is_upper_def is_digit_def)

lemma Valid_no_colon: "Valid s \<Longrightarrow> CHR '':'' \<notin> set s"
  using id_char_no_colon by (auto simp: Valid_def list_all_iff)

lemma Valid_nonempty: "Valid s \<Longrightarrow> s \<noteq> []"
  by (auto simp: Valid_def)

lemma Require_Inr [simp]: "(Require ctx = Inr t) = (cv_tenant ctx = Some t \<and> t \<noteq> [])"
  by (auto simp: Require_def FromContext_def split: option.splits if_splits)

lemma Require_Inl: "(Require ctx = Inl e) =
    (e = Sentinel ErrNoTenant \<and> (cv_tenant ctx = None \<or> cv_tenant ctx = Some []))"
  by (auto simp: Require_def FromContext_def split: option.splits if_splits)

lemma WithTenant_Require:
  "WithTenant ctx i = Inr ctx' \<Longrightarrow> Require ctx' = Inr i \<and> cv_scope ctx' = cv_scope ctx"
  by (auto simp: WithTenant_def Valid_nonempty split: if_splits)

lemma WithScope_frame:
  "WithScope ctx s = Inr ctx' \<Longrightarrow> ScopeOrEmpty ctx' = s \<and> Require ctx' = Require ctx"
  by (auto simp: WithScope_def ScopeOrEmpty_def ScopeFromContext_def Require_def FromContext_def
      Valid_nonempty split: if_splits)

lemma SchemaForTenant_valid: "SchemaForTenant t = Inr s \<Longrightarrow> ValidSchema s"
  by (auto simp: SchemaForTenant_def Let_def split: if_splits)

end
