(* ===== verification/Spec.thy ===== *)
theory Spec
  imports Tenant
begin

text \<open>
  The declarative data of \<^verbatim>\<open>core/registry\<close>: entity specifications
  (\<^verbatim>\<open>spec.go\<close>), the names derived from them (\<^verbatim>\<open>derive.go\<close>) and
  the lemmas that say which derived names keep tenants apart.
\<close>

section \<open>Specifications\<close>

datatype ColumnType = ColText | ColInt | ColFloat | ColBool | ColTime | ColJSON | ColOther int

record DynamicColumn =
  dc_name :: string
  dc_type :: ColumnType
  dc_notnull :: bool
  dc_default :: string

record DynamicIndex =
  di_name :: string
  di_columns :: "string list"
  di_unique :: bool

record DynamicSchema =
  ds_table :: string
  ds_columns :: "DynamicColumn list"
  ds_indexes :: "DynamicIndex list"
  ds_notypecheck :: bool

datatype Kind = KindAggregate | KindDocument | KindOther int

definition Kind_String :: "Kind \<Rightarrow> string" where
  "Kind_String k = (case k of KindAggregate \<Rightarrow> ''aggregate'' | KindDocument \<Rightarrow> ''document''
     | KindOther _ \<Rightarrow> ''unknown'')"

record Scope =
  sc_name :: string
  sc_field :: string

definition ByID :: Scope where
  "ByID = \<lparr>sc_name = ''id'', sc_field = []\<rparr>"

definition ByTenant :: Scope where
  "ByTenant = \<lparr>sc_name = ''tenant'', sc_field = []\<rparr>"

definition ByField :: "string \<Rightarrow> string \<Rightarrow> Scope" where
  "ByField name field = \<lparr>sc_name = name, sc_field = field\<rparr>"

record EdgeSpec =
  eg_field :: string
  eg_rel :: string
  eg_target :: string

record SearchSpec =
  ss_index :: string
  ss_fields :: "string list"

record CRDTSpec =
  cr_engine :: string
  cr_snapshot_every :: int
  cr_quiet_window :: int
  cr_archive_history :: "bool option"

record GraphEdgeSpec =
  ge_type_field :: string
  ge_source_field :: string
  ge_target_field :: string
  ge_source_label :: string
  ge_target_label :: string
  ge_prop_fields :: "string list"

record LiveSpec =
  lv_filterable :: "string list"
  lv_sortable :: "string list"
  lv_max_window :: int

record CacheSpec =
  ca_ttl :: int
  ca_scoped :: bool

record EmbedSpec =
  em_fields :: "string list"
  em_text :: "(vals \<Rightarrow> string) option"

record DistillSpec =
  dt_source_fields :: "string list"
  dt_text :: "(vals \<Rightarrow> string) option"
  dt_scopes :: "string list"
  dt_budget :: int

record AnalyticsSpec =
  an_include :: "string list"
  an_include_all :: bool
  an_exclude :: "string list"
  an_hash :: "string list"

record InsightsSpec =
  in_measures :: "string list"
  in_dimensions :: "string list"

record MetricMeasure =
  mm_kind :: string
  mm_field :: string
  mm_as :: string
  mm_percentile :: f64

record RollupSpec =
  ru_bucket :: int
  ru_seal_grace :: int
  ru_reroll_window :: int

record MetricSpec =
  me_name :: string
  me_source :: string
  me_measures :: "MetricMeasure list"
  me_dimensions :: "string list"
  me_default_bucket :: int
  me_rollup :: "RollupSpec option"

text \<open>A Go model is named by its struct type.\<close>

type_synonym gotype = string

record EntitySpec =
  es_name :: string
  es_kind :: Kind
  es_model :: "gotype option"
  es_graphnode :: string
  es_graphedge :: "GraphEdgeSpec option"
  es_edges :: "EdgeSpec list"
  es_search :: SearchSpec
  es_subscribe :: "Scope list"
  es_crdt :: "CRDTSpec option"
  es_schema :: "DynamicSchema option"
  es_validate :: "(vals \<Rightarrow> gerr option) option"
  es_live :: "LiveSpec option"
  es_cache :: "CacheSpec option"
  es_embed :: "EmbedSpec option"
  es_distill :: "DistillSpec option"
  es_analytics :: "AnalyticsSpec option"
  es_insights :: "InsightsSpec option"
  es_metrics :: "MetricSpec list"

text \<open>The specification with every optional concern left at its zero value.\<close>

definition zero_spec :: "string \<Rightarrow> EntitySpec" where
  "zero_spec name =
     \<lparr>es_name = name, es_kind = KindAggregate, es_model = None, es_graphnode = [],
      es_graphedge = None, es_edges = [], es_search = \<lparr>ss_index = [], ss_fields = []\<rparr>,
      es_subscribe = [], es_crdt = None, es_schema = None, es_validate = None, es_live = None,
      es_cache = None, es_embed = None, es_distill = None, es_analytics = None,
      es_insights = None, es_metrics = []\<rparr>"

section \<open>Derived names\<close>

definition VerbCreated :: string where "VerbCreated = ''created''"

definition VerbUpdated :: string where "VerbUpdated = ''updated''"

definition VerbDeleted :: string where "VerbDeleted = ''deleted''"

definition EventType :: "string \<Rightarrow> string \<Rightarrow> string" where
  "EventType entity verb = entity @ ''.'' @ verb"

definition StreamKey :: string where
  "StreamKey = ''fabriq:events''"

definition ChannelName :: "string \<Rightarrow> Scope \<Rightarrow> string \<Rightarrow> string" where
  "ChannelName tenantID scope i = ''changes:'' @ tenantID @ '':'' @ sc_name scope @ '':'' @ i"

definition DocChannelName :: "string \<Rightarrow> string \<Rightarrow> string" where
  "DocChannelName tenantID docID = ''doc:'' @ tenantID @ '':'' @ docID"

definition DocPresenceChannelName :: "string \<Rightarrow> string \<Rightarrow> string" where
  "DocPresenceChannelName tenantID docID = ''docpresence:'' @ tenantID @ '':'' @ docID"

definition GraphName :: "string \<Rightarrow> string" where
  "GraphName tenantID = ''tenant_'' @ tenantID"

definition GraphNameVersioned :: "string \<Rightarrow> int \<Rightarrow> string" where
  "GraphNameVersioned tenantID version = ''tenant_'' @ tenantID @ ''_v'' @ int_str version"

definition SearchIndexAlias :: "string \<Rightarrow> string \<Rightarrow> string" where
  "SearchIndexAlias tenantID base = ''fabriq_'' @ tenantID @ ''_'' @ base"

definition SearchIndexVersioned :: "string \<Rightarrow> string \<Rightarrow> int \<Rightarrow> string" where
  "SearchIndexVersioned tenantID base version =
     ''fabriq_'' @ tenantID @ ''_'' @ base @ ''_v'' @ int_str version"

section \<open>Facts about derived names\<close>

lemma ChannelName_tenant_inj:
  assumes "Valid t1" and "Valid t2" and "ChannelName t1 s1 i1 = ChannelName t2 s2 i2"
  shows "t1 = t2"
proof -
  have "t1 @ CHR '':'' # (sc_name s1 @ '':'' @ i1) = t2 @ CHR '':'' # (sc_name s2 @ '':'' @ i2)"
    using assms(3) by (simp add: ChannelName_def)
  then show ?thesis
    using sep_append_inj [OF Valid_no_colon [OF assms(1)] Valid_no_colon [OF assms(2)]] by blast
qed

lemma ChannelName_id_inj: "ChannelName t s i = ChannelName t s j \<Longrightarrow> i = j"
  by (simp add: ChannelName_def)

lemma DocChannelName_inj:
  assumes "Valid t1" and "Valid t2" and "DocChannelName t1 d1 = DocChannelName t2 d2"
  shows "t1 = t2 \<and> d1 = d2"
proof -
  have "t1 @ CHR '':'' # d1 = t2 @ CHR '':'' # d2"
    using assms(3) by (simp add: DocChannelName_def)
  then show ?thesis
    using sep_append_inj [OF Valid_no_colon [OF assms(1)] Valid_no_colon [OF assms(2)]] by blast
qed

lemma DocPresenceChannelName_inj:
  assumes "Valid t1" and "Valid t2" and "DocPresenceChannelName t1 d1 = DocPresenceChannelName t2 d2"
  shows "t1 = t2 \<and> d1 = d2"
proof -
  have "t1 @ CHR '':'' # d1 = t2 @ CHR '':'' # d2"
    using assms(3) by (simp add: DocPresenceChannelName_def)
  then show ?thesis
    using sep_append_inj [OF Valid_no_colon [OF assms(1)] Valid_no_colon [OF assms(2)]] by blast
qed

text \<open>The three families of channels never overlap.\<close>

lemma channel_families_disjoint:
  "ChannelName t s i \<noteq> DocChannelName t' d"
  "ChannelName t s i \<noteq> DocPresenceChannelName t' d"
  "DocChannelName t d \<noteq> DocPresenceChannelName t' d'"
  by (simp_all add: ChannelName_def DocChannelName_def DocPresenceChannelName_def)

lemma GraphName_inj: "GraphName a = GraphName b \<Longrightarrow> a = b"
  by (simp add: GraphName_def)

end
