(* ===== verification/Binding.thy ===== *)
theory Binding
  imports Spec
begin

text \<open>
  The compiled relational shape of an entity: \<^verbatim>\<open>core/registry/model.go\<close>
  (structural columns, column lookup, required columns, payload extraction, binding a
  model or a dynamic schema) and the payload coercion of \<^verbatim>\<open>coerce.go\<close> and
  \<^verbatim>\<open>coerce_row.go\<close>. The struct reflection of the grove library
  (\<^verbatim>\<open>schema.NewTable\<close>) is the argument \<open>newTable\<close>.
\<close>

section \<open>Structural columns\<close>

definition ColumnID :: string where "ColumnID = ''id''"

definition ColumnTenant :: string where "ColumnTenant = ''tenant_id''"

definition ColumnVersion :: string where "ColumnVersion = ''version''"

definition ColumnScope :: string where "ColumnScope = ''scope_id''"

definition IsReservedColumn :: "string \<Rightarrow> bool" where
  "IsReservedColumn name = (name = ColumnID \<or> name = ColumnTenant \<or> name = ColumnVersion)"

lemmas column_names = ColumnID_def ColumnTenant_def ColumnVersion_def ColumnScope_def

section \<open>Tables as grove reports them\<close>

record sfield =
  sf_goname :: string
  sf_column :: string
  sf_skip :: bool
  sf_ispk :: bool
  sf_notnull :: bool
  sf_default :: string
  sf_autoinc :: bool

record stable =
  st_name :: string
  st_modeltype :: gotype
  st_fields :: "sfield list"

section \<open>Bindings\<close>

record Binding =
  b_table :: string
  b_columns :: "string list"
  b_pk :: string
  b_tenant_column :: string
  b_version_column :: string
  b_modeltype :: "gotype option"
  b_fields :: "sfield gomap"
  b_dynamic :: bool
  b_dyncols :: "DynamicColumn gomap"

definition HasColumn :: "Binding \<Rightarrow> string \<Rightarrow> bool" where
  "HasColumn b col =
     (if b_dynamic b then mget (b_dyncols b) col \<noteq> None else mget (b_fields b) col \<noteq> None)"

definition DynColumn :: "Binding \<Rightarrow> string \<Rightarrow> DynamicColumn option" where
  "DynColumn b col = (if \<not> b_dynamic b then None else mget (b_dyncols b) col)"

definition zero_dyncol :: DynamicColumn where
  "zero_dyncol = \<lparr>dc_name = [], dc_type = ColText, dc_notnull = False, dc_default = []\<rparr>"

definition zero_sfield :: sfield where
  "zero_sfield = \<lparr>sf_goname = [], sf_column = [], sf_skip = False, sf_ispk = False,
     sf_notnull = False, sf_default = [], sf_autoinc = False\<rparr>"

definition Required :: "Binding \<Rightarrow> string list" where
  "Required b =
     (if b_dynamic b then
        filter (\<lambda>col. \<not> IsReservedColumn col \<and>
            (let dc = mget_or zero_dyncol (b_dyncols b) col in dc_notnull dc \<and> dc_default dc = []))
          (b_columns b)
      else
        filter (\<lambda>col. \<not> IsReservedColumn col \<and>
            (let f = mget_or zero_sfield (b_fields b) col
             in sf_notnull f \<and> sf_default f = [] \<and> \<not> sf_autoinc f))
          (b_columns b))"

section \<open>Payloads\<close>

text \<open>
  A command payload: absent, a map (possibly a nil map), a struct (by its type and its
  fields by Go name), a nil pointer, or a value of any other kind.
\<close>

datatype payload = PNil | PMap vals | PNilMap | PModel gotype "gval gomap" | PNilPtr | POther gotype

definition ValuesByColumn :: "Binding \<Rightarrow> payload \<Rightarrow> gerr + vals" where
  "ValuesByColumn b model =
     (if b_dynamic b then
        (case model of
           PNil \<Rightarrow> Inl (Errorf ''dynamic entity: nil payload'')
         | PMap m \<Rightarrow> Inr (filter (\<lambda>kv. mget (b_dyncols b) (fst kv) \<noteq> None) m)
         | PNilMap \<Rightarrow> Inl (Errorf ''dynamic entity: nil payload'')
         | _ \<Rightarrow> Inl (Errorf ''dynamic entity expects a map payload''))
      else
        (case model of
           PModel ty fvs \<Rightarrow>
             (if Some ty \<noteq> b_modeltype b then Inl (Errorf ''model type does not match binding'')
              else Inr (map (\<lambda>(col, f). (col, mget_or VNil fvs (sf_goname f))) (b_fields b)))
         | PNilPtr \<Rightarrow> Inl (Errorf ''nil model'')
         | _ \<Rightarrow> Inl (Errorf ''model type does not match binding'')))"

section \<open>Binding a specification\<close>

text \<open>The pattern \<^verbatim>\<open>^[A-Za-z_][A-Za-z0-9_]{0,63}$\<close>.\<close>

definition dynIdent :: "string \<Rightarrow> bool" where
  "dynIdent s =
     (case s of [] \<Rightarrow> False
      | c # cs \<Rightarrow> (is_lower c \<or> is_upper c \<or> c = CHR ''_'') \<and> length cs \<le> 63
          \<and> list_all (\<lambda>d. is_lower d \<or> is_upper d \<or> is_digit d \<or> d = CHR ''_'') cs)"

definition empty_binding :: "string \<Rightarrow> Binding" where
  "empty_binding table =
     \<lparr>b_table = table, b_columns = [], b_pk = [], b_tenant_column = [], b_version_column = [],
      b_modeltype = None, b_fields = [], b_dynamic = False, b_dyncols = []\<rparr>"

definition add_column :: "Binding \<Rightarrow> DynamicColumn \<Rightarrow> gerr + Binding" where
  "add_column b c =
     (if mget (b_dyncols b) (dc_name c) \<noteq> None then Inl (Errorf ''duplicate column'')
      else Inr (b\<lparr>b_dyncols := mput (dc_name c) c (b_dyncols b),
                  b_columns := b_columns b @ [dc_name c]\<rparr>))"

definition structural_column :: "string \<Rightarrow> ColumnType \<Rightarrow> DynamicColumn" where
  "structural_column name t = \<lparr>dc_name = name, dc_type = t, dc_notnull = True, dc_default = []\<rparr>"

text \<open>The injected columns; their names are distinct, so adding them cannot fail.\<close>

definition inject_structural :: "Binding \<Rightarrow> Binding" where
  "inject_structural b =
     fold (\<lambda>c b. case add_column b c of Inl _ \<Rightarrow> b | Inr b' \<Rightarrow> b')
       [structural_column ColumnID ColText, structural_column ColumnTenant ColText,
        structural_column ColumnVersion ColInt] b"

fun add_domain_columns :: "Binding \<Rightarrow> DynamicColumn list \<Rightarrow> gerr + Binding" where
  "add_domain_columns b [] = Inr b"
| "add_domain_columns b (c # cs) =
     (if IsReservedColumn (dc_name c) then Inl (Errorf ''column is structural and injected automatically'')
      else if \<not> dynIdent (dc_name c) then Inl (Errorf ''invalid column identifier'')
      else (case add_column b c of Inl e \<Rightarrow> Inl e | Inr b' \<Rightarrow> add_domain_columns b' cs))"

definition check_indexes :: "Binding \<Rightarrow> DynamicIndex list \<Rightarrow> gerr option" where
  "check_indexes b idxs =
     first_err (\<lambda>idx. first_err (\<lambda>col.
         fail_if (mget (b_dyncols b) col = None) (Errorf ''index references unknown column''))
       (di_columns idx)) idxs"

definition bindDynamic :: "DynamicSchema \<Rightarrow> gerr + Binding" where
  "bindDynamic s =
     (if ds_table s = [] \<or> \<not> dynIdent (ds_table s)
      then Inl (Errorf ''dynamic schema needs a valid Table identifier'')
      else
        (case add_domain_columns
                (inject_structural ((empty_binding (ds_table s))\<lparr>b_dynamic := True\<rparr>)) (ds_columns s) of
           Inl e \<Rightarrow> Inl e
         | Inr b \<Rightarrow>
             (case check_indexes b (ds_indexes s) of
                Some e \<Rightarrow> Inl e
              | None \<Rightarrow> Inr (b\<lparr>b_pk := ColumnID, b_tenant_column := ColumnTenant,
                              b_version_column := ColumnVersion\<rparr>))))"

definition prefixedTable :: "string \<Rightarrow> string \<Rightarrow> string" where
  "prefixedTable pre name =
     (if pre = [] \<or> prefix ''fabriq_'' name \<or> prefix ''ds_'' name then name else pre @ name)"

fun bind_fields :: "Binding \<Rightarrow> sfield list \<Rightarrow> Binding" where
  "bind_fields b [] = b"
| "bind_fields b (f # fs) =
     (if sf_skip f \<or> sf_column f = [] then bind_fields b fs
      else bind_fields (b\<lparr>b_fields := mput (sf_column f) f (b_fields b),
                          b_columns := b_columns b @ [sf_column f]\<rparr>) fs)"

definition bind_model :: "(gotype \<Rightarrow> gerr + stable) \<Rightarrow> gotype \<Rightarrow> string \<Rightarrow> gerr + Binding" where
  "bind_model newTable model tablePrefix =
     (case newTable model of
        Inl e \<Rightarrow> Inl (WrapErr ''entity'' e)
      | Inr table \<Rightarrow>
          (if st_name table = [] then Inl (Errorf ''model has no table name'')
           else
             (let b = bind_fields ((empty_binding (prefixedTable tablePrefix (st_name table)))
                        \<lparr>b_modeltype := Some (st_modeltype table)\<rparr>) (st_fields table)
              in if (case mget (b_fields b) ColumnID of None \<Rightarrow> True | Some f \<Rightarrow> \<not> sf_ispk f)
                 then Inl (Errorf ''model must declare column id as primary key'')
                 else if \<not> HasColumn b ColumnTenant
                 then Inl (Errorf ''model must declare column tenant_id'')
                 else if \<not> HasColumn b ColumnVersion
                 then Inl (Errorf ''model must declare column version'')
                 else Inr (b\<lparr>b_pk := ColumnID, b_tenant_column := ColumnTenant,
                             b_version_column := ColumnVersion\<rparr>))))"

definition bind :: "(gotype \<Rightarrow> gerr + stable) \<Rightarrow> EntitySpec \<Rightarrow> string \<Rightarrow> gerr + Binding" where
  "bind newTable spec tablePrefix =
     (case es_schema spec of
        Some s \<Rightarrow>
          (if es_model spec \<noteq> None then Inl (Errorf ''Model and Schema are mutually exclusive'')
           else bindDynamic s)
      | None \<Rightarrow>
          (case es_model spec of
             None \<Rightarrow> Inl (Errorf ''model is required'')
           | Some model \<Rightarrow> bind_model newTable model tablePrefix))"

section \<open>Payload coercion\<close>

definition typeErr :: "ColumnType \<Rightarrow> gerr" where
  "typeErr t = Errorf (case t of ColText \<Rightarrow> ''expects text'' | ColInt \<Rightarrow> ''expects int''
     | ColFloat \<Rightarrow> ''expects float'' | ColBool \<Rightarrow> ''expects bool'' | ColTime \<Rightarrow> ''expects time''
     | ColJSON \<Rightarrow> ''expects json'' | ColOther _ \<Rightarrow> ''expects ColumnType'')"

definition floatToInt :: "golib \<Rightarrow> f64 \<Rightarrow> gerr + gval" where
  "floatToInt lib f =
     (case f of
        NaN \<Rightarrow> Inl (Errorf ''expects int, got non-integral float'')
      | Fin q \<Rightarrow>
          (if q \<noteq> of_int \<lfloor>q\<rfloor> then Inl (Errorf ''expects int, got non-integral float'')
           else if int64_min \<le> \<lfloor>q\<rfloor> \<and> \<lfloor>q\<rfloor> \<le> int64_max then Inr (VInt KInt64 \<lfloor>q\<rfloor>)
           else Inr (VInt KInt64 (float_to_int64 lib f)))
      | _ \<Rightarrow> Inr (VInt KInt64 (float_to_int64 lib f)))"

fun CoerceToColumn :: "golib \<Rightarrow> ColumnType \<Rightarrow> gval \<Rightarrow> gerr + gval" where
  "CoerceToColumn lib t VNil = Inr VNil"
| "CoerceToColumn lib ColText (VStr s) = Inr (VStr s)"
| "CoerceToColumn lib ColText v = Inl (typeErr ColText)"
| "CoerceToColumn lib ColInt (VInt k n) =
     (if k = KUint64 \<and> int64_max < n then Inl (Errorf ''expects int, got uint64 overflowing int64'')
      else Inr (VInt KInt64 (to_int64 n)))"
| "CoerceToColumn lib ColInt (VFloat32 f) = floatToInt lib f"
| "CoerceToColumn lib ColInt (VFloat64 f) = floatToInt lib f"
| "CoerceToColumn lib ColInt v = Inl (typeErr ColInt)"
| "CoerceToColumn lib ColFloat (VFloat32 f) = Inr (VFloat64 f)"
| "CoerceToColumn lib ColFloat (VFloat64 f) = Inr (VFloat64 f)"
| "CoerceToColumn lib ColFloat (VInt k n) = Inr (VFloat64 (f64_of_int n))"
| "CoerceToColumn lib ColFloat v = Inl (typeErr ColFloat)"
| "CoerceToColumn lib ColBool (VBool b) = Inr (VBool b)"
| "CoerceToColumn lib ColBool v = Inl (typeErr ColBool)"
| "CoerceToColumn lib ColTime (VTime t l) = Inr (VTime t l)"
| "CoerceToColumn lib ColTime (VStr s) =
     (case time_parse lib s of None \<Rightarrow> Inl (Errorf ''expects time (RFC3339)'')
      | Some (t, l) \<Rightarrow> Inr (VTime t l))"
| "CoerceToColumn lib ColTime v = Inl (typeErr ColTime)"
| "CoerceToColumn lib ColJSON v = Inr v"
| "CoerceToColumn lib (ColOther i) v = Inl (Errorf ''unknown column type'')"

text \<open>One step of the loop of \<^verbatim>\<open>CoerceRow\<close> over the row's columns.\<close>

definition coerce_cell :: "golib \<Rightarrow> Binding \<Rightarrow> string \<times> gval \<Rightarrow> gerr + string \<times> gval" where
  "coerce_cell lib b cv =
     (case cv of (col, v) \<Rightarrow>
        (if col = ColumnID \<or> col = ColumnTenant \<or> col = ColumnVersion then Inr (col, v)
         else
           (case DynColumn b col of
              None \<Rightarrow> Inr (col, v)
            | Some dc \<Rightarrow>
                (case CoerceToColumn lib (dc_type dc) v of
                   Inl e \<Rightarrow> Inl (WrapErr ''entity: column'' e)
                 | Inr w \<Rightarrow> Inr (col, w)))))"

definition CoerceRow :: "golib \<Rightarrow> Binding \<Rightarrow> vals \<Rightarrow> gerr + vals" where
  "CoerceRow lib b vs = (if \<not> b_dynamic b then Inr vs else map_res (coerce_cell lib b) vs)"

section \<open>What binding guarantees\<close>

text \<open>
  The invariant of every compiled binding: the column list and the column lookup agree,
  and the three structural columns are present and recorded as such.
\<close>

definition wf_binding :: "Binding \<Rightarrow> bool" where
  "wf_binding b =
     ((\<forall>col. HasColumn b col = (col \<in> set (b_columns b)))
      \<and> {ColumnID, ColumnTenant, ColumnVersion} \<subseteq> set (b_columns b)
      \<and> b_pk b = ColumnID \<and> b_tenant_column b = ColumnTenant \<and> b_version_column b = ColumnVersion
      \<and> (b_dynamic b \<longrightarrow> b_modeltype b = None \<and> distinct (b_columns b) \<and> wf_map (b_dyncols b)))"

definition wf_dyn :: "Binding \<Rightarrow> bool" where
  "wf_dyn b =
     (b_dynamic b \<and> b_modeltype b = None \<and> wf_map (b_dyncols b) \<and> distinct (b_columns b)
      \<and> (\<forall>col. (mget (b_dyncols b) col \<noteq> None) = (col \<in> set (b_columns b))))"

lemma add_column_Inr: "(\<exists>b'. add_column b c = Inr b') = (mget (b_dyncols b) (dc_name c) = None)"
  by (auto simp: add_column_def)

lemma add_column_wf:
  assumes "wf_dyn b" and "add_column b c = Inr b'"
  shows "wf_dyn b' \<and> b_columns b' = b_columns b @ [dc_name c]"
  using assms by (auto simp: wf_dyn_def add_column_def split: if_splits)

lemma add_domain_columns_wf:
  assumes "wf_dyn b" and "add_domain_columns b cs = Inr b'"
  shows "wf_dyn b' \<and> b_columns b' = b_columns b @ map dc_name cs"
  using assms
proof (induction cs arbitrary: b)
  case Nil
  then show ?case by simp
next
  case (Cons c cs)
  from Cons.prems(2) obtain b1 where b1: "add_column b c = Inr b1" "add_domain_columns b1 cs = Inr b'"
    by (auto split: if_splits sum.splits)
  from add_column_wf [OF Cons.prems(1) b1(1)] Cons.IH [OF _ b1(2)] show ?case by auto
qed

lemma add_domain_columns_Inr:
  assumes "wf_dyn b"
  shows "(\<exists>b'. add_domain_columns b cs = Inr b') =
    ((\<forall>c \<in> set cs. \<not> IsReservedColumn (dc_name c) \<and> dynIdent (dc_name c))
     \<and> distinct (map dc_name cs) \<and> set (map dc_name cs) \<inter> set (b_columns b) = {})"
  using assms
proof (induction cs arbitrary: b)
  case Nil
  then show ?case by simp
next
  case (Cons c cs)
  show ?case
  proof (cases "add_column b c")
    case (Inl e)
    then have "dc_name c \<in> set (b_columns b)"
      using Cons.prems by (auto simp: add_column_def wf_dyn_def split: if_splits)
    then show ?thesis using Inl by auto
  next
    case (Inr b1)
    note wf = add_column_wf [OF Cons.prems Inr]
    have fresh: "dc_name c \<notin> set (b_columns b)"
      using Inr Cons.prems by (auto simp: add_column_def wf_dyn_def split: if_splits)
    from Cons.IH [of b1] wf Inr fresh show ?thesis by auto
  qed
qed

lemma inject_structural_wf:
  "wf_dyn (inject_structural ((empty_binding t)\<lparr>b_dynamic := True\<rparr>))
   \<and> b_columns (inject_structural ((empty_binding t)\<lparr>b_dynamic := True\<rparr>))
     = [ColumnID, ColumnTenant, ColumnVersion]"
  by (simp add: inject_structural_def add_column_def structural_column_def empty_binding_def
      column_names wf_dyn_def wf_map_def)

lemma bindDynamic_columns:
  assumes "bindDynamic s = Inr b"
  shows "b_columns b = [ColumnID, ColumnTenant, ColumnVersion] @ map dc_name (ds_columns s)
    \<and> distinct (b_columns b) \<and> wf_binding b \<and> b_dynamic b"
proof -
  let ?b0 = "inject_structural ((empty_binding (ds_table s))\<lparr>b_dynamic := True\<rparr>)"
  from assms obtain b1 where b1: "add_domain_columns ?b0 (ds_columns s) = Inr b1"
    and b: "b = b1\<lparr>b_pk := ColumnID, b_tenant_column := ColumnTenant, b_version_column := ColumnVersion\<rparr>"
    by (auto simp: bindDynamic_def split: if_splits sum.splits option.splits)
  note wf0 = inject_structural_wf [of "ds_table s"]
  from add_domain_columns_wf [OF conjunct1 [OF wf0] b1] wf0
  have "wf_dyn b1" and cols: "b_columns b1 = [ColumnID, ColumnTenant, ColumnVersion] @ map dc_name (ds_columns s)"
    by simp_all
  then have "distinct (b_columns b) \<and> wf_binding b \<and> b_dynamic b"
    unfolding wf_dyn_def wf_binding_def HasColumn_def b by simp
  with cols show ?thesis by (simp add: b)
qed

lemma bindDynamic_Inr_iff:
  "(\<exists>b. bindDynamic s = Inr b) =
    (dynIdent (ds_table s)
     \<and> (\<forall>c \<in> set (ds_columns s). \<not> IsReservedColumn (dc_name c) \<and> dynIdent (dc_name c))
     \<and> distinct (map dc_name (ds_columns s))
     \<and> (\<forall>idx \<in> set (ds_indexes s). set (di_columns idx)
          \<subseteq> {ColumnID, ColumnTenant, ColumnVersion} \<union> dc_name ` set (ds_columns s)))"
  (is "?L = (?T \<and> ?C \<and> ?D \<and> ?I)")
proof -
  let ?b0 = "inject_structural ((empty_binding (ds_table s))\<lparr>b_dynamic := True\<rparr>)"
  note wf0 = inject_structural_wf [of "ds_table s"]
  have step: "(\<exists>b1. add_domain_columns ?b0 (ds_columns s) = Inr b1) = (?C \<and> ?D)"
    using add_domain_columns_Inr [of ?b0 "ds_columns s"] wf0 by (auto simp: IsReservedColumn_def)
  have idx: "(check_indexes b1 (ds_indexes s) = None) = ?I"
    if "add_domain_columns ?b0 (ds_columns s) = Inr b1" for b1
  proof -
    note wf1 = add_domain_columns_wf [OF conjunct1 [OF wf0] that]
    then have "(mget (b_dyncols b1) col = None) = (col \<notin> set (b_columns b1))" for col
      unfolding wf_dyn_def by metis
    then have col: "(mget (b_dyncols b1) col = None)
        = (col \<notin> {ColumnID, ColumnTenant, ColumnVersion} \<union> dc_name ` set (ds_columns s))" for col
      using wf0 wf1 by simp
    show ?thesis unfolding check_indexes_def first_err_None fail_if_None col by blast
  qed
  have "dynIdent [] = False" by (simp add: dynIdent_def)
  then have "?L = (?T \<and> (\<exists>b1. add_domain_columns ?b0 (ds_columns s) = Inr b1
      \<and> check_indexes b1 (ds_indexes s) = None))"
    by (auto simp: bindDynamic_def split: sum.splits option.splits)
  with step idx show ?thesis by blast
qed

lemma bind_fields_columns:
  "(mget (b_fields (bind_fields b fs)) col \<noteq> None) = (mget (b_fields b) col \<noteq> None
     \<or> (\<exists>f \<in> set fs. \<not> sf_skip f \<and> sf_column f = col \<and> col \<noteq> []))
   \<and> (col \<in> set (b_columns (bind_fields b fs))) = (col \<in> set (b_columns b)
     \<or> (\<exists>f \<in> set fs. \<not> sf_skip f \<and> sf_column f = col \<and> col \<noteq> []))"
  by (induction fs arbitrary: b) auto

lemma bind_fields_frame [simp]:
  "b_dynamic (bind_fields b fs) = b_dynamic b" "b_modeltype (bind_fields b fs) = b_modeltype b"
  "b_table (bind_fields b fs) = b_table b"
  by (induction fs arbitrary: b) auto

lemma bind_model_wf:
  assumes "bind_model newTable m pre = Inr b"
  shows "wf_binding b \<and> \<not> b_dynamic b \<and> b_modeltype b \<noteq> None"
proof -
  from assms obtain table where t: "newTable m = Inr table"
    by (auto simp: bind_model_def split: sum.splits)
  define b0 where "b0 = bind_fields ((empty_binding (prefixedTable pre (st_name table)))
      \<lparr>b_modeltype := Some (st_modeltype table)\<rparr>) (st_fields table)"
  have cols: "(mget (b_fields b0) col \<noteq> None) = (col \<in> set (b_columns b0))" for col
    unfolding b0_def bind_fields_columns [THEN conjunct1] bind_fields_columns [THEN conjunct2]
    by (simp add: empty_binding_def)
  have b0: "\<not> b_dynamic b0" "b_modeltype b0 \<noteq> None"
    by (simp_all add: b0_def empty_binding_def)
  from assms t have "b = b0\<lparr>b_pk := ColumnID, b_tenant_column := ColumnTenant, b_version_column := ColumnVersion\<rparr>"
    and "mget (b_fields b0) ColumnID \<noteq> None" "HasColumn b0 ColumnTenant" "HasColumn b0 ColumnVersion"
    by (auto simp: bind_model_def Let_def b0_def [symmetric] split: if_splits option.splits)
  with b0 show ?thesis
    unfolding wf_binding_def HasColumn_def by (simp flip: cols)
qed

lemma bind_wf:
  assumes "bind newTable spec pre = Inr b"
  shows "wf_binding b \<and> b_dynamic b = (es_schema spec \<noteq> None) \<and> (b_modeltype b = None) = (es_schema spec \<noteq> None)"
proof (cases "es_schema spec")
  case None
  with assms obtain m where "bind_model newTable m pre = Inr b"
    by (auto simp: bind_def split: option.splits)
  from bind_model_wf [OF this] None show ?thesis by simp
next
  case (Some s)
  with assms have *: "bindDynamic s = Inr b" by (auto simp: bind_def split: if_splits)
  with bindDynamic_columns [OF *] Some show ?thesis by (auto simp: wf_binding_def)
qed

section \<open>What coercion guarantees\<close>

text \<open>The canonical Go type of each column type.\<close>

fun canonical :: "ColumnType \<Rightarrow> gval \<Rightarrow> bool" where
  "canonical t VNil = True"
| "canonical ColText (VStr s) = True"
| "canonical ColInt (VInt KInt64 n) = (int64_min \<le> n \<and> n \<le> int64_max)"
| "canonical ColFloat (VFloat64 f) = True"
| "canonical ColBool (VBool b) = True"
| "canonical ColTime (VTime t l) = True"
| "canonical ColJSON v = True"
| "canonical t v = False"

text \<open>Go's promise for an out-of-range conversion: some \<^verbatim>\<open>int64\<close>.\<close>

definition lib_int64 :: "golib \<Rightarrow> bool" where
  "lib_int64 lib = (\<forall>f. int64_min \<le> float_to_int64 lib f \<and> float_to_int64 lib f \<le> int64_max)"

lemma floatToInt_canonical: "lib_int64 lib \<Longrightarrow> floatToInt lib f = Inr w \<Longrightarrow> canonical ColInt w"
  by (auto simp: floatToInt_def lib_int64_def split: f64.splits if_splits)

lemma CoerceToColumn_typed:
  assumes "lib_int64 lib" and "CoerceToColumn lib t v = Inr w"
  shows "canonical t w"
  using assms
  by (induction lib t v rule: CoerceToColumn.induct)
    (auto simp: to_int64_range floatToInt_canonical split: if_splits option.splits)

lemma CoerceToColumn_canonical_id: "canonical t w \<Longrightarrow> t \<noteq> ColOther i \<Longrightarrow> CoerceToColumn lib t w = Inr w"
  by (induction t w rule: canonical.induct) (auto simp: to_int64_id)

lemma coerce_cell_key: "coerce_cell lib b (k, v) = Inr (k', w) \<Longrightarrow> k' = k"
  by (auto simp: coerce_cell_def split: if_splits option.splits sum.splits)

lemma CoerceRow_keys: "CoerceRow lib b vs = Inr ws \<Longrightarrow> map fst ws = map fst vs"
proof -
  have "list_all2 (\<lambda>x y. coerce_cell lib b x = Inr y) vs ws \<Longrightarrow> map fst ws = map fst vs"
    by (induction vs ws rule: list_all2_induct) (auto dest: coerce_cell_key)
  then show "CoerceRow lib b vs = Inr ws \<Longrightarrow> map fst ws = map fst vs"
    by (auto simp: CoerceRow_def dest: map_res_Inr split: if_splits)
qed

lemma CoerceRow_typed_cells:
  assumes "lib_int64 lib" and "CoerceRow lib b vs = Inr ws" and "(col, w) \<in> set ws"
    and "DynColumn b col = Some dc" and "\<not> IsReservedColumn col"
  shows "canonical (dc_type dc) w"
proof -
  have dyn: "b_dynamic b" using assms(4) by (auto simp: DynColumn_def split: if_splits)
  have "list_all2 (\<lambda>x y. coerce_cell lib b x = Inr y) vs ws"
    using assms(2) dyn by (auto simp: CoerceRow_def dest: map_res_Inr)
  moreover from assms(3) obtain i where i: "i < length ws" "ws ! i = (col, w)"
    by (auto simp: in_set_conv_nth)
  ultimately have "coerce_cell lib b (vs ! i) = Inr (col, w)"
    by (auto dest: list_all2_nthD2)
  then obtain v where "CoerceToColumn lib (dc_type dc) v = Inr w"
    using assms(4,5)
    by (auto simp: coerce_cell_def IsReservedColumn_def
        split: prod.splits if_splits option.splits sum.splits)
  with assms(1) show ?thesis by (rule CoerceToColumn_typed)
qed

lemma CoerceToColumn_stable:
  assumes "lib_int64 lib" "CoerceToColumn lib t v = Inr w"
  shows "CoerceToColumn lib t w = Inr w"
proof (cases "\<exists>i. t = ColOther i")
  case True
  then show ?thesis using assms(2) by (cases v) auto
next
  case False
  then show ?thesis using CoerceToColumn_canonical_id [OF CoerceToColumn_typed [OF assms]] by blast
qed

lemma coerce_cell_stable:
  assumes "lib_int64 lib" "coerce_cell lib b x = Inr y"
  shows "coerce_cell lib b y = Inr y"
proof -
  obtain col v where x: "x = (col, v)" by fastforce
  show ?thesis
  proof (cases "col = ColumnID \<or> col = ColumnTenant \<or> col = ColumnVersion \<or> DynColumn b col = None")
    case True
    then have c: "coerce_cell lib b (col, v) = Inr (col, v)" by (auto simp: coerce_cell_def)
    then have "y = (col, v)" using assms(2) x by simp
    then show ?thesis using c by simp
  next
    case False
    then obtain dc where dc: "DynColumn b col = Some dc" by blast
    then obtain w where w: "CoerceToColumn lib (dc_type dc) v = Inr w" "y = (col, w)"
      using assms(2) x False by (auto simp: coerce_cell_def split: sum.splits)
    show ?thesis using CoerceToColumn_stable [OF assms(1) w(1)] w(2) dc by (simp add: coerce_cell_def)
  qed
qed

lemma map_res_stable: "list_all2 (\<lambda>x y. f y = Inr y) xs ys \<Longrightarrow> map_res f ys = Inr ys"
  by (induction xs ys rule: list_all2_induct) simp_all

text \<open>
  C19. A coerced row is well typed: it has the columns of the row given, every declared column
  holds a value of its canonical type, and coercing it again changes nothing.
\<close>

theorem coerced_row_typed:
  assumes "lib_int64 lib" "CoerceRow lib b vs = Inr ws"
  shows "map fst ws = map fst vs \<and> CoerceRow lib b ws = Inr ws
    \<and> (\<forall>col w dc. (col, w) \<in> set ws \<and> DynColumn b col = Some dc \<and> \<not> IsReservedColumn col \<longrightarrow> canonical (dc_type dc) w)"
proof (intro conjI allI impI)
  show "map fst ws = map fst vs" by (rule CoerceRow_keys [OF assms(2)])
  show "CoerceRow lib b ws = Inr ws"
  proof (cases "b_dynamic b")
    case True
    then have "list_all2 (\<lambda>x y. coerce_cell lib b x = Inr y) vs ws"
      using assms(2) by (auto simp: CoerceRow_def dest: map_res_Inr)
    then have "list_all2 (\<lambda>x y. coerce_cell lib b y = Inr y) vs ws"
      by (rule list_all2_mono) (rule coerce_cell_stable [OF assms(1)])
    then show ?thesis using True by (simp add: CoerceRow_def map_res_stable)
  qed (simp add: CoerceRow_def)
  show "canonical (dc_type dc) w" if "(col, w) \<in> set ws \<and> DynColumn b col = Some dc \<and> \<not> IsReservedColumn col" for col w dc
    using CoerceRow_typed_cells [OF assms, of col w dc] that by simp
qed

theorem coerced_row_typed_witness:
  "\<exists>ws. CoerceRow \<lparr>time_parse = \<lambda>s. None, time_format = \<lambda>t l. [], float_to_int64 = \<lambda>f. 0, to_lower = \<lambda>s. s, json_text = \<lambda>j. []\<rparr>
       ((empty_binding ''t'')\<lparr>b_dynamic := True, b_dyncols := [(''n'', zero_dyncol\<lparr>dc_type := ColInt\<rparr>)]\<rparr>) [(''n'', VInt KUint8 3)] = Inr ws
     \<and> (\<forall>w. (''n'', w) \<in> set ws \<longrightarrow> canonical ColInt w)"
proof -
  let ?lib = "\<lparr>time_parse = \<lambda>s. None, time_format = \<lambda>t l. [], float_to_int64 = \<lambda>f. 0, to_lower = \<lambda>s. s, json_text = \<lambda>j. []\<rparr>"
  let ?b = "(empty_binding ''t'')\<lparr>b_dynamic := True, b_dyncols := [(''n'', zero_dyncol\<lparr>dc_type := ColInt\<rparr>)]\<rparr>"
  obtain ws where ws: "CoerceRow ?lib ?b [(''n'', VInt KUint8 3)] = Inr ws"
    by (simp add: CoerceRow_def coerce_cell_def DynColumn_def column_names zero_dyncol_def)
  have l: "lib_int64 ?lib" by (simp add: lib_int64_def int64_min_def int64_max_def)
  have d: "DynColumn ?b ''n'' = Some (zero_dyncol\<lparr>dc_type := ColInt\<rparr>)" "\<not> IsReservedColumn ''n''"
    by (simp_all add: DynColumn_def IsReservedColumn_def column_names)
  have "canonical (dc_type (zero_dyncol\<lparr>dc_type := ColInt\<rparr>)) w" if "(''n'', w) \<in> set ws" for w
    using coerced_row_typed [OF l ws] d that by blast
  then have "\<forall>w. (''n'', w) \<in> set ws \<longrightarrow> canonical ColInt w" by simp
  then show ?thesis using ws by blast
qed

end
