(* ===== verification/Registry.thy ===== *)
theory Registry
  imports Binding
begin

text \<open>
  The entity registry of \<^verbatim>\<open>core/registry/registry.go\<close>: registration, runtime
  replacement and removal of dynamic entities, lookup, and the start-up validation that
  builds the metric index.  An operation that fails leaves the registry as it was, so a
  mutator returns either an error or the new registry.  The mutex makes each operation one
  atomic step.
\<close>

record Entity =
  e_spec :: EntitySpec
  e_binding :: Binding

record Registry =
  r_entities :: "Entity gomap"
  r_bymodel :: "(gotype \<times> Entity) list"
  r_metrics :: "MetricSpec gomap"
  r_prefix :: string

section \<open>Construction\<close>

text \<open>The pattern \<^verbatim>\<open>^[a-z][a-z0-9_]*_$\<close>.\<close>

definition tablePrefixPattern :: "string \<Rightarrow> bool" where
  "tablePrefixPattern p =
     (length p \<ge> 2 \<and> is_lower (hd p)
      \<and> list_all (\<lambda>c. is_lower c \<or> is_digit c \<or> c = CHR ''_'') (tl p) \<and> last p = CHR ''_'')"

text \<open>An invalid prefix panics (\<^const>\<open>None\<close>).\<close>

definition WithTablePrefix :: "string \<Rightarrow> (Registry \<Rightarrow> Registry) option" where
  "WithTablePrefix pre =
     (if pre \<noteq> [] \<and> \<not> tablePrefixPattern pre then None
      else Some (\<lambda>r. r\<lparr>r_prefix := pre\<rparr>))"

definition New :: "(Registry \<Rightarrow> Registry) list \<Rightarrow> Registry" where
  "New opts = fold (\<lambda>opt r. opt r) opts
     \<lparr>r_entities = [], r_bymodel = [], r_metrics = [], r_prefix = []\<rparr>"

section \<open>Validation of one specification\<close>

definition check_edges :: "EntitySpec \<Rightarrow> Binding \<Rightarrow> gerr option" where
  "check_edges spec b = err_seq
     [fail_if (es_graphnode spec = [] \<and> es_edges spec \<noteq> [])
        (Errorf ''edges declared but GraphNode is empty''),
      first_err (\<lambda>e. err_seq
        [fail_if (eg_field e = [] \<or> eg_rel e = [] \<or> eg_target e = [])
           (Errorf ''edge: field, rel and target are all required''),
         fail_if (\<not> HasColumn b (eg_field e)) (Errorf ''edge field is not a column'')])
        (es_edges spec)]"

definition check_search :: "EntitySpec \<Rightarrow> Binding \<Rightarrow> gerr option" where
  "check_search spec b = err_seq
     [first_err (\<lambda>f. fail_if (\<not> HasColumn b f) (Errorf ''search field is not a column''))
        (ss_fields (es_search spec)),
      fail_if (ss_index (es_search spec) = [] \<and> ss_fields (es_search spec) \<noteq> [])
        (Errorf ''search fields declared but index name is empty'')]"

definition check_graphedge :: "EntitySpec \<Rightarrow> Binding \<Rightarrow> gerr option" where
  "check_graphedge spec b =
     (case es_graphedge spec of None \<Rightarrow> None
      | Some ge \<Rightarrow> err_seq
         [fail_if (es_graphnode spec \<noteq> [] \<or> es_edges spec \<noteq> [])
            (Errorf ''GraphEdge is exclusive with GraphNode/Edges''),
          fail_if (ge_source_label ge = [] \<or> ge_target_label ge = [])
            (Errorf ''GraphEdge needs SourceLabel and TargetLabel''),
          first_err (\<lambda>f. fail_if (f = [] \<or> \<not> HasColumn b f) (Errorf ''GraphEdge field is not a column''))
            [ge_type_field ge, ge_source_field ge, ge_target_field ge],
          first_err (\<lambda>f. fail_if (f \<in> {ge_type_field ge, ge_source_field ge, ge_target_field ge})
            (Errorf ''GraphEdge PropField shadows a structural field'')) (ge_prop_fields ge),
          first_err (\<lambda>f. fail_if (\<not> HasColumn b f) (Errorf ''GraphEdge prop is not a column''))
            (ge_prop_fields ge)])"

definition check_subscribe :: "EntitySpec \<Rightarrow> Binding \<Rightarrow> gerr option" where
  "check_subscribe spec b = first_err (\<lambda>s. err_seq
     [fail_if (sc_name s = []) (Errorf ''subscription scope with empty name''),
      fail_if (sc_field s \<noteq> [] \<and> \<not> HasColumn b (sc_field s)) (Errorf ''scope field is not a column'')])
     (es_subscribe spec)"

definition check_live :: "EntitySpec \<Rightarrow> Binding \<Rightarrow> gerr option" where
  "check_live spec b =
     (case es_live spec of None \<Rightarrow> None
      | Some l \<Rightarrow> err_seq
         [first_err (\<lambda>c. fail_if (\<not> HasColumn b c) (Errorf ''live sortable column is not a column''))
            (lv_sortable l),
          first_err (\<lambda>c. fail_if (\<not> HasColumn b c) (Errorf ''live filterable column is not a column''))
            (lv_filterable l)])"

definition check_analytics :: "EntitySpec \<Rightarrow> gerr option" where
  "check_analytics spec =
     (case es_analytics spec of None \<Rightarrow> None
      | Some a \<Rightarrow> fail_if (\<not> an_include_all a \<and> an_include a = [] \<and> an_hash a = [])
          (Errorf ''Analytics spec has no Include or Hash fields and IncludeAll is false''))"

definition check_insights :: "EntitySpec \<Rightarrow> Binding \<Rightarrow> gerr option" where
  "check_insights spec b =
     (case es_insights spec of None \<Rightarrow> None
      | Some i \<Rightarrow> err_seq
         [fail_if (in_measures i = [] \<and> in_dimensions i = [])
            (Errorf ''Insights spec has no Measures or Dimensions''),
          first_err (\<lambda>c. fail_if (\<not> HasColumn b c) (Errorf ''Insights measure is not a column''))
            (in_measures i),
          first_err (\<lambda>c. fail_if (\<not> HasColumn b c) (Errorf ''Insights dimension is not a column''))
            (in_dimensions i)])"

definition check_metrics :: "EntitySpec \<Rightarrow> Binding \<Rightarrow> gerr option" where
  "check_metrics spec b = first_err (\<lambda>m. err_seq
     [fail_if (me_name m = []) (Errorf ''MetricSpec has an empty Name''),
      fail_if (me_measures m = []) (Errorf ''metric has no Measures''),
      first_err (\<lambda>mm. fail_if (mm_kind mm \<noteq> ''count'' \<and> \<not> HasColumn b (mm_field mm))
        (Errorf ''metric measure field is not a column'')) (me_measures m)])
     (es_metrics spec)"

definition validateAndBind :: "(gotype \<Rightarrow> gerr + stable) \<Rightarrow> Registry \<Rightarrow> EntitySpec \<Rightarrow> gerr + Binding" where
  "validateAndBind newTable r spec =
     (if es_name spec = [] then Inl (Errorf ''entity spec has empty name'')
      else if es_kind spec = KindDocument \<and> es_crdt spec = None
      then Inl (Errorf ''KindDocument requires a CRDT spec'')
      else
        (case bind newTable spec (r_prefix r) of
           Inl e \<Rightarrow> Inl e
         | Inr b \<Rightarrow>
             (case err_seq [check_edges spec b, check_search spec b, check_graphedge spec b,
                            check_subscribe spec b, check_live spec b, check_analytics spec,
                            check_insights spec b, check_metrics spec b] of
                Some e \<Rightarrow> Inl e
              | None \<Rightarrow> Inr b)))"

section \<open>Operations\<close>

definition Register :: "(gotype \<Rightarrow> gerr + stable) \<Rightarrow> Registry \<Rightarrow> EntitySpec \<Rightarrow> gerr + Registry" where
  "Register newTable r spec =
     (case validateAndBind newTable r spec of
        Inl e \<Rightarrow> Inl e
      | Inr b \<Rightarrow>
          (let name = es_name spec; ent = \<lparr>e_spec = spec, e_binding = b\<rparr>
           in if mget (r_entities r) name \<noteq> None then Inl (Errorf ''entity registered twice'')
              else
                (case b_modeltype b of
                   Some mt \<Rightarrow>
                     (if mget (r_bymodel r) mt \<noteq> None
                      then Inl (Errorf ''model type already bound to entity'')
                      else Inr (r\<lparr>r_entities := mput name ent (r_entities r),
                                  r_bymodel := mput mt ent (r_bymodel r)\<rparr>))
                 | None \<Rightarrow> Inr (r\<lparr>r_entities := mput name ent (r_entities r)\<rparr>))))"

definition Replace :: "(gotype \<Rightarrow> gerr + stable) \<Rightarrow> Registry \<Rightarrow> EntitySpec \<Rightarrow> gerr + Registry" where
  "Replace newTable r spec =
     (case validateAndBind newTable r spec of
        Inl e \<Rightarrow> Inl e
      | Inr b \<Rightarrow>
          (case mget (r_entities r) (es_name spec) of
             None \<Rightarrow> Inl (Errorf ''cannot replace unknown entity'')
           | Some cur \<Rightarrow>
               (if es_schema (e_spec cur) = None
                then Inl (Errorf ''entity is not dynamic; cannot replace at runtime'')
                else if b_modeltype b \<noteq> None
                then Inl (Errorf ''replacement spec is modelled; dynamic-only'')
                else Inr (r\<lparr>r_entities :=
                       mput (es_name spec) \<lparr>e_spec = spec, e_binding = b\<rparr> (r_entities r)\<rparr>))))"

definition Unregister :: "Registry \<Rightarrow> string \<Rightarrow> gerr + Registry" where
  "Unregister r name =
     (case mget (r_entities r) name of
        None \<Rightarrow> Inl (Errorf ''cannot unregister unknown entity'')
      | Some cur \<Rightarrow>
          (if es_schema (e_spec cur) = None
           then Inl (Errorf ''entity is not dynamic; cannot unregister at runtime'')
           else
             (let r' = r\<lparr>r_entities := mdel name (r_entities r)\<rparr>
              in case b_modeltype (e_binding cur) of
                   Some mt \<Rightarrow> Inr (r'\<lparr>r_bymodel := mdel mt (r_bymodel r)\<rparr>)
                 | None \<Rightarrow> Inr r')))"

text \<open>\<^verbatim>\<open>MustRegister\<close> panics on an error.\<close>

definition MustRegister :: "(gotype \<Rightarrow> gerr + stable) \<Rightarrow> Registry \<Rightarrow> EntitySpec \<Rightarrow> Registry option" where
  "MustRegister newTable r spec = (case Register newTable r spec of Inl e \<Rightarrow> None | Inr r' \<Rightarrow> Some r')"

definition GetByModelType :: "Registry \<Rightarrow> gotype \<Rightarrow> Entity option" where
  "GetByModelType r t = mget (r_bymodel r) t"

definition Get :: "Registry \<Rightarrow> string \<Rightarrow> Entity option" where
  "Get r name = mget (r_entities r) name"

definition Metric :: "Registry \<Rightarrow> string \<Rightarrow> MetricSpec option" where
  "Metric r name = mget (r_metrics r) name"

definition MaterializedMetrics :: "Registry \<Rightarrow> MetricSpec list" where
  "MaterializedMetrics r =
     sort_key me_name (filter (\<lambda>m. me_rollup m \<noteq> None) (map snd (r_metrics r)))"

definition EntityHasInsights :: "Registry \<Rightarrow> string \<Rightarrow> bool" where
  "EntityHasInsights r name =
     (case mget (r_entities r) name of None \<Rightarrow> False | Some e \<Rightarrow> es_insights (e_spec e) \<noteq> None)"

definition All :: "Registry \<Rightarrow> Entity list" where
  "All r = sort_key (\<lambda>e. es_name (e_spec e)) (map snd (r_entities r))"

section \<open>Start-up validation\<close>

definition validate_entity :: "Registry \<Rightarrow> Entity \<Rightarrow> gerr option" where
  "validate_entity r e = err_seq
     [first_err (\<lambda>edge.
        (case mget (r_entities r) (eg_target edge) of
           None \<Rightarrow> Some (Errorf ''edge targets unregistered entity'')
         | Some target \<Rightarrow> fail_if (es_graphnode (e_spec target) = [])
             (Errorf ''edge targets entity which has no GraphNode''))) (es_edges (e_spec e)),
      (case es_embed (e_spec e) of None \<Rightarrow> None
       | Some em \<Rightarrow>
           (if em_text em \<noteq> None then None
            else err_seq
              [fail_if (em_fields em = []) (Errorf ''Embed needs Fields or Text''),
               first_err (\<lambda>f. fail_if (\<not> HasColumn (e_binding e) f) (Errorf ''Embed field is not a column''))
                 (em_fields em)])),
      (case es_distill (e_spec e) of None \<Rightarrow> None
       | Some d \<Rightarrow>
           (if dt_text d \<noteq> None then None
            else err_seq
              [fail_if (dt_source_fields d = []) (Errorf ''Distill needs SourceFields or Text''),
               first_err (\<lambda>f. fail_if (\<not> HasColumn (e_binding e) f) (Errorf ''Distill field is not a column''))
                 (dt_source_fields d)]))]"

text \<open>\<^verbatim>\<open>24 * time.Hour\<close> in nanoseconds.\<close>

definition day_ns :: int where
  "day_ns = 24 * 3600 * 1000000000"

definition validate_metric :: "Registry \<Rightarrow> MetricSpec gomap \<Rightarrow> MetricSpec \<Rightarrow> gerr option" where
  "validate_metric r idx m = err_seq
     [fail_if (mget (r_entities r) (me_name m) \<noteq> None)
        (Errorf ''metric collides with a registered entity name''),
      fail_if (mget idx (me_name m) \<noteq> None) (Errorf ''duplicate metric name''),
      (case mget (r_entities r) (me_source m) of None \<Rightarrow> None
       | Some src \<Rightarrow> fail_if (es_insights (e_spec src) = None)
           (Errorf ''metric sources entity which has no InsightsSpec'')),
      (case me_rollup m of None \<Rightarrow> None
       | Some ru \<Rightarrow> err_seq
           [fail_if (ru_bucket ru \<le> 0) (Errorf ''Rollup.Bucket must be > 0''),
            fail_if (ru_bucket ru > day_ns \<or> day_ns mod ru_bucket ru \<noteq> 0)
              (Errorf ''Rollup.Bucket must evenly divide 24h''),
            fail_if (mget (r_entities r) (me_source m) \<noteq> None)
              (Errorf ''rollups are event-sourced only'')])]"

fun index_metrics :: "Registry \<Rightarrow> MetricSpec gomap \<Rightarrow> MetricSpec list \<Rightarrow> gerr + MetricSpec gomap" where
  "index_metrics r idx [] = Inr idx"
| "index_metrics r idx (m # ms) =
     (case validate_metric r idx m of
        Some e \<Rightarrow> Inl e
      | None \<Rightarrow> index_metrics r (mput (me_name m) m idx) ms)"

definition Validate :: "Registry \<Rightarrow> gerr + Registry" where
  "Validate r =
     (case first_err (validate_entity r) (map snd (r_entities r)) of
        Some e \<Rightarrow> Inl e
      | None \<Rightarrow>
          (case index_metrics r [] (concat (map (\<lambda>ne. es_metrics (e_spec (snd ne))) (r_entities r))) of
             Inl e \<Rightarrow> Inl e
           | Inr idx \<Rightarrow> Inr (r\<lparr>r_metrics := idx\<rparr>)))"

section \<open>The registry invariant\<close>

text \<open>The columns a specification refers to.\<close>

definition spec_columns :: "EntitySpec \<Rightarrow> string set" where
  "spec_columns spec =
     eg_field ` set (es_edges spec)
     \<union> set (ss_fields (es_search spec))
     \<union> (case es_graphedge spec of None \<Rightarrow> {}
        | Some ge \<Rightarrow> {ge_type_field ge, ge_source_field ge, ge_target_field ge} \<union> set (ge_prop_fields ge))
     \<union> (sc_field ` set (es_subscribe spec) - {[]})
     \<union> (case es_live spec of None \<Rightarrow> {} | Some l \<Rightarrow> set (lv_sortable l) \<union> set (lv_filterable l))
     \<union> (case es_insights spec of None \<Rightarrow> {} | Some i \<Rightarrow> set (in_measures i) \<union> set (in_dimensions i))
     \<union> {mm_field mm | mm m. m \<in> set (es_metrics spec) \<and> mm \<in> set (me_measures m) \<and> mm_kind mm \<noteq> ''count''}"

definition wf_entity :: "Entity \<Rightarrow> bool" where
  "wf_entity e =
     (es_name (e_spec e) \<noteq> [] \<and> wf_binding (e_binding e)
      \<and> spec_columns (e_spec e) \<subseteq> set (b_columns (e_binding e))
      \<and> b_dynamic (e_binding e) = (es_schema (e_spec e) \<noteq> None)
      \<and> (b_modeltype (e_binding e) = None) = (es_schema (e_spec e) \<noteq> None)
      \<and> (es_graphedge (e_spec e) \<noteq> None \<longrightarrow> es_graphnode (e_spec e) = [] \<and> es_edges (e_spec e) = [])
      \<and> (es_edges (e_spec e) \<noteq> [] \<longrightarrow> es_graphnode (e_spec e) \<noteq> [])
      \<and> (es_kind (e_spec e) = KindDocument \<longrightarrow> es_crdt (e_spec e) \<noteq> None))"

definition wf_registry :: "Registry \<Rightarrow> bool" where
  "wf_registry r =
     (wf_map (r_entities r) \<and> wf_map (r_bymodel r)
      \<and> (\<forall>n e. mget (r_entities r) n = Some e \<longrightarrow> es_name (e_spec e) = n \<and> wf_entity e)
      \<and> (\<forall>t e. (mget (r_bymodel r) t = Some e) =
             (mget (r_entities r) (es_name (e_spec e)) = Some e \<and> b_modeltype (e_binding e) = Some t)))"

lemma validateAndBind_checks:
  assumes "validateAndBind newTable r spec = Inr b"
  shows "es_name spec \<noteq> []" "es_kind spec = KindDocument \<longrightarrow> es_crdt spec \<noteq> None"
    "bind newTable spec (r_prefix r) = Inr b" "check_edges spec b = None" "check_search spec b = None"
    "check_graphedge spec b = None" "check_subscribe spec b = None" "check_live spec b = None"
    "check_insights spec b = None" "check_metrics spec b = None"
  using assms by (auto simp: validateAndBind_def split: if_splits sum.splits option.splits)

lemma HasColumn_wf: "wf_binding b \<Longrightarrow> HasColumn b c = (c \<in> set (b_columns b))"
  by (simp add: wf_binding_def)

lemma checked_columns:
  assumes "wf_binding b"
  shows "check_edges spec b = None \<Longrightarrow> eg_field ` set (es_edges spec) \<subseteq> set (b_columns b)"
    "check_search spec b = None \<Longrightarrow> set (ss_fields (es_search spec)) \<subseteq> set (b_columns b)"
    "check_subscribe spec b = None \<Longrightarrow> sc_field ` set (es_subscribe spec) - {[]} \<subseteq> set (b_columns b)"
    "check_metrics spec b = None \<Longrightarrow>
       {mm_field mm | mm m. m \<in> set (es_metrics spec) \<and> mm \<in> set (me_measures m) \<and> mm_kind mm \<noteq> ''count''}
       \<subseteq> set (b_columns b)"
  by (auto simp: check_edges_def check_search_def check_subscribe_def check_metrics_def
      HasColumn_wf [OF assms])

lemma checked_columns_opt:
  assumes "wf_binding b"
  shows "check_graphedge spec b = None \<Longrightarrow> es_graphedge spec = Some ge \<Longrightarrow>
       {ge_type_field ge, ge_source_field ge, ge_target_field ge} \<union> set (ge_prop_fields ge) \<subseteq> set (b_columns b)"
    "check_live spec b = None \<Longrightarrow> es_live spec = Some l \<Longrightarrow>
       set (lv_sortable l) \<union> set (lv_filterable l) \<subseteq> set (b_columns b)"
    "check_insights spec b = None \<Longrightarrow> es_insights spec = Some i \<Longrightarrow>
       set (in_measures i) \<union> set (in_dimensions i) \<subseteq> set (b_columns b)"
  by (auto simp: check_graphedge_def check_live_def check_insights_def HasColumn_wf [OF assms])

lemma validateAndBind_wf_entity:
  assumes "validateAndBind newTable r spec = Inr b"
  shows "wf_entity \<lparr>e_spec = spec, e_binding = b\<rparr>"
proof -
  note c = validateAndBind_checks [OF assms]
  note w = bind_wf [OF c(3)]
  then have wb: "wf_binding b" by simp
  have "spec_columns spec \<subseteq> set (b_columns b)"
    unfolding spec_columns_def Un_subset_iff
    using checked_columns [OF wb] checked_columns_opt [OF wb] c
    by (intro conjI) (simp_all split: option.splits)
  with c w show ?thesis
    by (auto simp: wf_entity_def check_edges_def check_graphedge_def)
qed

lemma wf_registry_New: "wf_registry (r\<lparr>r_entities := [], r_bymodel := []\<rparr>)"
  by (simp add: wf_registry_def)

lemma Register_Inr:
  assumes "Register newTable r spec = Inr r'"
  obtains b where "validateAndBind newTable r spec = Inr b" "mget (r_entities r) (es_name spec) = None"
    "\<forall>mt. b_modeltype b = Some mt \<longrightarrow> mget (r_bymodel r) mt = None"
    "r_entities r' = mput (es_name spec) \<lparr>e_spec = spec, e_binding = b\<rparr> (r_entities r)"
    "r_bymodel r' = (case b_modeltype b of None \<Rightarrow> r_bymodel r
       | Some mt \<Rightarrow> mput mt \<lparr>e_spec = spec, e_binding = b\<rparr> (r_bymodel r))"
    "r_metrics r' = r_metrics r" "r_prefix r' = r_prefix r"
  using assms by (auto simp: Register_def Let_def split: sum.splits if_splits option.splits)

lemma Register_wf:
  assumes "wf_registry r" and "Register newTable r spec = Inr r'"
  shows "wf_registry r'"
proof -
  obtain b where b: "validateAndBind newTable r spec = Inr b" "mget (r_entities r) (es_name spec) = None"
    "\<forall>mt. b_modeltype b = Some mt \<longrightarrow> mget (r_bymodel r) mt = None"
    and r': "r_entities r' = mput (es_name spec) \<lparr>e_spec = spec, e_binding = b\<rparr> (r_entities r)"
    "r_bymodel r' = (case b_modeltype b of None \<Rightarrow> r_bymodel r
       | Some mt \<Rightarrow> mput mt \<lparr>e_spec = spec, e_binding = b\<rparr> (r_bymodel r))"
    by (rule Register_Inr [OF assms(2)])
  let ?e = "\<lparr>e_spec = spec, e_binding = b\<rparr>"
  have maps: "wf_map (r_entities r')" "wf_map (r_bymodel r')"
    using assms(1) by (auto simp: wf_registry_def r' split: option.splits)
  have ents: "\<forall>n e. mget (r_entities r') n = Some e \<longrightarrow> es_name (e_spec e) = n \<and> wf_entity e"
    using assms(1) validateAndBind_wf_entity [OF b(1)] by (auto simp: wf_registry_def r')
  have bym: "(mget (r_bymodel r) t = Some e) =
      (mget (r_entities r) (es_name (e_spec e)) = Some e \<and> b_modeltype (e_binding e) = Some t)" for t e
    using assms(1) by (simp add: wf_registry_def)
  have "(mget (r_bymodel r') t = Some e) =
      (mget (r_entities r') (es_name (e_spec e)) = Some e \<and> b_modeltype (e_binding e) = Some t)" for t e
  proof (cases "b_modeltype b")
    case None
    then show ?thesis using b(2) by (auto simp: r' bym)
  next
    case (Some mt)
    have "mget (r_bymodel r) mt \<noteq> Some e" using b(3) Some by simp
    then show ?thesis using b(2) Some by (auto simp: r' bym)
  qed
  with maps ents show ?thesis by (simp add: wf_registry_def)
qed

lemma Replace_wf:
  assumes "wf_registry r" and "Replace newTable r spec = Inr r'"
  shows "wf_registry r'"
proof -
  from assms(2) obtain b cur where b: "validateAndBind newTable r spec = Inr b"
    "mget (r_entities r) (es_name spec) = Some cur" "es_schema (e_spec cur) \<noteq> None" "b_modeltype b = None"
    and r': "r' = r\<lparr>r_entities := mput (es_name spec) \<lparr>e_spec = spec, e_binding = b\<rparr> (r_entities r)\<rparr>"
    by (auto simp: Replace_def split: sum.splits if_splits option.splits)
  have "b_modeltype (e_binding cur) = None"
    using assms(1) b(2,3) by (simp add: wf_registry_def wf_entity_def)
  then show ?thesis
    using assms(1) b validateAndBind_wf_entity [OF b(1)]
    by (auto simp: wf_registry_def r')
qed

lemma Unregister_wf:
  assumes "wf_registry r" and "Unregister r name = Inr r'"
  shows "wf_registry r'"
proof -
  from assms(2) obtain cur where cur: "mget (r_entities r) name = Some cur" "es_schema (e_spec cur) \<noteq> None"
    by (auto simp: Unregister_def split: option.splits if_splits)
  then have nm: "b_modeltype (e_binding cur) = None"
    using assms(1) by (simp add: wf_registry_def wf_entity_def)
  with assms(2) cur have r': "r' = r\<lparr>r_entities := mdel name (r_entities r)\<rparr>"
    by (simp add: Unregister_def split: if_splits)
  show ?thesis using assms(1) cur nm by (auto simp: wf_registry_def r')
qed

section \<open>Facts about start-up validation\<close>

definition metric_ok :: "Registry \<Rightarrow> MetricSpec \<Rightarrow> bool" where
  "metric_ok r m =
     (Get r (me_name m) = None
      \<and> (\<forall>src. Get r (me_source m) = Some src \<longrightarrow> es_insights (e_spec src) \<noteq> None)
      \<and> (\<forall>ru. me_rollup m = Some ru \<longrightarrow>
           0 < ru_bucket ru \<and> ru_bucket ru dvd day_ns \<and> Get r (me_source m) = None))"

definition entity_refs_ok :: "Registry \<Rightarrow> Entity \<Rightarrow> bool" where
  "entity_refs_ok r e =
     ((\<forall>edge \<in> set (es_edges (e_spec e)).
         \<exists>target. Get r (eg_target edge) = Some target \<and> es_graphnode (e_spec target) \<noteq> [])
      \<and> (\<forall>em. es_embed (e_spec e) = Some em \<and> em_text em = None \<longrightarrow>
           em_fields em \<noteq> [] \<and> (\<forall>f \<in> set (em_fields em). HasColumn (e_binding e) f))
      \<and> (\<forall>d. es_distill (e_spec e) = Some d \<and> dt_text d = None \<longrightarrow>
           dt_source_fields d \<noteq> [] \<and> (\<forall>f \<in> set (dt_source_fields d). HasColumn (e_binding e) f)))"

definition all_metrics :: "Registry \<Rightarrow> MetricSpec list" where
  "all_metrics r = concat (map (\<lambda>ne. es_metrics (e_spec (snd ne))) (r_entities r))"

lemma validate_metric_None: "(validate_metric r idx m = None) = (metric_ok r m \<and> mget idx (me_name m) = None)"
proof -
  have "(day_ns < b \<or> day_ns mod b \<noteq> 0) = (\<not> b dvd day_ns)" if "0 < b" for b :: int
    using that zdvd_imp_le [of b day_ns] by (auto simp: day_ns_def mod_eq_0_iff_dvd)
  then show ?thesis
    by (auto simp: validate_metric_def metric_ok_def Get_def not_le split: option.splits)
qed

lemma validate_entity_None: "(validate_entity r e = None) = entity_refs_ok r e"
  by (auto simp: validate_entity_def entity_refs_ok_def Get_def split: option.splits)

lemma index_metrics_Inr_iff:
  "(\<exists>idx'. index_metrics r idx ms = Inr idx') =
     ((\<forall>m \<in> set ms. metric_ok r m) \<and> distinct (map me_name ms)
      \<and> (\<forall>m \<in> set ms. mget idx (me_name m) = None))"
proof (induction ms arbitrary: idx)
  case Nil
  then show ?case by simp
next
  case (Cons m ms)
  show ?case
  proof (cases "validate_metric r idx m")
    case None
    have "(\<forall>x \<in> set ms. mget (mput (me_name m) m idx) (me_name x) = None) =
        (me_name m \<notin> me_name ` set ms \<and> (\<forall>x \<in> set ms. mget idx (me_name x) = None))"
      by (force simp: image_iff)
    moreover have "metric_ok r m" "mget idx (me_name m) = None"
      using None validate_metric_None by blast+
    ultimately show ?thesis
      using None Cons.IH [of "mput (me_name m) m idx"] by auto
  next
    case (Some e)
    then have "\<not> (metric_ok r m \<and> mget idx (me_name m) = None)"
      by (simp flip: validate_metric_None)
    with Some show ?thesis by auto
  qed
qed

lemma index_metrics_lookup:
  assumes "index_metrics r idx ms = Inr idx'"
  shows "(mget idx' n = Some m) = (mget idx n = Some m \<or> (m \<in> set ms \<and> me_name m = n))"
  using assms
proof (induction ms arbitrary: idx)
  case Nil
  then show ?case by simp
next
  case (Cons m' ms)
  then have v: "validate_metric r idx m' = None" and
    rest: "index_metrics r (mput (me_name m') m' idx) ms = Inr idx'"
    by (auto split: option.splits)
  from rest have "\<forall>m \<in> set ms. mget (mput (me_name m') m' idx) (me_name m) = None"
    using index_metrics_Inr_iff by blast
  then have "me_name m' \<notin> me_name ` set ms" by auto
  with Cons.IH [OF rest] v show ?case by (auto simp: validate_metric_None)
qed

lemma index_metrics_wf:
  "wf_map idx \<Longrightarrow> index_metrics r idx ms = Inr idx' \<Longrightarrow> wf_map idx'"
  by (induction ms arbitrary: idx) (auto split: option.splits)

lemma Validate_Inr:
  "Validate r = Inr r' \<Longrightarrow> \<exists>idx. index_metrics r [] (all_metrics r) = Inr idx \<and> r' = r\<lparr>r_metrics := idx\<rparr>"
  by (auto simp: Validate_def all_metrics_def split: option.splits sum.splits)

lemma Validate_wf:
  assumes "wf_registry r" and "Validate r = Inr r'"
  shows "wf_registry r'"
proof -
  obtain idx where "r' = r\<lparr>r_metrics := idx\<rparr>" using Validate_Inr [OF assms(2)] by blast
  with assms(1) show ?thesis by (simp add: wf_registry_def)
qed

section \<open>Properties\<close>

text \<open>The registries a program can build: construction, then any sequence of successful operations.\<close>

inductive reg_reach :: "(gotype \<Rightarrow> gerr + stable) \<Rightarrow> Registry \<Rightarrow> bool" for newTable where
  new: "reg_reach newTable (New [])"
| prefixed: "WithTablePrefix p = Some opt \<Longrightarrow> reg_reach newTable (New [opt])"
| register: "reg_reach newTable r \<Longrightarrow> Register newTable r spec = Inr r' \<Longrightarrow> reg_reach newTable r'"
| replace: "reg_reach newTable r \<Longrightarrow> Replace newTable r spec = Inr r' \<Longrightarrow> reg_reach newTable r'"
| unregister: "reg_reach newTable r \<Longrightarrow> Unregister r name = Inr r' \<Longrightarrow> reg_reach newTable r'"
| validate: "reg_reach newTable r \<Longrightarrow> Validate r = Inr r' \<Longrightarrow> reg_reach newTable r'"

text \<open>A dynamic entity used by the witnesses.\<close>

definition widget_spec :: EntitySpec where
  "widget_spec = (zero_spec ''widget'')
     \<lparr>es_schema := Some \<lparr>ds_table = ''ds_widget'',
        ds_columns = [\<lparr>dc_name = ''qty'', dc_type = ColInt, dc_notnull = False, dc_default = []\<rparr>,
                      \<lparr>dc_name = ''name'', dc_type = ColText, dc_notnull = True, dc_default = []\<rparr>],
        ds_indexes = [], ds_notypecheck = False\<rparr>,
      es_search := \<lparr>ss_index = ''widgets'', ss_fields = [''name'']\<rparr>,
      es_metrics := [\<lparr>me_name = ''orders_per_day'', me_source = ''order.placed'',
        me_measures = [\<lparr>mm_kind = ''count'', mm_field = [], mm_as = ''n'', mm_percentile = Fin 0\<rparr>],
        me_dimensions = [], me_default_bucket = 0,
        me_rollup = Some \<lparr>ru_bucket = 3600000000000, ru_seal_grace = 0, ru_reroll_window = 0\<rparr>\<rparr>]\<rparr>"

lemmas registry_eval = widget_spec_def zero_spec_def New_def Register_def validateAndBind_def bind_def
  bindDynamic_def dynIdent_def is_lower_def is_digit_def inject_structural_def add_column_def
  structural_column_def empty_binding_def check_indexes_def check_edges_def check_search_def
  check_graphedge_def check_subscribe_def check_live_def check_analytics_def check_insights_def
  check_metrics_def HasColumn_def IsReservedColumn_def column_names fail_if_def Let_def



text \<open>
  C18.  Start-up validation accepts a registry exactly when every edge targets a registered
  graph node, every embedding and distillation reads existing columns, metric names are
  globally unique and clash with no entity, and each metric's source and roll-up are
  admissible - whatever order the maps are iterated in.  On success nothing but the metric
  index changes, and the index resolves exactly the declared metrics.
\<close>

theorem Validate_exact:
  "(\<exists>r'. Validate r = Inr r') =
     ((\<forall>ne \<in> set (r_entities r). entity_refs_ok r (snd ne))
      \<and> (\<forall>m \<in> set (all_metrics r). metric_ok r m) \<and> distinct (map me_name (all_metrics r)))
   \<and> (\<forall>r'. Validate r = Inr r' \<longrightarrow> r' = r\<lparr>r_metrics := r_metrics r'\<rparr> \<and> wf_map (r_metrics r')
        \<and> (\<forall>n m. (Metric r' n = Some m) = (m \<in> set (all_metrics r) \<and> me_name m = n)))"
proof (rule conjI)
  have first: "(first_err (validate_entity r) (map snd (r_entities r)) = None) =
      (\<forall>ne \<in> set (r_entities r). entity_refs_ok r (snd ne))"
    by (simp add: validate_entity_None)
  have "(\<exists>r'. Validate r = Inr r') = ((\<forall>ne \<in> set (r_entities r). entity_refs_ok r (snd ne))
      \<and> (\<exists>idx. index_metrics r [] (all_metrics r) = Inr idx))"
    unfolding first [symmetric]
    by (auto simp: Validate_def all_metrics_def simp del: first_err_None split: option.splits sum.splits)
  then show "(\<exists>r'. Validate r = Inr r') = ((\<forall>ne \<in> set (r_entities r). entity_refs_ok r (snd ne))
      \<and> (\<forall>m \<in> set (all_metrics r). metric_ok r m) \<and> distinct (map me_name (all_metrics r)))"
    by (simp add: index_metrics_Inr_iff)
next
  show "\<forall>r'. Validate r = Inr r' \<longrightarrow> r' = r\<lparr>r_metrics := r_metrics r'\<rparr> \<and> wf_map (r_metrics r')
        \<and> (\<forall>n m. (Metric r' n = Some m) = (m \<in> set (all_metrics r) \<and> me_name m = n))"
  proof (intro allI impI)
    fix r'
    assume "Validate r = Inr r'"
    then obtain idx where idx: "index_metrics r [] (all_metrics r) = Inr idx" "r' = r\<lparr>r_metrics := idx\<rparr>"
      using Validate_Inr by blast
    then show "r' = r\<lparr>r_metrics := r_metrics r'\<rparr> \<and> wf_map (r_metrics r')
        \<and> (\<forall>n m. (Metric r' n = Some m) = (m \<in> set (all_metrics r) \<and> me_name m = n))"
      using index_metrics_wf [OF wf_map_Nil idx(1)] index_metrics_lookup [OF idx(1)]
      by (simp add: Metric_def)
  qed
qed

lemmas validate_eval = Validate_def validate_entity_def validate_metric_def day_ns_def

theorem Validate_exact_witness:
  "\<exists>r r'. Register (\<lambda>t. Inl (Errorf ''no model'')) (New []) widget_spec = Inr r \<and> Validate r = Inr r'
     \<and> Metric r' ''orders_per_day'' \<noteq> None \<and> r' = r\<lparr>r_metrics := r_metrics r'\<rparr>"
proof -
  let ?nt = "\<lambda>t. Inl (Errorf ''no model'')"
  have "\<exists>r r'. Register ?nt (New []) widget_spec = Inr r \<and> Validate r = Inr r'
      \<and> Metric r' ''orders_per_day'' \<noteq> None"
    by (simp add: registry_eval validate_eval Metric_def)
  then obtain r r' where r: "Register ?nt (New []) widget_spec = Inr r" "Validate r = Inr r'"
    "Metric r' ''orders_per_day'' \<noteq> None" by blast
  moreover have "r' = r\<lparr>r_metrics := r_metrics r'\<rparr>"
    by (rule Validate_exact [THEN conjunct2, rule_format, OF r(2), THEN conjunct1])
  ultimately show ?thesis by blast
qed

end
