(* ===== verification/Event.thy ===== *)
theory Event
  imports Registry
begin

text \<open>
  The event envelope of \<^verbatim>\<open>core/event\<close>: its record (\<^verbatim>\<open>event.go\<close>), the JSON
  codec with validation on both sides (\<^verbatim>\<open>codec.go\<close>), and the upcaster chain that
  migrates old payloads at decode time (\<^verbatim>\<open>upcast.go\<close>).
\<close>

section \<open>Envelope\<close>

record Envelope =
  ev_id :: string
  ev_tenant :: string
  ev_scope :: string
  ev_aggregate :: string
  ev_aggid :: string
  ev_version :: int
  ev_type :: string
  ev_at :: "int \<times> nat"
  ev_psv :: int
  ev_payload :: rawmsg
  ev_trace :: string

definition env_validate :: "Envelope \<Rightarrow> gerr option" where
  "env_validate e = err_seq
     [fail_if (ev_id e = []) (Errorf ''event envelope missing id''),
      fail_if (ev_tenant e = []) (Errorf ''event envelope missing tenant_id''),
      fail_if (ev_aggregate e = []) (Errorf ''event envelope missing aggregate''),
      fail_if (ev_aggid e = []) (Errorf ''event envelope missing agg_id''),
      fail_if (ev_version e < 1) (Errorf ''event envelope version < 1''),
      fail_if (ev_type e = []) (Errorf ''event envelope missing type''),
      fail_if (ev_psv e < 1) (Errorf ''event envelope payload_schema_version < 1'')]"

section \<open>Codec\<close>

text \<open>
  A JSON text is represented by its parse.  \<^verbatim>\<open>json.Marshal\<close> writes the struct's
  fields in order, leaves out the two \<^verbatim>\<open>omitempty\<close> strings when empty, writes a nil
  \<^verbatim>\<open>RawMessage\<close> as null and fails on one that does not parse.
\<close>

definition omitempty :: "string \<Rightarrow> string \<Rightarrow> (string \<times> json) list" where
  "omitempty k s = (if s = [] then [] else [(k, JStr s)])"

definition marshal_envelope :: "golib \<Rightarrow> Envelope \<Rightarrow> json \<Rightarrow> json" where
  "marshal_envelope lib e payload =
     JObj ([(''id'', JStr (ev_id e)), (''tenant_id'', JStr (ev_tenant e))]
           @ omitempty ''scopeId'' (ev_scope e)
           @ [(''aggregate'', JStr (ev_aggregate e)), (''agg_id'', JStr (ev_aggid e)),
              (''version'', JInt (ev_version e)), (''type'', JStr (ev_type e)),
              (''at'', JStr (time_format lib (fst (ev_at e)) (snd (ev_at e)))),
              (''payload_schema_version'', JInt (ev_psv e)), (''payload'', payload)]
           @ omitempty ''traceparent'' (ev_trace e))"

definition Encode :: "golib \<Rightarrow> Envelope \<Rightarrow> gerr + json" where
  "Encode lib env =
     (case env_validate env of
        Some e \<Rightarrow> Inl e
      | None \<Rightarrow>
          (case ev_payload env of
             RawBad s \<Rightarrow> Inl (Errorf ''json: error calling MarshalJSON'')
           | RawEmpty \<Rightarrow> Inr (marshal_envelope lib env JNull)
           | RawJson j \<Rightarrow> Inr (marshal_envelope lib env j)))"

text \<open>
  \<^verbatim>\<open>json.Unmarshal\<close> into the struct: object keys are taken in order, a key selects
  the field of its exact name or else of the same name up to letter case, null leaves a
  string, number or time untouched, a \<^verbatim>\<open>RawMessage\<close> takes any value, and a value of
  the wrong type is an error.
\<close>

definition ascii_lower :: "char \<Rightarrow> char" where
  "ascii_lower c = (if is_upper c then char_of (of_char c + (32 :: nat)) else c)"

text \<open>The case folding also maps the two non-ASCII letters that fold to \<^verbatim>\<open>s\<close> and \<^verbatim>\<open>k\<close>.\<close>

fun fold_name :: "string \<Rightarrow> string" where
  "fold_name (a # b # c # cs) =
     (if [of_char a, of_char b] = [0xC5, 0xBF :: nat] then CHR ''s'' # fold_name (c # cs)
      else if [of_char a, of_char b, of_char c] = [0xE2, 0x84, 0xAA :: nat] then CHR ''k'' # fold_name cs
      else ascii_lower a # fold_name (b # c # cs))"
| "fold_name [a, b] =
     (if [of_char a, of_char b] = [0xC5, 0xBF :: nat] then ''s'' else [ascii_lower a, ascii_lower b])"
| "fold_name cs = map ascii_lower cs"

definition env_keys :: "string list" where
  "env_keys = [''id'', ''tenant_id'', ''scopeId'', ''aggregate'', ''agg_id'', ''version'', ''type'',
     ''at'', ''payload_schema_version'', ''payload'', ''traceparent'']"

definition field_of_key :: "string \<Rightarrow> string option" where
  "field_of_key k = (if k \<in> set env_keys then Some k else find (\<lambda>f. fold_name f = fold_name k) env_keys)"

fun set_string :: "json \<Rightarrow> (string \<Rightarrow> Envelope) \<Rightarrow> Envelope \<Rightarrow> gerr + Envelope" where
  "set_string (JStr s) upd e = Inr (upd s)"
| "set_string JNull upd e = Inr e"
| "set_string _ upd e = Inl (Errorf ''json: cannot unmarshal into string'')"

fun set_int :: "json \<Rightarrow> (int \<Rightarrow> Envelope) \<Rightarrow> Envelope \<Rightarrow> gerr + Envelope" where
  "set_int (JInt n) upd e =
     (if int64_min \<le> n \<and> n \<le> int64_max then Inr (upd n)
      else Inl (Errorf ''json: cannot unmarshal number''))"
| "set_int JNull upd e = Inr e"
| "set_int _ upd e = Inl (Errorf ''json: cannot unmarshal number'')"

fun set_time :: "golib \<Rightarrow> json \<Rightarrow> (int \<times> nat \<Rightarrow> Envelope) \<Rightarrow> Envelope \<Rightarrow> gerr + Envelope" where
  "set_time lib (JStr s) upd e =
     (case time_parse lib s of None \<Rightarrow> Inl (Errorf ''parsing time'') | Some t \<Rightarrow> Inr (upd t))"
| "set_time lib JNull upd e = Inr e"
| "set_time lib _ upd e = Inl (Errorf ''Time.UnmarshalJSON: input is not a JSON string'')"

definition set_field :: "golib \<Rightarrow> Envelope \<Rightarrow> string \<times> json \<Rightarrow> gerr + Envelope" where
  "set_field lib e kv =
     (case field_of_key (fst kv) of
        None \<Rightarrow> Inr e
      | Some f \<Rightarrow>
          (if f = ''id'' then set_string (snd kv) (\<lambda>s. e\<lparr>ev_id := s\<rparr>) e
           else if f = ''tenant_id'' then set_string (snd kv) (\<lambda>s. e\<lparr>ev_tenant := s\<rparr>) e
           else if f = ''scopeId'' then set_string (snd kv) (\<lambda>s. e\<lparr>ev_scope := s\<rparr>) e
           else if f = ''aggregate'' then set_string (snd kv) (\<lambda>s. e\<lparr>ev_aggregate := s\<rparr>) e
           else if f = ''agg_id'' then set_string (snd kv) (\<lambda>s. e\<lparr>ev_aggid := s\<rparr>) e
           else if f = ''version'' then set_int (snd kv) (\<lambda>n. e\<lparr>ev_version := n\<rparr>) e
           else if f = ''type'' then set_string (snd kv) (\<lambda>s. e\<lparr>ev_type := s\<rparr>) e
           else if f = ''at'' then set_time lib (snd kv) (\<lambda>t. e\<lparr>ev_at := t\<rparr>) e
           else if f = ''payload_schema_version'' then set_int (snd kv) (\<lambda>n. e\<lparr>ev_psv := n\<rparr>) e
           else if f = ''payload'' then Inr (e\<lparr>ev_payload := RawJson (snd kv)\<rparr>)
           else set_string (snd kv) (\<lambda>s. e\<lparr>ev_trace := s\<rparr>) e))"

fun set_fields :: "golib \<Rightarrow> Envelope \<Rightarrow> (string \<times> json) list \<Rightarrow> gerr + Envelope" where
  "set_fields lib e [] = Inr e"
| "set_fields lib e (kv # kvs) =
     (case set_field lib e kv of Inl x \<Rightarrow> Inl x | Inr e' \<Rightarrow> set_fields lib e' kvs)"

text \<open>The zero \<^verbatim>\<open>time.Time\<close>, 1 January of year 1, in nanoseconds from the Unix epoch.\<close>

definition zero_envelope :: Envelope where
  "zero_envelope = \<lparr>ev_id = [], ev_tenant = [], ev_scope = [], ev_aggregate = [], ev_aggid = [],
     ev_version = 0, ev_type = [], ev_at = (- 62135596800000000000, 0), ev_psv = 0,
     ev_payload = RawEmpty, ev_trace = []\<rparr>"

definition Decode :: "golib \<Rightarrow> rawmsg \<Rightarrow> gerr + Envelope" where
  "Decode lib raw =
     (case (case raw of
              RawEmpty \<Rightarrow> Inl (Errorf ''unexpected end of JSON input'')
            | RawBad s \<Rightarrow> Inl (Errorf ''invalid character'')
            | RawJson (JObj kvs) \<Rightarrow> set_fields lib zero_envelope kvs
            | RawJson JNull \<Rightarrow> Inr zero_envelope
            | RawJson _ \<Rightarrow> Inl (Errorf ''json: cannot unmarshal into struct'')) of
        Inl e \<Rightarrow> Inl (WrapErr ''malformed event envelope'' e)
      | Inr env \<Rightarrow> (case env_validate env of Some e \<Rightarrow> Inl e | None \<Rightarrow> Inr env))"

section \<open>Upcasting\<close>

record Upcaster =
  u_type :: string
  u_from :: int
  u_fn :: "(rawmsg \<Rightarrow> gerr + rawmsg) option"

type_synonym UpcasterChain = "(int \<times> Upcaster) list gomap"

definition NewUpcasterChain :: UpcasterChain where
  "NewUpcasterChain = []"

definition RegisterUpcaster :: "UpcasterChain \<Rightarrow> Upcaster \<Rightarrow> gerr + UpcasterChain" where
  "RegisterUpcaster c u =
     (if u_type u = [] \<or> u_from u < 1 then Inl (Errorf ''upcaster needs a type and FromVersion >= 1'')
      else if u_fn u = None then Inl (Errorf ''upcaster has nil Fn'')
      else
        (let byVersion = mget_or [] c (u_type u)
         in if mget byVersion (u_from u) \<noteq> None then Inl (Errorf ''duplicate upcaster'')
            else Inr (mput (u_type u) (mput (u_from u) u byVersion) c)))"

text \<open>
  The loop of \<^verbatim>\<open>Apply\<close>; \<^const>\<open>None\<close> is a run that does not return (it loops, or
  calls a nil function).
\<close>

partial_function (option) apply_steps ::
  "(int \<times> Upcaster) list \<Rightarrow> Envelope \<Rightarrow> (gerr + Envelope) option" where
  "apply_steps byVersion env =
     (case mget byVersion (ev_psv env) of
        None \<Rightarrow> Some (Inr env)
      | Some up \<Rightarrow>
          (case u_fn up of
             None \<Rightarrow> None
           | Some fn \<Rightarrow>
               (case fn (ev_payload env) of
                  Inl e \<Rightarrow> Some (Inl (WrapErr ''upcast'' e))
                | Inr migrated \<Rightarrow>
                    apply_steps byVersion (env\<lparr>ev_payload := migrated, ev_psv := inc64 (ev_psv env)\<rparr>))))"

definition ApplyUpcasters :: "UpcasterChain \<Rightarrow> Envelope \<Rightarrow> (gerr + Envelope) option" where
  "ApplyUpcasters c env = apply_steps (mget_or [] c (ev_type env)) env"

section \<open>Facts\<close>

lemma env_validate_None:
  "(env_validate e = None) = (ev_id e \<noteq> [] \<and> ev_tenant e \<noteq> [] \<and> ev_aggregate e \<noteq> []
     \<and> ev_aggid e \<noteq> [] \<and> 1 \<le> ev_version e \<and> ev_type e \<noteq> [] \<and> 1 \<le> ev_psv e)"
  by (auto simp: env_validate_def)

lemma set_fields_append:
  "set_fields lib e (xs @ ys) = (case set_fields lib e xs of Inl x \<Rightarrow> Inl x | Inr e' \<Rightarrow> set_fields lib e' ys)"
  by (induction xs arbitrary: e) (auto split: sum.splits)

lemma set_fields_omitempty:
  assumes "\<And>s. set_field lib e (k, JStr s) = Inr (upd s)" and "upd [] = e"
  shows "set_fields lib e (omitempty k s) = Inr (upd s)"
  using assms by (simp add: omitempty_def)

lemma field_of_key_self: "k \<in> set env_keys \<Longrightarrow> field_of_key k = Some k"
  by (simp add: field_of_key_def)

lemma set_field_strings:
  "set_field lib e (''id'', JStr s) = Inr (e\<lparr>ev_id := s\<rparr>)"
  "set_field lib e (''tenant_id'', JStr s) = Inr (e\<lparr>ev_tenant := s\<rparr>)"
  "set_field lib e (''scopeId'', JStr s) = Inr (e\<lparr>ev_scope := s\<rparr>)"
  "set_field lib e (''aggregate'', JStr s) = Inr (e\<lparr>ev_aggregate := s\<rparr>)"
  "set_field lib e (''agg_id'', JStr s) = Inr (e\<lparr>ev_aggid := s\<rparr>)"
  "set_field lib e (''type'', JStr s) = Inr (e\<lparr>ev_type := s\<rparr>)"
  "set_field lib e (''traceparent'', JStr s) = Inr (e\<lparr>ev_trace := s\<rparr>)"
  by (simp_all add: set_field_def field_of_key_self env_keys_def)

lemma set_field_others:
  "set_field lib e (''version'', JInt n) = set_int (JInt n) (\<lambda>n. e\<lparr>ev_version := n\<rparr>) e"
  "set_field lib e (''payload_schema_version'', JInt n) = set_int (JInt n) (\<lambda>n. e\<lparr>ev_psv := n\<rparr>) e"
  "set_field lib e (''at'', JStr s) = set_time lib (JStr s) (\<lambda>t. e\<lparr>ev_at := t\<rparr>) e"
  "set_field lib e (''payload'', j) = Inr (e\<lparr>ev_payload := RawJson j\<rparr>)"
  by (simp_all add: set_field_def field_of_key_self env_keys_def)

text \<open>The migration of a payload through \<open>n\<close> consecutive versions.\<close>

primrec migrate :: "(int \<times> Upcaster) list \<Rightarrow> int \<Rightarrow> nat \<Rightarrow> rawmsg \<Rightarrow> gerr + rawmsg" where
  "migrate bv v 0 p = Inr p"
| "migrate bv v (Suc n) p =
     (case mget bv v of
        None \<Rightarrow> Inr p
      | Some up \<Rightarrow>
          (case u_fn up of
             None \<Rightarrow> Inr p
           | Some fn \<Rightarrow> (case fn p of Inl e \<Rightarrow> Inl e | Inr q \<Rightarrow> migrate bv (inc64 v) n q)))"

definition wf_steps :: "(int \<times> Upcaster) list \<Rightarrow> bool" where
  "wf_steps bv = (\<forall>(v, up) \<in> set bv. 1 \<le> v \<and> u_fn up \<noteq> None)"

definition upcast_result :: "(int \<times> Upcaster) list \<Rightarrow> Envelope \<Rightarrow> nat \<Rightarrow> gerr + Envelope" where
  "upcast_result bv env n =
     (case migrate bv (ev_psv env) n (ev_payload env) of
        Inl e \<Rightarrow> Inl (WrapErr ''upcast'' e)
      | Inr p \<Rightarrow> Inr (env\<lparr>ev_payload := p, ev_psv := (inc64 ^^ n) (ev_psv env)\<rparr>))"

text \<open>The versions still ahead of the loop: the measure of its termination.\<close>

definition ahead :: "(int \<times> Upcaster) list \<Rightarrow> int \<Rightarrow> nat" where
  "ahead bv v = (if v < 1 then 0 else Suc (card {k \<in> fst ` set bv. v \<le> k}))"

lemma ahead_step:
  assumes "wf_steps bv" and "mget bv v = Some up" and "v \<le> int64_max"
  shows "ahead bv (inc64 v) < ahead bv v"
proof -
  from assms(1,2) have v: "1 \<le> v" "v \<in> fst ` set bv"
    by (force simp: wf_steps_def dest: mget_SomeD)+
  show ?thesis
  proof (cases "v = int64_max")
    case True
    then show ?thesis using v(1) by (simp add: ahead_def inc64_max int64_min_def)
  next
    case False
    then have inc: "inc64 v = v + 1"
      using assms(3) v(1) by (simp add: inc64_eq int64_min_def)
    have "{k \<in> fst ` set bv. v + 1 \<le> k} \<subset> {k \<in> fst ` set bv. v \<le> k}"
      using v by force
    then have "card {k \<in> fst ` set bv. v + 1 \<le> k} < card {k \<in> fst ` set bv. v \<le> k}"
      by (intro psubset_card_mono) auto
    with inc v(1) show ?thesis by (simp add: ahead_def)
  qed
qed

lemma apply_steps_returns:
  assumes "wf_steps bv" and "ev_psv env \<le> int64_max"
  shows "\<exists>n. apply_steps bv env = Some (upcast_result bv env n)
    \<and> (\<forall>env'. upcast_result bv env n = Inr env' \<longrightarrow> mget bv (ev_psv env') = None)"
  using assms
proof (induction "ahead bv (ev_psv env)" arbitrary: env rule: less_induct)
  case less
  show ?case
  proof (cases "mget bv (ev_psv env)")
    case None
    then have "apply_steps bv env = Some (upcast_result bv env 0)"
      by (simp add: apply_steps.simps upcast_result_def)
    with None show ?thesis by (intro exI [of _ 0]) (simp add: upcast_result_def)
  next
    case (Some up)
    with less.prems obtain fn where fn: "u_fn up = Some fn"
      by (force simp: wf_steps_def dest: mget_SomeD)
    show ?thesis
    proof (cases "fn (ev_payload env)")
      case (Inl e)
      then have "apply_steps bv env = Some (upcast_result bv env 1)"
        using Some fn by (simp add: apply_steps.simps upcast_result_def)
      then show ?thesis using Some fn Inl by (intro exI [of _ 1]) (simp add: upcast_result_def)
    next
      case (Inr q)
      let ?env1 = "env\<lparr>ev_payload := q, ev_psv := inc64 (ev_psv env)\<rparr>"
      have step: "apply_steps bv env = apply_steps bv ?env1"
        using Some fn Inr by (simp add: apply_steps.simps)
      have eq: "upcast_result bv env (Suc n) = upcast_result bv ?env1 n" for n
        using Some fn Inr by (simp add: upcast_result_def funpow_swap1 split: sum.splits)
      have "inc64 (ev_psv env) \<le> int64_max" by (simp add: inc64_def to_int64_range)
      then obtain n where "apply_steps bv ?env1 = Some (upcast_result bv ?env1 n)"
        "\<forall>env'. upcast_result bv ?env1 n = Inr env' \<longrightarrow> mget bv (ev_psv env') = None"
        using less.hyps [of ?env1] ahead_step [OF less.prems(1) Some less.prems(2)] less.prems(1) by auto
      then show ?thesis by (intro exI [of _ "Suc n"]) (simp add: step eq)
    qed
  qed
qed

text \<open>The chains that wiring code can build.\<close>

inductive upc_reach :: "UpcasterChain \<Rightarrow> bool" where
  new: "upc_reach NewUpcasterChain"
| reg: "upc_reach c \<Longrightarrow> RegisterUpcaster c u = Inr c' \<Longrightarrow> upc_reach c'"

lemma upc_reach_wf: "upc_reach c \<Longrightarrow> wf_steps (mget_or [] c t)"
proof (induction arbitrary: t rule: upc_reach.induct)
  case new
  then show ?case by (simp add: NewUpcasterChain_def mget_or_def wf_steps_def)
next
  case (reg c u c')
  from reg.hyps(2) have c': "c' = mput (u_type u) (mput (u_from u) u (mget_or [] c (u_type u))) c"
    and u: "1 \<le> u_from u" "u_fn u \<noteq> None"
    by (auto simp: RegisterUpcaster_def Let_def split: if_splits)
  show ?case
    using reg.IH [of t] reg.IH [of "u_type u"] u set_mput [of "u_from u" u "mget_or [] c (u_type u)"]
    by (auto simp: c' mget_or_def wf_steps_def split: option.splits)
qed

section \<open>Properties\<close>

text \<open>
  C37.  Decoding inverts encoding: an envelope with a JSON payload that \<^verbatim>\<open>Encode\<close>
  accepts is returned unchanged by \<^verbatim>\<open>Decode\<close>, provided the clock value survives its
  RFC 3339 text and the two integers are \<^verbatim>\<open>int64\<close> values.
\<close>

theorem Decode_Encode:
  assumes "Encode lib env = Inr j" and "ev_payload env \<noteq> RawEmpty"
    and "time_parse lib (time_format lib (fst (ev_at env)) (snd (ev_at env))) = Some (ev_at env)"
    and "ev_version env \<le> int64_max" and "ev_psv env \<le> int64_max"
  shows "Decode lib (RawJson j) = Inr env"
proof -
  from assms(1,2) obtain p where p: "ev_payload env = RawJson p"
    and valid: "env_validate env = None" and j: "j = marshal_envelope lib env p"
    by (auto simp: Encode_def split: option.splits rawmsg.splits)
  from valid have ints: "int64_min \<le> ev_version env" "int64_min \<le> ev_psv env"
    by (auto simp: env_validate_None int64_min_def)
  have scope: "set_fields lib e (omitempty ''scopeId'' s) = Inr (e\<lparr>ev_scope := s\<rparr>)"
    if "ev_scope e = []" for e s
    using that by (intro set_fields_omitempty) (auto simp: set_field_strings)
  have trace: "set_fields lib e (omitempty ''traceparent'' s) = Inr (e\<lparr>ev_trace := s\<rparr>)"
    if "ev_trace e = []" for e s
    using that by (intro set_fields_omitempty) (auto simp: set_field_strings)
  show ?thesis
    using valid p assms(3-5) ints
    by (cases env) (simp add: Decode_def j marshal_envelope_def set_fields_append set_field_strings
        set_field_others scope trace zero_envelope_def)
qed

definition demo_lib :: golib where
  "demo_lib = \<lparr>time_parse = (\<lambda>s. if s = ''1970-01-01T00:00:00Z'' then Some (0, 0) else None),
     time_format = (\<lambda>t l. ''1970-01-01T00:00:00Z''), float_to_int64 = (\<lambda>f. int64_min),
     to_lower = map ascii_lower, json_text = (\<lambda>j. [])\<rparr>"

definition demo_env :: Envelope where
  "demo_env = \<lparr>ev_id = ''e1'', ev_tenant = ''acme'', ev_scope = [], ev_aggregate = ''widget'',
     ev_aggid = ''w1'', ev_version = 3, ev_type = ''widget.updated'', ev_at = (0, 0), ev_psv = 1,
     ev_payload = RawJson (JObj [(''name'', JStr ''bolt'')]), ev_trace = ''00-t''\<rparr>"

theorem Decode_Encode_witness:
  "\<exists>j. Encode demo_lib demo_env = Inr j \<and> Decode demo_lib (RawJson j) = Inr demo_env"
proof -
  obtain j where j: "Encode demo_lib demo_env = Inr j"
    by (simp add: Encode_def env_validate_def demo_env_def fail_if_def)
  have "Decode demo_lib (RawJson j) = Inr demo_env"
    by (rule Decode_Encode [OF j]) (simp_all add: demo_env_def demo_lib_def int64_max_def)
  with j show ?thesis by blast
qed


definition demo_upcaster :: Upcaster where
  "demo_upcaster = \<lparr>u_type = ''widget.updated'', u_from = 1, u_fn = Some (\<lambda>p. Inr (RawJson (JObj [])))\<rparr>"


end
