(* ===== verification/Command.thy ===== *)
theory Command
  imports Event
begin

text \<open>
  The command plane of \<^verbatim>\<open>core/command\<close>: preparation of a command
  (\<^verbatim>\<open>validate.go\<close>), the optimistic-concurrency check (\<^verbatim>\<open>version.go\<close>), the
  outbox envelope (\<^verbatim>\<open>outbox.go\<close>) and the executor (\<^verbatim>\<open>executor.go\<close>).  The
  transaction ports \<^verbatim>\<open>Tx\<close> and \<^verbatim>\<open>Store\<close> are a record of operations over an
  arbitrary store and transaction state; their contract is the locale \<open>tx_store\<close>, and the
  in-memory store of \<^verbatim>\<open>core/fabriqtest/fakes.go\<close> interprets it in the theory
  \<^verbatim>\<open>FakeStore\<close>.  Minted identifiers and clock readings come from supplies indexed by
  a counter that the code threads through.
\<close>

section \<open>Commands\<close>

datatype Op = OpCreate | OpUpdate | OpDelete | OpUpsert | OpOther int

definition Verb :: "Op \<Rightarrow> string" where
  "Verb op = (case op of OpCreate \<Rightarrow> VerbCreated | OpUpdate \<Rightarrow> VerbUpdated | OpDelete \<Rightarrow> VerbDeleted
     | OpUpsert \<Rightarrow> ''upsert'' | OpOther _ \<Rightarrow> ''unknown'')"

record Command =
  c_entity :: string
  c_op :: Op
  c_aggid :: string
  c_payload :: payload
  c_expected :: "int option"
  c_skiptypes :: bool

record Result =
  rs_aggid :: string
  rs_version :: int
  rs_eventid :: string

record Change =
  ch_entity :: Entity
  ch_op :: Op
  ch_envelope :: Envelope

record preparedCommand =
  pc_cmd :: Command
  pc_entity :: Entity
  pc_tenant :: string
  pc_scope :: string
  pc_aggid :: string
  pc_vals :: "vals option"

section \<open>Ports\<close>

text \<open>
  The operations of a store.  A transaction body takes the mint counter and the open
  transaction; \<^verbatim>\<open>InTenantTx\<close> may run it more than once.  \<open>tx_fence\<close> is the optional
  \<^verbatim>\<open>ErasureTx\<close> capability.
\<close>

record ('s, 't) storeops =
  tx_fence :: "('t \<Rightarrow> gctx \<Rightarrow> Entity \<Rightarrow> string \<Rightarrow> gerr + 't) option"
  tx_current :: "'t \<Rightarrow> gctx \<Rightarrow> Entity \<Rightarrow> string \<Rightarrow> gerr + int"
  tx_apply :: "'t \<Rightarrow> gctx \<Rightarrow> Entity \<Rightarrow> Op \<Rightarrow> string \<Rightarrow> int \<Rightarrow> vals option \<Rightarrow> gerr + 't"
  tx_append :: "'t \<Rightarrow> gctx \<Rightarrow> Envelope \<Rightarrow> gerr + 't"
  in_tenant_tx :: "'s \<Rightarrow> gctx \<Rightarrow> (nat \<Rightarrow> 't \<Rightarrow> (gerr + 't \<times> (Result \<times> Change) list) \<times> nat) \<Rightarrow> nat
     \<Rightarrow> (gerr + (Result \<times> Change) list) \<times> 's \<times> nat"

record ('s, 't) Executor =
  x_reg :: Registry
  x_store :: "('s, 't) storeops"
  x_lib :: golib
  x_newid :: "nat \<Rightarrow> string"
  x_now :: "nat \<Rightarrow> int"
  x_traceparent :: "gctx \<Rightarrow> string"
  x_hooks :: "(gctx \<Rightarrow> 't \<Rightarrow> Change \<Rightarrow> gerr + 't) list"
  x_postcommit :: "string list"
  x_observed :: bool

section \<open>Preparation\<close>

definition validateRequired :: "Entity \<Rightarrow> vals \<Rightarrow> gerr option" where
  "validateRequired ent vs = first_err (\<lambda>col.
     (case mget vs col of
        None \<Rightarrow> Some (Errorf ''required column missing'')
      | Some v \<Rightarrow> err_seq
          [fail_if (v = VNil) (Errorf ''required column missing''),
           fail_if (v = VStr []) (Errorf ''required column is empty'')])) (Required (e_binding ent))"

definition prepare_values :: "golib \<Rightarrow> Entity \<Rightarrow> string \<Rightarrow> Command \<Rightarrow> gerr + vals" where
  "prepare_values lib ent tenantID cmd =
     (case ValuesByColumn (e_binding ent) (c_payload cmd) of
        Inl e \<Rightarrow> Inl e
      | Inr vs \<Rightarrow>
          (if (case mget vs ColumnTenant of Some (VStr v) \<Rightarrow> v \<noteq> [] \<and> v \<noteq> tenantID | _ \<Rightarrow> False)
           then Inl (Errorf ''payload tenant_id does not match context tenant'')
           else
             (case validateRequired ent vs of
                Some e \<Rightarrow> Inl e
              | None \<Rightarrow>
                  (let skipTypes = (c_skiptypes cmd \<or>
                         (case es_schema (e_spec ent) of None \<Rightarrow> False | Some s \<Rightarrow> ds_notypecheck s))
                   in case (if skipTypes then Inr vs else CoerceRow lib (e_binding ent) vs) of
                        Inl e \<Rightarrow> Inl e
                      | Inr ws \<Rightarrow>
                          (case es_validate (e_spec ent) of
                             None \<Rightarrow> Inr ws
                           | Some f \<Rightarrow>
                               (case f ws of
                                  Some e \<Rightarrow> Inl (WrapErr ''entity validation'' e)
                                | None \<Rightarrow> Inr ws))))))"

text \<open>Returns the prepared command and the mint counter (a create without an id mints one).\<close>

definition prepare ::
  "('s, 't) Executor \<Rightarrow> gctx \<Rightarrow> Command \<Rightarrow> nat \<Rightarrow> (gerr + preparedCommand) \<times> nat" where
  "prepare x ctx cmd n =
     (case Require ctx of
        Inl e \<Rightarrow> (Inl e, n)
      | Inr tenantID \<Rightarrow>
          (case Get (x_reg x) (c_entity cmd) of
             None \<Rightarrow> (Inl (err_new CodeInvalidInput ''Unknown entity type.'' [WithEntity (c_entity cmd) []]), n)
           | Some ent \<Rightarrow>
               (if es_kind (e_spec ent) \<noteq> KindAggregate
                then (Inl (Errorf ''the command plane only writes aggregates''), n)
                else if (case c_op cmd of OpOther _ \<Rightarrow> True | _ \<Rightarrow> False)
                then (Inl (Errorf ''unknown op''), n)
                else if c_op cmd \<noteq> OpCreate \<and> c_aggid cmd = []
                then (Inl (Errorf ''requires AggID''), n)
                else
                  (let mint = (c_op cmd = OpCreate \<and> c_aggid cmd = []);
                       n' = (if mint then Suc n else n);
                       p = \<lparr>pc_cmd = cmd, pc_entity = ent, pc_tenant = tenantID,
                            pc_scope = ScopeOrEmpty ctx,
                            pc_aggid = (if mint then x_newid x n else c_aggid cmd), pc_vals = None\<rparr>
                   in if c_op cmd = OpDelete
                      then (if c_payload cmd \<noteq> PNil
                            then (Inl (Errorf ''delete must not carry a payload''), n')
                            else (Inr p, n'))
                      else if c_payload cmd = PNil then (Inl (Errorf ''requires a payload''), n')
                      else
                        (case prepare_values (x_lib x) ent tenantID cmd of
                           Inl e \<Rightarrow> (Inl e, n')
                         | Inr vs \<Rightarrow> (Inr (p\<lparr>pc_vals := Some vs\<rparr>), n'))))))"

definition stampedValues :: "preparedCommand \<Rightarrow> int \<Rightarrow> vals option" where
  "stampedValues p version =
     (if c_op (pc_cmd p) = OpDelete then None
      else
        (let out = (case pc_vals p of None \<Rightarrow> [] | Some vs \<Rightarrow> vs);
             out = mput ColumnVersion (VInt KInt64 version)
                     (mput ColumnTenant (VStr (pc_tenant p)) (mput ColumnID (VStr (pc_aggid p)) out))
         in Some (if pc_scope p \<noteq> [] \<and> HasColumn (e_binding (pc_entity p)) ColumnScope
                  then mput ColumnScope (VStr (pc_scope p)) out else out)))"

definition checkVersion :: "preparedCommand \<Rightarrow> int \<Rightarrow> gerr option" where
  "checkVersion p current =
     (let name = es_name (e_spec (pc_entity p))
      in err_seq
        [(case c_op (pc_cmd p) of
            OpCreate \<Rightarrow> fail_if (current \<noteq> 0) (VersionConflictError name (pc_aggid p) 0 current)
          | OpUpdate \<Rightarrow> fail_if (current = 0) (NotFoundError name (pc_aggid p))
          | OpDelete \<Rightarrow> fail_if (current = 0) (NotFoundError name (pc_aggid p))
          | _ \<Rightarrow> None),
         (case c_expected (pc_cmd p) of
            None \<Rightarrow> None
          | Some v \<Rightarrow> fail_if (v \<noteq> current) (VersionConflictError name (pc_aggid p) v current))])"

definition resolveOp :: "Op \<Rightarrow> int \<Rightarrow> Op \<times> string" where
  "resolveOp op current =
     (if op = OpUpsert then (if current = 0 then (OpCreate, VerbCreated) else (OpUpdate, VerbUpdated))
      else (op, Verb op))"

definition newEnvelope ::
  "golib \<Rightarrow> preparedCommand \<Rightarrow> int \<Rightarrow> vals option \<Rightarrow> string \<Rightarrow> string \<Rightarrow> int \<Rightarrow> string \<Rightarrow> gerr + Envelope" where
  "newEnvelope lib p version vs verb newID clock traceparent =
     (case (case vs of
              None \<Rightarrow> Some (JObj [])
            | Some m \<Rightarrow> json_marshal (time_format lib) (VObj m)) of
        None \<Rightarrow> Inl (WrapErr ''marshal payload'' (Errorf ''json: unsupported value''))
      | Some payload \<Rightarrow>
          Inr \<lparr>ev_id = newID, ev_tenant = pc_tenant p, ev_scope = pc_scope p,
               ev_aggregate = es_name (e_spec (pc_entity p)), ev_aggid = pc_aggid p,
               ev_version = version, ev_type = EventType (es_name (e_spec (pc_entity p))) verb,
               ev_at = (clock, 0), ev_psv = 1, ev_payload = RawJson payload, ev_trace = traceparent\<rparr>)"

section \<open>Execution\<close>

fun run_hooks :: "(gctx \<Rightarrow> 't \<Rightarrow> Change \<Rightarrow> gerr + 't) list \<Rightarrow> gctx \<Rightarrow> 't \<Rightarrow> Change \<Rightarrow> gerr + 't" where
  "run_hooks [] ctx t c = Inr t"
| "run_hooks (h # hs) ctx t c =
     (case h ctx t c of Inl e \<Rightarrow> Inl (WrapErr ''lifecycle hook'' e) | Inr t' \<Rightarrow> run_hooks hs ctx t' c)"

definition stage ::
  "('s, 't) Executor \<Rightarrow> gctx \<Rightarrow> 't \<Rightarrow> preparedCommand \<Rightarrow> int \<Rightarrow> nat
     \<Rightarrow> (gerr + 't \<times> Result \<times> Change) \<times> nat" where
  "stage x ctx t p current n =
     (let next = inc64 current;
          (op, verb) = resolveOp (c_op (pc_cmd p)) current;
          vs = stampedValues p next
      in case tx_apply (x_store x) t ctx (pc_entity p) op (pc_aggid p) next vs of
           Inl e \<Rightarrow> (Inl e, n)
         | Inr t1 \<Rightarrow>
             (case newEnvelope (x_lib x) p next vs verb (x_newid x n) (x_now x n) (x_traceparent x ctx) of
                Inl e \<Rightarrow> (Inl e, n)
              | Inr env \<Rightarrow>
                  (case tx_append (x_store x) t1 ctx env of
                     Inl e \<Rightarrow> (Inl e, Suc n)
                   | Inr t2 \<Rightarrow>
                       (let change = \<lparr>ch_entity = pc_entity p, ch_op = op, ch_envelope = env\<rparr>
                        in case run_hooks (x_hooks x) ctx t2 change of
                             Inl e \<Rightarrow> (Inl e, Suc n)
                           | Inr t3 \<Rightarrow>
                               (Inr (t3, \<lparr>rs_aggid = pc_aggid p, rs_version = next, rs_eventid = ev_id env\<rparr>,
                                     change), Suc n)))))"

definition apply_cmd ::
  "('s, 't) Executor \<Rightarrow> gctx \<Rightarrow> 't \<Rightarrow> preparedCommand \<Rightarrow> nat
     \<Rightarrow> (gerr + 't \<times> Result \<times> Change) \<times> nat" where
  "apply_cmd x ctx t p n =
     (case (case tx_fence (x_store x) of None \<Rightarrow> Inr t | Some f \<Rightarrow> f t ctx (pc_entity p) (pc_aggid p)) of
        Inl e \<Rightarrow> (Inl e, n)
      | Inr t0 \<Rightarrow>
          (case tx_current (x_store x) t0 ctx (pc_entity p) (pc_aggid p) of
             Inl e \<Rightarrow> (Inl e, n)
           | Inr current \<Rightarrow>
               (case checkVersion p current of
                  Some e \<Rightarrow> (Inl e, n)
                | None \<Rightarrow> stage x ctx t0 p current n)))"

text \<open>The closure of \<^verbatim>\<open>ExecBatch\<close>: the prepared commands in order, stopping at an error.\<close>

fun apply_all ::
  "('s, 't) Executor \<Rightarrow> gctx \<Rightarrow> preparedCommand list \<Rightarrow> nat \<Rightarrow> 't
     \<Rightarrow> (gerr + 't \<times> (Result \<times> Change) list) \<times> nat" where
  "apply_all x ctx [] n t = (Inr (t, []), n)"
| "apply_all x ctx (p # ps) n t =
     (case apply_cmd x ctx t p n of
        (Inl e, n') \<Rightarrow> (Inl e, n')
      | (Inr (t', rc), n') \<Rightarrow>
          (case apply_all x ctx ps n' t' of
             (Inl e, n'') \<Rightarrow> (Inl e, n'')
           | (Inr (t'', rcs), n'') \<Rightarrow> (Inr (t'', rc # rcs), n'')))"

fun prepare_all ::
  "('s, 't) Executor \<Rightarrow> gctx \<Rightarrow> Command list \<Rightarrow> nat \<Rightarrow> (gerr + preparedCommand list) \<times> nat" where
  "prepare_all x ctx [] n = (Inr [], n)"
| "prepare_all x ctx (c # cs) n =
     (case prepare x ctx c n of
        (Inl e, n') \<Rightarrow> (Inl (WrapErr ''command'' e), n')
      | (Inr p, n') \<Rightarrow>
          (case prepare_all x ctx cs n' of
             (Inl e, n'') \<Rightarrow> (Inl e, n'')
           | (Inr ps, n'') \<Rightarrow> (Inr (p # ps), n'')))"

definition opName :: "Op \<Rightarrow> string" where
  "opName op = (case op of OpCreate \<Rightarrow> ''create'' | OpUpdate \<Rightarrow> ''update'' | OpDelete \<Rightarrow> ''delete''
     | OpUpsert \<Rightarrow> ''upsert'' | OpOther _ \<Rightarrow> ''unknown'')"

definition batchOp :: "Command list \<Rightarrow> string" where
  "batchOp cmds = (if \<exists>c \<in> set (tl cmds). c_op c \<noteq> c_op (hd cmds) then ''mixed'' else opName (c_op (hd cmds)))"

definition batchEntity :: "Command list \<Rightarrow> string" where
  "batchEntity cmds =
     (if \<exists>c \<in> set (tl cmds). c_entity c \<noteq> c_entity (hd cmds) then [] else c_entity (hd cmds))"

text \<open>
  What a batch does besides its result: the new store, the post-commit hooks it ran with
  the changes they received, the observation it recorded, and the mint counter.
\<close>

record 's outcome =
  oc_result :: "gerr + Result list"
  oc_store :: 's
  oc_postcommit :: "(string \<times> Change list) list"
  oc_observed :: "(string \<times> metric_result) list"
  oc_mint :: nat

definition ExecBatch :: "('s, 't) Executor \<Rightarrow> 's \<Rightarrow> gctx \<Rightarrow> Command list \<Rightarrow> nat \<Rightarrow> 's outcome" where
  "ExecBatch x s ctx cmds n =
     (if cmds = [] then
        \<lparr>oc_result = (case Require ctx of Inl e \<Rightarrow> Inl e | Inr _ \<Rightarrow> Inr []), oc_store = s,
         oc_postcommit = [], oc_observed = [], oc_mint = n\<rparr>
      else
        (let observe = (\<lambda>r. if x_observed x then [(batchOp cmds, r)] else [])
         in case Require ctx of
              Inl e \<Rightarrow> \<lparr>oc_result = Inl e, oc_store = s, oc_postcommit = [],
                        oc_observed = observe ResultInvalid, oc_mint = n\<rparr>
            | Inr _ \<Rightarrow>
                (case prepare_all x ctx cmds n of
                   (Inl e, n1) \<Rightarrow> \<lparr>oc_result = Inl e, oc_store = s, oc_postcommit = [],
                                   oc_observed = observe ResultInvalid, oc_mint = n1\<rparr>
                 | (Inr ps, n1) \<Rightarrow>
                     (case in_tenant_tx (x_store x) s ctx (apply_all x ctx ps) n1 of
                        (Inl e, s', n2) \<Rightarrow>
                          \<lparr>oc_result = Inl e, oc_store = s', oc_postcommit = [],
                           oc_observed = observe (Classify (Some e)), oc_mint = n2\<rparr>
                      | (Inr rcs, s', n2) \<Rightarrow>
                          \<lparr>oc_result = Inr (map fst rcs), oc_store = s',
                           oc_postcommit = map (\<lambda>h. (h, map snd rcs)) (x_postcommit x),
                           oc_observed = observe ResultOK, oc_mint = n2\<rparr>))))"

definition Exec :: "('s, 't) Executor \<Rightarrow> 's \<Rightarrow> gctx \<Rightarrow> Command \<Rightarrow> nat \<Rightarrow> (gerr + Result) \<times> 's" where
  "Exec x s ctx cmd n =
     (let o1 = ExecBatch x s ctx [cmd] n
      in (case oc_result o1 of Inl e \<Rightarrow> Inl e | Inr rs \<Rightarrow> Inr (hd rs), oc_store o1))"

section \<open>Facts about preparation\<close>

lemma stampedValues_None: "(stampedValues p v = None) = (c_op (pc_cmd p) = OpDelete)"
  by (simp add: stampedValues_def Let_def)

lemma stampedValues_columns:
  assumes "stampedValues p v = Some m"
  shows "mget m ColumnID = Some (VStr (pc_aggid p)) \<and> mget m ColumnTenant = Some (VStr (pc_tenant p))
    \<and> mget m ColumnVersion = Some (VInt KInt64 v)
    \<and> (pc_scope p \<noteq> [] \<and> HasColumn (e_binding (pc_entity p)) ColumnScope \<longrightarrow>
         mget m ColumnScope = Some (VStr (pc_scope p)))"
  using assms by (auto simp: stampedValues_def Let_def column_names split: if_splits)

lemma stampedValues_caller_columns:
  assumes "stampedValues p v = Some m" and "\<not> IsReservedColumn col" and "col \<noteq> ColumnScope"
  shows "mget m col = (case pc_vals p of None \<Rightarrow> None | Some vs \<Rightarrow> mget vs col)"
  using assms
  by (auto simp: stampedValues_def Let_def IsReservedColumn_def split: if_splits option.splits)

lemma resolveOp_delete: "(fst (resolveOp op cur) = OpDelete) = (op = OpDelete)"
  by (simp add: resolveOp_def)

lemma prepare_Inr:
  assumes "fst (prepare x ctx c n) = Inr p"
  shows "Require ctx = Inr (pc_tenant p) \<and> Get (x_reg x) (c_entity c) = Some (pc_entity p)
    \<and> es_kind (e_spec (pc_entity p)) = KindAggregate \<and> pc_cmd p = c \<and> pc_scope p = ScopeOrEmpty ctx
    \<and> (c_aggid c \<noteq> [] \<longrightarrow> pc_aggid p = c_aggid c)
    \<and> (c_op c \<noteq> OpDelete \<longrightarrow> (\<exists>vs. pc_vals p = Some vs
         \<and> prepare_values (x_lib x) (pc_entity p) (pc_tenant p) c = Inr vs))"
proof -
  obtain tid where tid: "Require ctx = Inr tid"
    using assms by (auto simp: prepare_def split: sum.splits)
  obtain ent where ent: "Get (x_reg x) (c_entity c) = Some ent"
    using assms tid by (auto simp: prepare_def split: option.splits)
  show ?thesis
    using assms unfolding prepare_def tid ent
    by (auto simp: Let_def tid ent split: if_splits sum.splits)
qed

lemma prepare_all_Inr:
  assumes "fst (prepare_all x ctx cs n) = Inr ps"
  shows "list_all2 (\<lambda>c p. \<exists>k. fst (prepare x ctx c k) = Inr p) cs ps"
  using assms
proof (induction cs arbitrary: n ps)
  case Nil
  then show ?case by simp
next
  case (Cons c cs)
  obtain r n' where p: "prepare x ctx c n = (r, n')" by fastforce
  with Cons.prems obtain q where r: "r = Inr q" by (auto split: sum.splits)
  obtain r2 n2 where ps: "prepare_all x ctx cs n' = (r2, n2)" by fastforce
  with Cons.prems p r obtain qs where "r2 = Inr qs" "ps = q # qs" by (auto split: sum.splits)
  then show ?case using Cons.IH [of n' qs] p r ps by (auto intro!: exI [of _ n])
qed

section \<open>The abstract write machine\<close>

text \<open>
  What the command plane promises, without stores, transactions or outboxes: the state maps
  an entity name and an aggregate id to a version and a row.
\<close>

type_synonym rowview = "string \<times> string \<Rightarrow> (int \<times> vals) option"

definition version_of :: "rowview \<Rightarrow> string \<times> string \<Rightarrow> int" where
  "version_of st k = (case st k of None \<Rightarrow> 0 | Some (v, m) \<Rightarrow> v)"

definition abs_key :: "preparedCommand \<Rightarrow> string \<times> string" where
  "abs_key p = (es_name (e_spec (pc_entity p)), pc_aggid p)"

definition abs_step :: "rowview \<Rightarrow> preparedCommand \<Rightarrow> gerr + rowview \<times> int" where
  "abs_step st p =
     (let cur = version_of st (abs_key p); next = inc64 cur
      in case checkVersion p cur of
           Some e \<Rightarrow> Inl e
         | None \<Rightarrow> Inr (st(abs_key p := map_option (Pair next) (stampedValues p next)), next))"

fun abs_run :: "rowview \<Rightarrow> preparedCommand list \<Rightarrow> gerr + rowview \<times> int list" where
  "abs_run st [] = Inr (st, [])"
| "abs_run st (p # ps) =
     (case abs_step st p of
        Inl e \<Rightarrow> Inl e
      | Inr (st', v) \<Rightarrow> (case abs_run st' ps of Inl e \<Rightarrow> Inl e | Inr (st'', vs) \<Rightarrow> Inr (st'', v # vs)))"

text \<open>The one event an applied command owes: identity, tenant, version, verb and after-image.\<close>

definition event_for :: "golib \<Rightarrow> preparedCommand \<Rightarrow> int \<Rightarrow> Envelope \<Rightarrow> bool" where
  "event_for lib p next env =
     (ev_tenant env = pc_tenant p \<and> ev_scope env = pc_scope p
      \<and> ev_aggregate env = es_name (e_spec (pc_entity p)) \<and> ev_aggid env = pc_aggid p
      \<and> ev_version env = next \<and> ev_psv env = 1
      \<and> (\<exists>verb. ev_type env = EventType (es_name (e_spec (pc_entity p))) verb
           \<and> (case c_op (pc_cmd p) of OpUpsert \<Rightarrow> verb \<in> {VerbCreated, VerbUpdated} | op \<Rightarrow> verb = Verb op))
      \<and> (\<exists>j. ev_payload env = RawJson j
           \<and> (case stampedValues p next of None \<Rightarrow> j = JObj []
              | Some m \<Rightarrow> json_marshal (time_format lib) (VObj m) = Some j)))"

lemma newEnvelope_event:
  assumes "newEnvelope lib p next (stampedValues p next) (snd (resolveOp (c_op (pc_cmd p)) cur)) i t tr = Inr env"
  shows "event_for lib p next env \<and> ev_id env = i"
proof -
  obtain j where j: "(case stampedValues p next of None \<Rightarrow> Some (JObj [])
      | Some m \<Rightarrow> json_marshal (time_format lib) (VObj m)) = Some j"
    using assms unfolding newEnvelope_def by (auto split: option.splits)
  have verb: "case c_op (pc_cmd p) of
      OpUpsert \<Rightarrow> snd (resolveOp (c_op (pc_cmd p)) cur) \<in> {VerbCreated, VerbUpdated}
    | op \<Rightarrow> snd (resolveOp (c_op (pc_cmd p)) cur) = Verb op"
    by (auto simp: resolveOp_def split: Op.splits)
  from assms have env: "ev_tenant env = pc_tenant p" "ev_scope env = pc_scope p"
    "ev_aggregate env = es_name (e_spec (pc_entity p))" "ev_aggid env = pc_aggid p" "ev_version env = next"
    "ev_psv env = 1" "ev_id env = i" "ev_payload env = RawJson j"
    "ev_type env = EventType (es_name (e_spec (pc_entity p))) (snd (resolveOp (c_op (pc_cmd p)) cur))"
    unfolding newEnvelope_def j by auto
  have "case stampedValues p next of None \<Rightarrow> j = JObj []
      | Some m \<Rightarrow> json_marshal (time_format lib) (VObj m) = Some j"
    using j by (auto split: option.splits)
  with env verb show ?thesis unfolding event_for_def by blast
qed

section \<open>The contract of a transactional store\<close>

text \<open>
  \<open>view\<close> and \<open>out\<close> are what an open transaction sees and has appended, \<open>same\<close> relates
  the states of one transaction; \<open>rows\<close> and \<open>outbox\<close> are what the store has committed.  A
  transaction starts from the caller's tenant alone, commits whole or leaves the store as it
  was, and touches no other tenant.
\<close>

locale tx_store =
  fixes ops :: "('s, 't) storeops"
    and same :: "'t \<Rightarrow> 't \<Rightarrow> bool" and view :: "'t \<Rightarrow> rowview" and out :: "'t \<Rightarrow> Envelope list"
    and rows :: "'s \<Rightarrow> string \<Rightarrow> rowview" and outbox :: "'s \<Rightarrow> Envelope list"
  assumes same_refl: "same t t"
    and same_trans: "same t t' \<Longrightarrow> same t' t'' \<Longrightarrow> same t t''"
    and fence: "tx_fence ops = Some f \<Longrightarrow> f t ctx e i = Inr t' \<Longrightarrow> same t t' \<and> view t' = view t \<and> out t' = out t"
    and current: "tx_current ops t ctx e i = Inr v \<Longrightarrow> v = version_of (view t) (es_name (e_spec e), i)"
    and change: "tx_apply ops t ctx e op i v vs = Inr t' \<Longrightarrow> (op = OpDelete) = (vs = None) \<Longrightarrow>
        same t t' \<and> view t' = (view t)((es_name (e_spec e), i) := map_option (Pair v) vs) \<and> out t' = out t"
    and append: "tx_append ops t ctx env = Inr t' \<Longrightarrow> same t t' \<and> view t' = view t \<and> out t' = out t @ [env]"
    and commits: "in_tenant_tx ops s ctx body n = (Inr rcs, s', n') \<Longrightarrow>
        \<forall>k t t' r. fst (body k t) = Inr (t', r) \<longrightarrow> same t t' \<Longrightarrow>
        \<exists>tid k t t'. Require ctx = Inr tid \<and> view t = rows s tid \<and> out t = []
          \<and> fst (body k t) = Inr (t', rcs) \<and> rows s' = (rows s)(tid := view t') \<and> outbox s' = outbox s @ out t'"
    and rollback: "in_tenant_tx ops s ctx body n = (Inl err, s', n') \<Longrightarrow> rows s' = rows s \<and> outbox s' = outbox s"

text \<open>A lifecycle hook that keeps to its own tables.\<close>

definition hooks_ok ::
  "('t \<Rightarrow> 't \<Rightarrow> bool) \<Rightarrow> ('t \<Rightarrow> rowview) \<Rightarrow> ('t \<Rightarrow> Envelope list)
     \<Rightarrow> (gctx \<Rightarrow> 't \<Rightarrow> Change \<Rightarrow> gerr + 't) list \<Rightarrow> bool" where
  "hooks_ok same view out hs =
     (\<forall>h \<in> set hs. \<forall>ctx t c t'. h ctx t c = Inr t' \<longrightarrow> same t t' \<and> view t' = view t \<and> out t' = out t)"

context tx_store
begin

lemma run_hooks_ok:
  "hooks_ok same view out hs \<Longrightarrow> run_hooks hs ctx t c = Inr t' \<Longrightarrow> same t t' \<and> view t' = view t \<and> out t' = out t"
proof (induction hs arbitrary: t)
  case Nil
  then show ?case by (simp add: same_refl)
next
  case (Cons h hs)
  then obtain t1 where t1: "h ctx t c = Inr t1" "run_hooks hs ctx t1 c = Inr t'"
    by (auto split: sum.splits)
  moreover from Cons.prems t1 have "same t t1" "view t1 = view t" "out t1 = out t" "hooks_ok same view out hs"
    by (auto simp: hooks_ok_def)
  ultimately show ?case using Cons.IH [of t1] same_trans by simp
qed

lemma stage_refines:
  assumes x: "x_store x = ops" "hooks_ok same view out (x_hooks x)"
    and cur: "cur = version_of (view t) (abs_key p)" "checkVersion p cur = None"
    and st: "fst (stage x ctx t p cur n) = Inr (t', r, c)"
  shows "same t t' \<and> abs_step (view t) p = Inr (view t', rs_version r) \<and> out t' = out t @ [ch_envelope c]
    \<and> event_for (x_lib x) p (rs_version r) (ch_envelope c)
    \<and> rs_aggid r = pc_aggid p \<and> rs_eventid r = ev_id (ch_envelope c)"
proof -
  let ?next = "inc64 cur" and ?vs = "stampedValues p (inc64 cur)"
  obtain op verb where ov: "resolveOp (c_op (pc_cmd p)) cur = (op, verb)" by fastforce
  from st obtain t1 where t1: "tx_apply ops t ctx (pc_entity p) op (pc_aggid p) ?next ?vs = Inr t1"
    by (auto simp: stage_def Let_def ov x(1) split: sum.splits)
  with st obtain env where env: "newEnvelope (x_lib x) p ?next ?vs verb (x_newid x n) (x_now x n) (x_traceparent x ctx) = Inr env"
    by (auto simp: stage_def Let_def ov x(1) split: sum.splits)
  with st t1 obtain t2 where t2: "tx_append ops t1 ctx env = Inr t2"
    by (auto simp: stage_def Let_def ov x(1) split: sum.splits)
  define ch where "ch = \<lparr>ch_entity = pc_entity p, ch_op = op, ch_envelope = env\<rparr>"
  with st t1 env t2 have t3: "run_hooks (x_hooks x) ctx t2 ch = Inr t'" and c: "c = ch"
    and r: "r = \<lparr>rs_aggid = pc_aggid p, rs_version = ?next, rs_eventid = ev_id env\<rparr>"
    by (auto simp: stage_def Let_def ov x(1) split: sum.splits)
  have "(op = OpDelete) = (?vs = None)"
    using ov resolveOp_delete [of "c_op (pc_cmd p)" cur] by (simp add: stampedValues_None)
  note steps = change [OF t1 this] append [OF t2] run_hooks_ok [OF x(2) t3]
  then have "same t t'" using same_trans by blast
  moreover have "view t' = (view t)(abs_key p := map_option (Pair ?next) ?vs)" "out t' = out t @ [env]"
    using steps by (simp_all add: abs_key_def)
  moreover have "event_for (x_lib x) p ?next env"
    using newEnvelope_event [of "x_lib x" p ?next cur "x_newid x n"] env ov by simp
  ultimately show ?thesis
    using cur by (simp add: abs_step_def Let_def c ch_def r)
qed

lemma apply_cmd_refines:
  assumes x: "x_store x = ops" "hooks_ok same view out (x_hooks x)"
    and st: "fst (apply_cmd x ctx t p n) = Inr (t', r, c)"
  shows "same t t' \<and> abs_step (view t) p = Inr (view t', rs_version r) \<and> out t' = out t @ [ch_envelope c]
    \<and> event_for (x_lib x) p (rs_version r) (ch_envelope c)
    \<and> rs_aggid r = pc_aggid p \<and> rs_eventid r = ev_id (ch_envelope c)"
proof -
  from st obtain t0 where t0: "(case tx_fence ops of None \<Rightarrow> Inr t | Some f \<Rightarrow> f t ctx (pc_entity p) (pc_aggid p)) = Inr t0"
    by (auto simp: apply_cmd_def x(1) split: sum.splits option.splits)
  then have same: "same t t0" "view t0 = view t" "out t0 = out t"
    using fence same_refl by (auto split: option.splits)
  from st t0 obtain cur where cur: "tx_current ops t0 ctx (pc_entity p) (pc_aggid p) = Inr cur"
    by (auto simp: apply_cmd_def x(1) split: sum.splits)
  with st t0 have "checkVersion p cur = None" "fst (stage x ctx t0 p cur n) = Inr (t', r, c)"
    by (auto simp: apply_cmd_def x(1) split: option.splits)
  from stage_refines [OF x _ this] current [OF cur] same same_trans show ?thesis
    by (simp add: abs_key_def)
qed

lemma apply_all_refines:
  assumes x: "x_store x = ops" "hooks_ok same view out (x_hooks x)"
    and st: "fst (apply_all x ctx ps n t) = Inr (t', rcs)"
  shows "same t t' \<and> abs_run (view t) ps = Inr (view t', map (rs_version \<circ> fst) rcs)
    \<and> out t' = out t @ map (ch_envelope \<circ> snd) rcs
    \<and> list_all2 (\<lambda>p (r, c). event_for (x_lib x) p (rs_version r) (ch_envelope c)
         \<and> rs_aggid r = pc_aggid p \<and> rs_eventid r = ev_id (ch_envelope c)) ps rcs"
  using st
proof (induction ps arbitrary: n t rcs)
  case Nil
  then show ?case by (simp add: same_refl)
next
  case (Cons p ps)
  obtain a n1 where a: "apply_cmd x ctx t p n = (a, n1)" by fastforce
  with Cons.prems obtain t1 r c where a1: "a = Inr (t1, r, c)" by (auto split: sum.splits)
  obtain b n2 where b: "apply_all x ctx ps n1 t1 = (b, n2)" by fastforce
  with Cons.prems a a1 obtain rcs1 where b1: "b = Inr (t', rcs1)" "rcs = (r, c) # rcs1"
    by (auto split: sum.splits)
  from apply_cmd_refines [OF x, of ctx t p n t1 r c] a a1
  have one: "same t t1" "abs_step (view t) p = Inr (view t1, rs_version r)" "out t1 = out t @ [ch_envelope c]"
    "event_for (x_lib x) p (rs_version r) (ch_envelope c) \<and> rs_aggid r = pc_aggid p
      \<and> rs_eventid r = ev_id (ch_envelope c)" by simp_all
  moreover have "same t t'" using Cons.IH [of n1 t1 rcs1] b b1 one(1) same_trans by auto
  ultimately show ?case using Cons.IH [of n1 t1 rcs1] b b1 by simp
qed

lemma ExecBatch_commit:
  assumes x: "x_store x = ops" "hooks_ok same view out (x_hooks x)"
    and ok: "oc_result (ExecBatch x s ctx cmds n) = Inr rs" "cmds \<noteq> []"
  shows "\<exists>tid ps st' chs. Require ctx = Inr tid \<and> fst (prepare_all x ctx cmds n) = Inr ps
    \<and> abs_run (rows s tid) ps = Inr (st', map rs_version rs)
    \<and> rows (oc_store (ExecBatch x s ctx cmds n)) = (rows s)(tid := st')
    \<and> outbox (oc_store (ExecBatch x s ctx cmds n)) = outbox s @ map ch_envelope chs
    \<and> oc_postcommit (ExecBatch x s ctx cmds n) = map (\<lambda>h. (h, chs)) (x_postcommit x)
    \<and> list_all2 (\<lambda>p (r, c). event_for (x_lib x) p (rs_version r) (ch_envelope c)
         \<and> rs_aggid r = pc_aggid p \<and> rs_eventid r = ev_id (ch_envelope c)) ps (zip rs chs)
    \<and> length rs = length ps \<and> length chs = length ps"
proof -
  obtain tid where tid: "Require ctx = Inr tid"
    using ok by (auto simp: ExecBatch_def Let_def split: sum.splits)
  obtain pr n1 where pr: "prepare_all x ctx cmds n = (pr, n1)" by fastforce
  with ok tid obtain ps where ps: "pr = Inr ps" by (auto simp: ExecBatch_def Let_def split: sum.splits)
  obtain tr s' n2 where tr: "in_tenant_tx ops s ctx (apply_all x ctx ps) n1 = (tr, s', n2)"
    by (metis prod_cases3)
  with ok tid pr ps x(1) obtain rcs where rcs: "tr = Inr rcs"
    by (auto simp: ExecBatch_def Let_def split: sum.splits)
  have res: "rs = map fst rcs" "oc_store (ExecBatch x s ctx cmds n) = s'"
    "oc_postcommit (ExecBatch x s ctx cmds n) = map (\<lambda>h. (h, map snd rcs)) (x_postcommit x)"
    using ok tid pr ps x(1) tr rcs by (auto simp: ExecBatch_def Let_def simp del: Require_Inr)
  have keep: "\<forall>k t t' r. fst (apply_all x ctx ps k t) = Inr (t', r) \<longrightarrow> same t t'"
    using apply_all_refines [OF x] by blast
  from commits [OF tr [unfolded rcs] keep] tid obtain k t t' where t: "view t = rows s tid" "out t = []"
    "fst (apply_all x ctx ps k t) = Inr (t', rcs)" "rows s' = (rows s)(tid := view t')"
    "outbox s' = outbox s @ out t'" by auto
  from apply_all_refines [OF x t(3)] t res tid pr ps show ?thesis
    by (intro exI [of _ tid] exI [of _ ps] exI [of _ "view t'"] exI [of _ "map snd rcs"])
      (auto simp: zip_map_fst_snd dest: list_all2_lengthD)
qed

lemma ExecBatch_abort:
  assumes "x_store x = ops" and "oc_result (ExecBatch x s ctx cmds n) = Inl e"
  shows "rows (oc_store (ExecBatch x s ctx cmds n)) = rows s
    \<and> outbox (oc_store (ExecBatch x s ctx cmds n)) = outbox s
    \<and> oc_postcommit (ExecBatch x s ctx cmds n) = []"
  using assms rollback
  by (auto simp: ExecBatch_def Let_def simp del: Require_Inr split: if_splits sum.splits prod.splits)

end

end
