(* ===== verification/FakeStore.thy ===== *)
theory FakeStore
  imports Command
begin

text \<open>
  The in-memory store of \<^verbatim>\<open>core/fabriqtest/fakes.go\<close> (\<^verbatim>\<open>memdb\<close>,
  \<^verbatim>\<open>FakeStore\<close>, \<^verbatim>\<open>fakeTx\<close>) as an implementation of the transaction contract
  \<^verbatim>\<open>tx_store\<close>, and the properties of the command plane on it.
\<close>

section \<open>The store\<close>

record memRow =
  mr_vals :: vals
  mr_version :: int
  mr_scope :: string

type_synonym memrows = "memRow gomap gomap gomap"

definition memdb_clone :: "memrows \<Rightarrow> memrows" where
  "memdb_clone rs = map (\<lambda>(t, es). (t, map (\<lambda>(e, rows). (e, map (\<lambda>(i, r). (i, r)) rows)) es)) rs"

text \<open>The injected outbox failure is the error it returns, if any.\<close>

record FakeStore =
  fs_rows :: memrows
  fs_outbox :: "Envelope list"
  fs_fail :: "gerr option"

record fakeTx =
  ft_tenant :: string
  ft_stage :: memrows
  ft_outbox :: "Envelope list"
  ft_fail :: "gerr option"

definition Outbox :: "FakeStore \<Rightarrow> Envelope list" where
  "Outbox s = fs_outbox s"

definition FailOnOutbox :: "FakeStore \<Rightarrow> gerr option \<Rightarrow> FakeStore" where
  "FailOnOutbox s f = s\<lparr>fs_fail := f\<rparr>"

definition stage_row :: "memrows \<Rightarrow> string \<Rightarrow> string \<Rightarrow> string \<Rightarrow> memRow option" where
  "stage_row st tid name i = mget (mget_or [] (mget_or [] st tid) name) i"

definition fakeTx_CurrentVersion :: "fakeTx \<Rightarrow> gctx \<Rightarrow> Entity \<Rightarrow> string \<Rightarrow> gerr + int" where
  "fakeTx_CurrentVersion t ctx ent aggID =
     Inr (case stage_row (ft_stage t) (ft_tenant t) (es_name (e_spec ent)) aggID of
            None \<Rightarrow> 0 | Some r \<Rightarrow> mr_version r)"

definition fakeTx_ApplyChange ::
  "fakeTx \<Rightarrow> gctx \<Rightarrow> Entity \<Rightarrow> Op \<Rightarrow> string \<Rightarrow> int \<Rightarrow> vals option \<Rightarrow> gerr + fakeTx" where
  "fakeTx_ApplyChange t ctx ent op aggID version vs =
     (let entities = mget_or [] (ft_stage t) (ft_tenant t);
          rows = mget_or [] entities (es_name (e_spec ent));
          rows' = (if op = OpDelete then mdel aggID rows
                   else mput aggID \<lparr>mr_vals = (case vs of None \<Rightarrow> [] | Some m \<Rightarrow> m),
                                    mr_version = version, mr_scope = ScopeOrEmpty ctx\<rparr> rows)
      in Inr (t\<lparr>ft_stage := mput (ft_tenant t) (mput (es_name (e_spec ent)) rows' entities) (ft_stage t)\<rparr>))"

definition fakeTx_AppendOutbox :: "fakeTx \<Rightarrow> gctx \<Rightarrow> Envelope \<Rightarrow> gerr + fakeTx" where
  "fakeTx_AppendOutbox t ctx env =
     (case ft_fail t of Some e \<Rightarrow> Inl e | None \<Rightarrow> Inr (t\<lparr>ft_outbox := ft_outbox t @ [env]\<rparr>))"

definition fakeTx_Exec :: "fakeTx \<Rightarrow> gctx \<Rightarrow> string \<Rightarrow> gval list \<Rightarrow> gerr option" where
  "fakeTx_Exec t ctx sql args =
     Some (WrapErr ''FakeStore.Tx does not execute raw SQL'' (Sentinel ErrRawSQLUnsupported))"

definition FakeStore_InTenantTx ::
  "FakeStore \<Rightarrow> gctx \<Rightarrow> (nat \<Rightarrow> fakeTx \<Rightarrow> (gerr + fakeTx \<times> (Result \<times> Change) list) \<times> nat) \<Rightarrow> nat
     \<Rightarrow> (gerr + (Result \<times> Change) list) \<times> FakeStore \<times> nat" where
  "FakeStore_InTenantTx s ctx body n =
     (case Require ctx of
        Inl e \<Rightarrow> (Inl e, s, n)
      | Inr tid \<Rightarrow>
          (case body n \<lparr>ft_tenant = tid, ft_stage = memdb_clone (fs_rows s), ft_outbox = [],
                        ft_fail = fs_fail s\<rparr> of
             (Inl e, n') \<Rightarrow> (Inl e, s, n')
           | (Inr (t, rcs), n') \<Rightarrow>
               (Inr rcs, s\<lparr>fs_rows := ft_stage t, fs_outbox := fs_outbox s @ ft_outbox t\<rparr>, n')))"

definition fake_ops :: "(FakeStore, fakeTx) storeops" where
  "fake_ops = \<lparr>tx_fence = None, tx_current = fakeTx_CurrentVersion, tx_apply = fakeTx_ApplyChange,
     tx_append = fakeTx_AppendOutbox, in_tenant_tx = FakeStore_InTenantTx\<rparr>"

section \<open>It keeps the contract\<close>

definition rows_view :: "memrows \<Rightarrow> string \<Rightarrow> rowview" where
  "rows_view st tid k = map_option (\<lambda>r. (mr_version r, mr_vals r)) (stage_row st tid (fst k) (snd k))"

definition tx_view :: "fakeTx \<Rightarrow> rowview" where
  "tx_view t = rows_view (ft_stage t) (ft_tenant t)"

definition same_tx :: "fakeTx \<Rightarrow> fakeTx \<Rightarrow> bool" where
  "same_tx t t' = (ft_tenant t' = ft_tenant t
     \<and> (\<forall>tid. tid \<noteq> ft_tenant t \<longrightarrow> mget (ft_stage t') tid = mget (ft_stage t) tid))"

lemma memdb_clone_id [simp]: "memdb_clone rs = rs"
  by (simp add: memdb_clone_def split_def)

lemma fake_change_view:
  assumes "fakeTx_ApplyChange t ctx e op i v vs = Inr t'" and "(op = OpDelete) = (vs = None)"
  shows "tx_view t' = (tx_view t)((es_name (e_spec e), i) := map_option (Pair v) vs)"
proof
  fix k
  show "tx_view t' k = ((tx_view t)((es_name (e_spec e), i) := map_option (Pair v) vs)) k"
    using assms
    by (cases k) (auto simp: fakeTx_ApplyChange_def Let_def tx_view_def rows_view_def stage_row_def
        split: if_splits option.splits)
qed

interpretation fake: tx_store fake_ops same_tx tx_view ft_outbox "\<lambda>s. rows_view (fs_rows s)" fs_outbox
proof unfold_locales
  show "v = version_of (tx_view t) (es_name (e_spec e), i)"
    if "tx_current fake_ops t ctx e i = Inr v" for t ctx e i v
    using that by (auto simp: fake_ops_def fakeTx_CurrentVersion_def version_of_def tx_view_def
        rows_view_def split: option.splits)
  show "same_tx t t' \<and> tx_view t' = (tx_view t)((es_name (e_spec e), i) := map_option (Pair v) vs)
      \<and> ft_outbox t' = ft_outbox t"
    if "tx_apply fake_ops t ctx e op i v vs = Inr t'" "(op = OpDelete) = (vs = None)" for t ctx e op i v vs t'
    using that fake_change_view [of t ctx e op i v vs t']
    by (auto simp: fake_ops_def fakeTx_ApplyChange_def Let_def same_tx_def)
  show "\<exists>tid k t t'. Require ctx = Inr tid \<and> tx_view t = rows_view (fs_rows s) tid \<and> ft_outbox t = []
      \<and> fst (body k t) = Inr (t', rcs)
      \<and> (\<lambda>tid. rows_view (fs_rows s') tid) = (\<lambda>tid. rows_view (fs_rows s) tid)(tid := tx_view t')
      \<and> fs_outbox s' = fs_outbox s @ ft_outbox t'"
    if tx: "in_tenant_tx fake_ops s ctx body n = (Inr rcs, s', n')"
      and keep: "\<forall>k t t' r. fst (body k t) = Inr (t', r) \<longrightarrow> same_tx t t'" for s ctx body n rcs s' n'
  proof -
    obtain tid where tid: "Require ctx = Inr tid"
      using tx by (auto simp: fake_ops_def FakeStore_InTenantTx_def split: sum.splits)
    define t where "t = \<lparr>ft_tenant = tid, ft_stage = fs_rows s, ft_outbox = [], ft_fail = fs_fail s\<rparr>"
    obtain b n1 where b: "body n t = (b, n1)" by fastforce
    with tx tid obtain t' where t': "b = Inr (t', rcs)"
      and s': "s' = s\<lparr>fs_rows := ft_stage t', fs_outbox := fs_outbox s @ ft_outbox t'\<rparr>"
      by (auto simp: fake_ops_def FakeStore_InTenantTx_def t_def simp del: Require_Inr split: sum.splits)
    from keep [rule_format, of n t t' rcs] b t' have same: "same_tx t t'" by simp
    have "rows_view (ft_stage t') = (rows_view (fs_rows s))(tid := tx_view t')"
      using same by (auto simp: fun_eq_iff same_tx_def t_def tx_view_def rows_view_def stage_row_def mget_or_def)
    with tid b t' s' show ?thesis
      by (intro exI [of _ tid] exI [of _ n] exI [of _ t] exI [of _ t']) (simp add: t_def tx_view_def)
  qed
  show "(\<lambda>tid. rows_view (fs_rows s') tid) = (\<lambda>tid. rows_view (fs_rows s) tid) \<and> fs_outbox s' = fs_outbox s"
    if "in_tenant_tx fake_ops s ctx body n = (Inl err, s', n')" for s ctx body n err s' n'
    using that by (auto simp: fake_ops_def FakeStore_InTenantTx_def split: sum.splits prod.splits)
qed (auto simp: same_tx_def fake_ops_def fakeTx_AppendOutbox_def tx_view_def split: option.splits)

section \<open>Progress\<close>

text \<open>A prepared command whose row has a JSON text (no NaN or infinity in it).\<close>

definition marshalable :: "golib \<Rightarrow> preparedCommand \<Rightarrow> bool" where
  "marshalable lib p =
     (\<forall>v. case stampedValues p v of None \<Rightarrow> True
        | Some m \<Rightarrow> json_marshal (time_format lib) (VObj m) \<noteq> None)"

lemma newEnvelope_marshalable:
  "marshalable lib p \<Longrightarrow> \<exists>env. newEnvelope lib p v (stampedValues p v) verb i t tr = Inr env"
proof -
  assume "marshalable lib p"
  then have "(case stampedValues p v of None \<Rightarrow> Some (JObj [])
      | Some m \<Rightarrow> json_marshal (time_format lib) (VObj m)) \<noteq> None"
    unfolding marshalable_def by (auto split: option.splits)
  then show ?thesis unfolding newEnvelope_def by (auto split: option.splits)
qed

lemma fake_step_progress:
  assumes x: "x_store x = fake_ops" "x_hooks x = []" and "ft_fail t = None" and "marshalable (x_lib x) p"
  shows "case abs_step (tx_view t) p of
      Inl e \<Rightarrow> fst (apply_cmd x ctx t p n) = Inl e
    | Inr _ \<Rightarrow> \<exists>t' r c. fst (apply_cmd x ctx t p n) = Inr (t', r, c) \<and> ft_fail t' = None"
proof -
  let ?cur = "version_of (tx_view t) (abs_key p)"
  have cur: "tx_current fake_ops t ctx (pc_entity p) (pc_aggid p) = Inr ?cur"
    by (auto simp: fake_ops_def fakeTx_CurrentVersion_def version_of_def tx_view_def rows_view_def
        abs_key_def split: option.splits)
  obtain op verb where ov: "resolveOp (c_op (pc_cmd p)) ?cur = (op, verb)" by fastforce
  obtain env where env: "newEnvelope (x_lib x) p (inc64 ?cur) (stampedValues p (inc64 ?cur)) verb
      (x_newid x n) (x_now x n) (x_traceparent x ctx) = Inr env"
    using newEnvelope_marshalable [OF assms(4)] by blast
  show ?thesis
  proof (cases "checkVersion p ?cur")
    case None
    have "\<exists>t' r c. fst (stage x ctx t p ?cur n) = Inr (t', r, c) \<and> ft_fail t' = None"
      using x assms(3) env ov
      by (simp add: stage_def Let_def fake_ops_def fakeTx_ApplyChange_def fakeTx_AppendOutbox_def)
    moreover have "fst (apply_cmd x ctx t p n) = fst (stage x ctx t p ?cur n)"
      using cur None x by (simp add: apply_cmd_def fake_ops_def)
    ultimately show ?thesis using None by (simp add: abs_step_def Let_def)
  next
    case (Some e)
    then have "fst (apply_cmd x ctx t p n) = Inl e"
      using cur x by (simp add: apply_cmd_def fake_ops_def)
    with Some show ?thesis by (simp add: abs_step_def Let_def)
  qed
qed

lemma fake_run_progress:
  assumes x: "x_store x = fake_ops" "x_hooks x = []" and "ft_fail t = None"
    and "\<forall>p \<in> set ps. marshalable (x_lib x) p"
  shows "case abs_run (tx_view t) ps of
      Inl e \<Rightarrow> fst (apply_all x ctx ps n t) = Inl e
    | Inr _ \<Rightarrow> \<exists>t' rcs. fst (apply_all x ctx ps n t) = Inr (t', rcs)"
  using assms(3,4)
proof (induction ps arbitrary: n t)
  case Nil
  then show ?case by simp
next
  case (Cons p ps)
  have hooks: "hooks_ok same_tx tx_view ft_outbox (x_hooks x)" by (simp add: x(2) hooks_ok_def)
  have prog: "case abs_step (tx_view t) p of
      Inl e \<Rightarrow> fst (apply_cmd x ctx t p n) = Inl e
    | Inr _ \<Rightarrow> \<exists>t' r c. fst (apply_cmd x ctx t p n) = Inr (t', r, c) \<and> ft_fail t' = None"
    using fake_step_progress [OF x Cons.prems(1)] Cons.prems(2) by simp
  obtain a n1 where a: "apply_cmd x ctx t p n = (a, n1)" by fastforce
  show ?case
  proof (cases "abs_step (tx_view t) p")
    case (Inl e)
    with prog a show ?thesis by simp
  next
    case (Inr sv)
    with prog a obtain t1 r c where a1: "a = Inr (t1, r, c)" "ft_fail t1 = None" by auto
    have "abs_step (tx_view t) p = Inr (tx_view t1, rs_version r)"
      using fake.apply_cmd_refines [OF x(1) hooks, of ctx t p n t1 r c] a a1 by simp
    moreover have "case abs_run (tx_view t1) ps of
        Inl e \<Rightarrow> fst (apply_all x ctx ps n1 t1) = Inl e
      | Inr _ \<Rightarrow> \<exists>t' rcs. fst (apply_all x ctx ps n1 t1) = Inr (t', rcs)"
      using Cons.IH [OF a1(2)] Cons.prems(2) by simp
    ultimately show ?thesis
      using a a1 by (cases "apply_all x ctx ps n1 t1") (auto split: sum.splits)
  qed
qed

lemma ExecBatch_machine:
  assumes x: "x_store x = fake_ops" "x_hooks x = []" and "fs_fail s = None"
    and "cmds \<noteq> []" and tid: "Require ctx = Inr tid"
    and ps: "fst (prepare_all x ctx cmds n) = Inr ps" and m: "\<forall>p \<in> set ps. marshalable (x_lib x) p"
  shows "case abs_run (rows_view (fs_rows s) tid) ps of
      Inl e \<Rightarrow> oc_result (ExecBatch x s ctx cmds n) = Inl e \<and> oc_store (ExecBatch x s ctx cmds n) = s
    | Inr (st', vs) \<Rightarrow>
        \<exists>rs. oc_result (ExecBatch x s ctx cmds n) = Inr rs \<and> map rs_version rs = vs
          \<and> rows_view (fs_rows (oc_store (ExecBatch x s ctx cmds n))) = (rows_view (fs_rows s))(tid := st')"
proof -
  have hooks: "hooks_ok same_tx tx_view ft_outbox (x_hooks x)" by (simp add: x(2) hooks_ok_def)
  obtain n1 where n1: "prepare_all x ctx cmds n = (Inr ps, n1)" using ps by (cases "prepare_all x ctx cmds n") auto
  define t where "t = \<lparr>ft_tenant = tid, ft_stage = fs_rows s, ft_outbox = [], ft_fail = fs_fail s\<rparr>"
  have view: "tx_view t = rows_view (fs_rows s) tid" by (simp add: t_def tx_view_def)
  have prog: "case abs_run (tx_view t) ps of
      Inl e \<Rightarrow> fst (apply_all x ctx ps n1 t) = Inl e
    | Inr _ \<Rightarrow> \<exists>t' rcs. fst (apply_all x ctx ps n1 t) = Inr (t', rcs)"
    using fake_run_progress [OF x _ m, of t] assms(3) by (simp add: t_def)
  obtain b n2 where b: "apply_all x ctx ps n1 t = (b, n2)" by fastforce
  have tx: "in_tenant_tx (x_store x) s ctx (apply_all x ctx ps) n1 =
      (case b of Inl e \<Rightarrow> (Inl e, s, n2)
       | Inr (t', rcs) \<Rightarrow> (Inr rcs, s\<lparr>fs_rows := ft_stage t', fs_outbox := fs_outbox s @ ft_outbox t'\<rparr>, n2))"
    using x(1) tid b by (simp add: fake_ops_def FakeStore_InTenantTx_def t_def del: Require_Inr split: sum.splits)
  show ?thesis
  proof (cases "abs_run (rows_view (fs_rows s) tid) ps")
    case (Inl e)
    with prog view b have "b = Inl e" by simp
    with Inl tx n1 tid assms(4) show ?thesis by (simp add: ExecBatch_def Let_def del: Require_Inr)
  next
    case (Inr sv)
    with prog view b obtain t' rcs where "b = Inr (t', rcs)" by auto
    with tx n1 tid assms(4) have ok: "oc_result (ExecBatch x s ctx cmds n) = Inr (map fst rcs)"
      by (simp add: ExecBatch_def Let_def del: Require_Inr)
    from fake.ExecBatch_commit [OF x(1) hooks ok assms(4)] ps tid Inr ok show ?thesis by fastforce
  qed
qed

section \<open>Rows carry their own coordinates\<close>

text \<open>Every stored row is stamped with the tenant, the id and the version it is stored under.\<close>

definition row_stamped :: "string \<Rightarrow> string \<times> string \<Rightarrow> (int \<times> vals) option \<Rightarrow> bool" where
  "row_stamped tid k row =
     (\<forall>v m. row = Some (v, m) \<longrightarrow> mget m ColumnTenant = Some (VStr tid)
        \<and> mget m ColumnID = Some (VStr (snd k)) \<and> mget m ColumnVersion = Some (VInt KInt64 v))"

definition store_stamped :: "FakeStore \<Rightarrow> bool" where
  "store_stamped s = (\<forall>tid k. row_stamped tid k (rows_view (fs_rows s) tid k))"

lemma abs_step_stamped:
  assumes "abs_step st p = Inr (st', v)" and "pc_tenant p = tid" and "\<forall>k. row_stamped tid k (st k)"
  shows "\<forall>k. row_stamped tid k (st' k)"
proof
  fix k
  from assms(1) have st': "st' = st(abs_key p := map_option (Pair v) (stampedValues p v))"
    by (auto simp: abs_step_def Let_def split: option.splits)
  show "row_stamped tid k (st' k)"
  proof (cases "k = abs_key p")
    case True
    then show ?thesis
      using stampedValues_columns [of p v] assms(2)
      by (auto simp: st' row_stamped_def abs_key_def)
  next
    case False
    then show ?thesis using spec [OF assms(3), of k] by (simp add: st')
  qed
qed

lemma abs_run_stamped:
  assumes "abs_run st ps = Inr (st', vs)" and "\<forall>p \<in> set ps. pc_tenant p = tid"
    and "\<forall>k. row_stamped tid k (st k)"
  shows "\<forall>k. row_stamped tid k (st' k)"
  using assms
proof (induction ps arbitrary: st vs)
  case Nil
  then show ?case by simp
next
  case (Cons p ps)
  then obtain st1 v vs1 where "abs_step st p = Inr (st1, v)" "abs_run st1 ps = Inr (st', vs1)"
    by (auto split: sum.splits)
  with Cons abs_step_stamped [of st p st1 v tid] show ?case by simp
qed

lemma prepare_all_tenant:
  "fst (prepare_all x ctx cmds n) = Inr ps \<Longrightarrow> Require ctx = Inr tid \<Longrightarrow> \<forall>p \<in> set ps. pc_tenant p = tid"
  using prepare_all_Inr [of x ctx cmds n ps] prepare_Inr
  by (fastforce simp: list_all2_conv_all_nth in_set_conv_nth)

lemma ExecBatch_empty: "oc_store (ExecBatch x s ctx [] n) = s"
  by (simp add: ExecBatch_def)

lemma ExecBatch_stamped:
  assumes "x_store x = fake_ops" and "hooks_ok same_tx tx_view ft_outbox (x_hooks x)"
    and "store_stamped s"
  shows "store_stamped (oc_store (ExecBatch x s ctx cmds n))"
proof (cases "oc_result (ExecBatch x s ctx cmds n)")
  case (Inl e)
  then show ?thesis
    using fake.ExecBatch_abort [OF assms(1) Inl] assms(3) by (simp add: store_stamped_def)
next
  case (Inr rs)
  show ?thesis
  proof (cases "cmds = []")
    case True
    then show ?thesis using assms(3) by (simp add: ExecBatch_empty)
  next
    case False
    from fake.ExecBatch_commit [OF assms(1,2) Inr False] obtain tid ps st' where
      run: "Require ctx = Inr tid" "fst (prepare_all x ctx cmds n) = Inr ps"
      "abs_run (rows_view (fs_rows s) tid) ps = Inr (st', map rs_version rs)"
      "rows_view (fs_rows (oc_store (ExecBatch x s ctx cmds n))) = (rows_view (fs_rows s))(tid := st')"
      by blast
    have "\<forall>k. row_stamped tid k (st' k)"
      using abs_run_stamped [OF run(3) prepare_all_tenant [OF run(2,1)]] assms(3)
      by (simp add: store_stamped_def)
    with run(4) assms(3) show ?thesis by (simp add: store_stamped_def)
  qed
qed

section \<open>A version conflict stops a command\<close>

lemma Exec_version_error:
  assumes x: "x_store x = fake_ops" and tid: "Require ctx = Inr tid"
    and p: "fst (prepare x ctx c n) = Inr p"
    and e: "checkVersion p (version_of (rows_view (fs_rows s) tid) (abs_key p)) = Some e"
  shows "Exec x s ctx c n = (Inl e, s)"
proof -
  obtain n1 where n1: "prepare x ctx c n = (Inr p, n1)" using p by (cases "prepare x ctx c n") auto
  define t where "t = \<lparr>ft_tenant = tid, ft_stage = fs_rows s, ft_outbox = [], ft_fail = fs_fail s\<rparr>"
  have cur: "tx_current fake_ops t ctx (pc_entity p) (pc_aggid p) =
      Inr (version_of (rows_view (fs_rows s) tid) (abs_key p))"
    by (auto simp: fake_ops_def fakeTx_CurrentVersion_def version_of_def rows_view_def t_def
        abs_key_def split: option.splits)
  then have "apply_cmd x ctx t p n1 = (Inl e, n1)"
    using e x by (simp add: apply_cmd_def fake_ops_def)
  then have "in_tenant_tx (x_store x) s ctx (apply_all x ctx [p]) n1 = (Inl e, s, n1)"
    using tid x by (simp add: fake_ops_def FakeStore_InTenantTx_def t_def del: Require_Inr)
  then show ?thesis
    using n1 tid by (simp add: Exec_def ExecBatch_def Let_def del: Require_Inr)
qed

lemma Exec_ok_row:
  assumes x: "x_store x = fake_ops" "hooks_ok same_tx tx_view ft_outbox (x_hooks x)"
    and ok: "Exec x s ctx c n = (Inr r, s')"
  shows "\<exists>tid p. Require ctx = Inr tid \<and> fst (prepare x ctx c n) = Inr p
    \<and> abs_step (rows_view (fs_rows s) tid) p = Inr (rows_view (fs_rows s') tid, rs_version r)
    \<and> rs_aggid r = pc_aggid p"
proof -
  from ok obtain rs where rs: "oc_result (ExecBatch x s ctx [c] n) = Inr rs" "r = hd rs"
    and s': "s' = oc_store (ExecBatch x s ctx [c] n)"
    by (auto simp: Exec_def Let_def split: sum.splits)
  have ne: "[c] \<noteq> []" by simp
  from fake.ExecBatch_commit [OF x rs(1) ne] obtain tid ps st' and chs :: "Change list" where
    run: "Require ctx = Inr tid" "fst (prepare_all x ctx [c] n) = Inr ps"
    "abs_run (rows_view (fs_rows s) tid) ps = Inr (st', map rs_version rs)"
    "rows_view (fs_rows (oc_store (ExecBatch x s ctx [c] n))) = (rows_view (fs_rows s))(tid := st')"
    "list_all2 (\<lambda>p (r, c). event_for (x_lib x) p (rs_version r) (ch_envelope c)
       \<and> rs_aggid r = pc_aggid p \<and> rs_eventid r = ev_id (ch_envelope c)) ps (zip rs chs)" "length chs = length ps"
    by blast
  from run(2) obtain p where p: "fst (prepare x ctx c n) = Inr p" "ps = [p]"
    by (cases "prepare x ctx c n") (auto split: sum.splits)
  with run(3,5,6) rs(2) obtain ch where "rs = [r]" "chs = [ch]" "abs_step (rows_view (fs_rows s) tid) p = Inr (st', rs_version r)"
    by (cases rs; cases chs) (auto split: sum.splits)
  with run p show ?thesis by (auto simp: s')
qed

section \<open>Properties of the command plane\<close>

text \<open>
  C1.  A batch of prepared commands runs exactly as the abstract write machine: it fails
  with the machine's first error and leaves the store untouched, or it commits, returns the
  machine's versions in order and makes the caller's tenant hold the machine's rows (all
  other tenants keep theirs).
\<close>

theorem ExecBatch_refines_machine:
  assumes "x_store x = fake_ops" "x_hooks x = []" and "fs_fail s = None"
    and "cmds \<noteq> []" and "Require ctx = Inr tid"
    and "fst (prepare_all x ctx cmds n) = Inr ps" and "\<forall>p \<in> set ps. marshalable (x_lib x) p"
  shows "case abs_run (rows_view (fs_rows s) tid) ps of
      Inl e \<Rightarrow> oc_result (ExecBatch x s ctx cmds n) = Inl e \<and> oc_store (ExecBatch x s ctx cmds n) = s
    | Inr (st', vs) \<Rightarrow>
        \<exists>rs. oc_result (ExecBatch x s ctx cmds n) = Inr rs \<and> map rs_version rs = vs
          \<and> rows_view (fs_rows (oc_store (ExecBatch x s ctx cmds n))) = (rows_view (fs_rows s))(tid := st')"
  using assms by (rule ExecBatch_machine)

text \<open>A registry with one dynamic entity, an executor over the empty store, and three commands.\<close>

definition widget_reg :: Registry where
  "widget_reg = (case Register (\<lambda>t. Inl (Errorf ''no model'')) (New []) widget_spec of
     Inl e \<Rightarrow> New [] | Inr r \<Rightarrow> r)"

definition widget_exec :: "(FakeStore, fakeTx) Executor" where
  "widget_exec = \<lparr>x_reg = widget_reg, x_store = fake_ops, x_lib = demo_lib,
     x_newid = (\<lambda>n. ''id'' @ replicate n CHR ''x''), x_now = (\<lambda>n. 0), x_traceparent = (\<lambda>ctx. []),
     x_hooks = [], x_postcommit = [''cache''], x_observed = True\<rparr>"

definition empty_store :: FakeStore where
  "empty_store = \<lparr>fs_rows = [], fs_outbox = [], fs_fail = None\<rparr>"

definition acme_ctx :: gctx where
  "acme_ctx = \<lparr>cv_tenant = Some ''acme'', cv_scope = None, cv_schema = None\<rparr>"

definition widget_cmd :: "Op \<Rightarrow> payload \<Rightarrow> int option \<Rightarrow> Command" where
  "widget_cmd op pl ev = \<lparr>c_entity = ''widget'', c_op = op, c_aggid = ''w1'', c_payload = pl,
     c_expected = ev, c_skiptypes = False\<rparr>"

definition bolt :: payload where
  "bolt = PMap [(''name'', VStr ''bolt''), (''qty'', VInt KInt 7)]"

lemmas prepare_eval = prepare_def Require_def FromContext_def Get_def prepare_values_def
  ValuesByColumn_def validateRequired_def Required_def CoerceRow_def coerce_cell_def DynColumn_def
  ScopeOrEmpty_def ScopeFromContext_def mget_or_def to_int64_def acme_ctx_def widget_cmd_def bolt_def
  widget_exec_def widget_reg_def

lemmas machine_eval = marshalable_def stampedValues_def abs_step_def version_of_def abs_key_def
  checkVersion_def inc64_def rows_view_def stage_row_def empty_store_def demo_lib_def

definition create_update :: "Command list" where
  "create_update = [widget_cmd OpCreate bolt None, widget_cmd OpUpdate bolt (Some 1)]"

lemma widget_setup:
  "x_store widget_exec = fake_ops" "x_hooks widget_exec = []"
  "hooks_ok same_tx tx_view ft_outbox (x_hooks widget_exec)" "fs_fail empty_store = None"
  "Require acme_ctx = Inr ''acme''" "create_update \<noteq> []"
  by (simp_all add: widget_exec_def hooks_ok_def empty_store_def acme_ctx_def create_update_def)

lemma widget_prepared:
  "\<exists>ps. fst (prepare_all widget_exec acme_ctx create_update 0) = Inr ps
    \<and> (\<forall>p \<in> set ps. marshalable (x_lib widget_exec) p)
    \<and> (\<exists>st. abs_run (rows_view (fs_rows empty_store) ''acme'') ps = Inr (st, [1, 2]))"
  by (simp add: registry_eval prepare_eval machine_eval create_update_def)

lemma widget_runs:
  "\<exists>rs. oc_result (ExecBatch widget_exec empty_store acme_ctx create_update 0) = Inr rs"
proof -
  obtain ps st where "fst (prepare_all widget_exec acme_ctx create_update 0) = Inr ps"
    "\<forall>p \<in> set ps. marshalable (x_lib widget_exec) p"
    "abs_run (rows_view (fs_rows empty_store) ''acme'') ps = Inr (st, [1, 2])"
    using widget_prepared by blast
  with ExecBatch_machine [OF widget_setup(1,2,4,6,5) this(1,2)] show ?thesis by auto
qed

theorem ExecBatch_refines_machine_witness:
  "\<exists>rs. oc_result (ExecBatch widget_exec empty_store acme_ctx create_update 0) = Inr rs
    \<and> map rs_version rs = [1, 2]"
proof -
  obtain ps st where ps: "fst (prepare_all widget_exec acme_ctx create_update 0) = Inr ps"
    "\<forall>p \<in> set ps. marshalable (x_lib widget_exec) p"
    "abs_run (rows_view (fs_rows empty_store) ''acme'') ps = Inr (st, [1, 2])"
    using widget_prepared by blast
  from ExecBatch_refines_machine [OF widget_setup(1,2,4,6,5) ps(1,2)] ps(3) show ?thesis by auto
qed

text \<open>
  C2.  A committed batch appends exactly one event per command, in command order: the
  event names the tenant of the context, the entity, aggregate and new version of its
  command's result, and carries the stamped row; every post-commit hook receives exactly
  these changes.
\<close>

theorem ExecBatch_outbox:
  assumes "x_store x = fake_ops" and "hooks_ok same_tx tx_view ft_outbox (x_hooks x)"
    and "oc_result (ExecBatch x s ctx cmds n) = Inr rs" and "cmds \<noteq> []"
  shows "\<exists>tid ps (chs :: Change list). Require ctx = Inr tid
    \<and> list_all2 (\<lambda>c p. pc_cmd p = c \<and> pc_tenant p = tid
         \<and> Get (x_reg x) (c_entity c) = Some (pc_entity p)) cmds ps
    \<and> Outbox (oc_store (ExecBatch x s ctx cmds n)) = Outbox s @ map ch_envelope chs
    \<and> oc_postcommit (ExecBatch x s ctx cmds n) = map (\<lambda>h. (h, chs)) (x_postcommit x)
    \<and> length rs = length cmds \<and> length chs = length cmds
    \<and> list_all2 (\<lambda>p (r, c). event_for (x_lib x) p (rs_version r) (ch_envelope c)
         \<and> rs_aggid r = pc_aggid p \<and> rs_eventid r = ev_id (ch_envelope c)) ps (zip rs chs)"
proof -
  from fake.ExecBatch_commit [OF assms] obtain tid ps st' and chs :: "Change list" where
    run: "Require ctx = Inr tid" "fst (prepare_all x ctx cmds n) = Inr ps"
    "fs_outbox (oc_store (ExecBatch x s ctx cmds n)) = fs_outbox s @ map ch_envelope chs"
    "oc_postcommit (ExecBatch x s ctx cmds n) = map (\<lambda>h. (h, chs)) (x_postcommit x)"
    "list_all2 (\<lambda>p (r, c). event_for (x_lib x) p (rs_version r) (ch_envelope c)
       \<and> rs_aggid r = pc_aggid p \<and> rs_eventid r = ev_id (ch_envelope c)) ps (zip rs chs)"
    "length rs = length ps" "length chs = length ps" by blast
  have prep: "list_all2 (\<lambda>c p. pc_cmd p = c \<and> pc_tenant p = tid
      \<and> Get (x_reg x) (c_entity c) = Some (pc_entity p)) cmds ps"
    by (rule list_all2_mono [OF prepare_all_Inr [OF run(2)]]) (use run(1) prepare_Inr in fastforce)
  from run prep list_all2_lengthD [OF prep] show ?thesis
    by (intro exI [of _ tid] exI [of _ ps] exI [of _ chs]) (simp add: Outbox_def)
qed

theorem ExecBatch_outbox_witness:
  "\<exists>rs. oc_result (ExecBatch widget_exec empty_store acme_ctx create_update 0) = Inr rs
    \<and> length (Outbox (oc_store (ExecBatch widget_exec empty_store acme_ctx create_update 0))) = 2"
proof -
  obtain rs where rs: "oc_result (ExecBatch widget_exec empty_store acme_ctx create_update 0) = Inr rs"
    using widget_runs by blast
  show ?thesis
    using ExecBatch_outbox [OF widget_setup(1,3) rs widget_setup(6)] rs
    by (auto simp: Outbox_def empty_store_def create_update_def)
qed


definition create_conflict :: "Command list" where
  "create_conflict = [widget_cmd OpCreate bolt None, widget_cmd OpUpdate bolt (Some 5)]"


text \<open>The stores that any sequence of batches, from any tenants, can produce.\<close>

inductive exec_reach :: "FakeStore \<Rightarrow> bool" where
  init: "exec_reach empty_store"
| exec: "exec_reach s \<Longrightarrow> x_store x = fake_ops \<Longrightarrow> hooks_ok same_tx tx_view ft_outbox (x_hooks x) \<Longrightarrow>
    exec_reach (oc_store (ExecBatch x s ctx cmds n))"
| inject: "exec_reach s \<Longrightarrow> exec_reach (FailOnOutbox s f)"



section \<open>Concurrency and versions\<close>

lemma abs_step_Inr:
  assumes "abs_step st p = Inr (st', v)"
  shows "checkVersion p (version_of st (abs_key p)) = None \<and> v = inc64 (version_of st (abs_key p))
    \<and> version_of st' (abs_key p) = (if c_op (pc_cmd p) = OpDelete then 0 else v)"
  using assms
  by (auto simp: abs_step_def Let_def version_of_def stampedValues_def split: option.splits if_splits)

lemma checkVersion_expected: "checkVersion p cur = None \<Longrightarrow> c_expected (pc_cmd p) = Some v \<Longrightarrow> cur = v"
  by (simp add: checkVersion_def Let_def)


definition widget_row :: "int \<Rightarrow> memRow" where
  "widget_row v = \<lparr>mr_vals = [(''id'', VStr ''w1''), (''tenant_id'', VStr ''acme''),
     (''version'', VInt KInt64 v), (''name'', VStr ''nut'')], mr_version = v, mr_scope = []\<rparr>"

definition widget_store :: "int \<Rightarrow> FakeStore" where
  "widget_store v = \<lparr>fs_rows = [(''acme'', [(''widget'', [(''w1'', widget_row v)])])],
     fs_outbox = [], fs_fail = None\<rparr>"

lemma widget_update_prepared:
  "\<exists>p. fst (prepare widget_exec acme_ctx (widget_cmd OpUpdate bolt (Some 3)) n) = Inr p
    \<and> marshalable (x_lib widget_exec) p
    \<and> (\<exists>st. abs_run (rows_view (fs_rows (widget_store 3)) ''acme'') [p] = Inr (st, [4]))"
  by (simp add: registry_eval prepare_eval machine_eval widget_store_def widget_row_def)

lemma widget_update_runs:
  "\<exists>r s'. Exec widget_exec (widget_store 3) acme_ctx (widget_cmd OpUpdate bolt (Some 3)) 0 = (Inr r, s')
     \<and> rs_aggid r = ''w1''"
proof -
  let ?c = "widget_cmd OpUpdate bolt (Some 3)"
  obtain p st where p: "fst (prepare widget_exec acme_ctx ?c 0) = Inr p"
    "marshalable (x_lib widget_exec) p"
    "abs_run (rows_view (fs_rows (widget_store 3)) ''acme'') [p] = Inr (st, [4])"
    using widget_update_prepared by blast
  have ps: "fst (prepare_all widget_exec acme_ctx [?c] 0) = Inr [p]"
    using p(1) by (cases "prepare widget_exec acme_ctx ?c 0") simp
  have "fs_fail (widget_store 3) = None" "[?c] \<noteq> []" by (simp_all add: widget_store_def)
  from ExecBatch_machine [OF widget_setup(1,2) this widget_setup(5) ps] p(2,3)
  obtain rs where rs: "oc_result (ExecBatch widget_exec (widget_store 3) acme_ctx [?c] 0) = Inr rs"
    by auto
  define s' where "s' = oc_store (ExecBatch widget_exec (widget_store 3) acme_ctx [?c] 0)"
  have ex: "Exec widget_exec (widget_store 3) acme_ctx ?c 0 = (Inr (hd rs), s')"
    by (simp add: Exec_def Let_def rs s'_def)
  from Exec_ok_row [OF widget_setup(1,3) ex] p(1) prepare_Inr [OF p(1)]
  have "rs_aggid (hd rs) = ''w1''" by (auto simp: widget_cmd_def)
  with ex show ?thesis by blast
qed


text \<open>
   Re-creating a deleted aggregate restarts its versions: after a delete, a create of
  the same aggregate is version 1 again, below the version of the delete event before it.
\<close>

theorem recreate_restarts_version:
  assumes x: "x_store x = fake_ops" "hooks_ok same_tx tx_view ft_outbox (x_hooks x)"
    and del: "Exec x s ctx d n = (Inr rd, s1)" "c_op d = OpDelete"
    and new: "Exec x s1 ctx c m = (Inr rc, s2)" "c_op c = OpCreate"
    and target: "c_entity c = c_entity d" "c_aggid c = c_aggid d" "c_aggid d \<noteq> []"
  shows "rs_version rc = 1"
proof -
  obtain tid p where p: "Require ctx = Inr tid" "fst (prepare x ctx d n) = Inr p"
    "abs_step (rows_view (fs_rows s) tid) p = Inr (rows_view (fs_rows s1) tid, rs_version rd)"
    using Exec_ok_row [OF x del(1)] by blast
  obtain tid' q where q: "Require ctx = Inr tid'" "fst (prepare x ctx c m) = Inr q"
    "abs_step (rows_view (fs_rows s1) tid') q = Inr (rows_view (fs_rows s2) tid', rs_version rc)"
    using Exec_ok_row [OF x new(1)] by blast
  have same: "tid' = tid" "abs_key q = abs_key p"
    using prepare_Inr [OF p(2)] prepare_Inr [OF q(2)] p(1) q(1) target by (auto simp: abs_key_def)
  have "version_of (rows_view (fs_rows s1) tid) (abs_key p) = 0"
    using abs_step_Inr [OF p(3)] prepare_Inr [OF p(2)] del(2) by simp
  then show ?thesis
    using abs_step_Inr [OF q(3)] same by (simp add: inc64_def to_int64_def)
qed
lemmas exec_eval = Exec_def ExecBatch_def apply_cmd_def stage_def newEnvelope_def resolveOp_def Verb_def
  fake_ops_def FakeStore_InTenantTx_def fakeTx_CurrentVersion_def fakeTx_ApplyChange_def
  fakeTx_AppendOutbox_def

lemma widget_recreate_runs:
  "\<exists>rd s1 rc s2. Exec widget_exec (widget_store 3) acme_ctx (widget_cmd OpDelete PNil None) 0 = (Inr rd, s1)
    \<and> rs_version rd = 4
    \<and> Exec widget_exec s1 acme_ctx (widget_cmd OpCreate bolt None) 1 = (Inr rc, s2)"
  by (simp add: registry_eval prepare_eval machine_eval exec_eval widget_store_def widget_row_def)

theorem recreate_restarts_version_witness:
  "\<exists>rd s1 rc s2. Exec widget_exec (widget_store 3) acme_ctx (widget_cmd OpDelete PNil None) 0 = (Inr rd, s1)
    \<and> rs_version rd = 4
    \<and> Exec widget_exec s1 acme_ctx (widget_cmd OpCreate bolt None) 1 = (Inr rc, s2) \<and> rs_version rc = 1"
proof -
  let ?d = "widget_cmd OpDelete PNil None" and ?c = "widget_cmd OpCreate bolt None"
  obtain rd s1 rc s2 where ex: "Exec widget_exec (widget_store 3) acme_ctx ?d 0 = (Inr rd, s1)"
    "rs_version rd = 4" "Exec widget_exec s1 acme_ctx ?c 1 = (Inr rc, s2)"
    using widget_recreate_runs by blast
  have "c_op ?d = OpDelete" "c_op ?c = OpCreate" "c_entity ?c = c_entity ?d" "c_aggid ?c = c_aggid ?d"
    "c_aggid ?d \<noteq> []"
    by (simp_all add: widget_cmd_def)
  from recreate_restarts_version [OF widget_setup(1,3) ex(1) this(1) ex(3) this(2-5)] ex
  show ?thesis by blast
qed

end
