(* ===== verification/Projection.thy ===== *)
theory Projection
  imports Command "HOL-Library.Product_Lexorder"
begin

text \<open>
  The projection pipeline of \<^verbatim>\<open>core/projection\<close>: mutations (\<^verbatim>\<open>mutation.go\<close>), the
  registry-driven appliers (\<^verbatim>\<open>applier.go\<close>), the consuming engine
  (\<^verbatim>\<open>engine.go\<close>), blue-green rebuilds (\<^verbatim>\<open>rebuild.go\<close>) and the reconciler
  (\<^verbatim>\<open>reconcile.go\<close>).  A Go panic is the value \<open>None\<close>.
\<close>

section \<open>Mutations\<close>

datatype Mutation =
    NodeUpsert (nu_label: string) (nu_extra: "string list") (nu_id: string) (nu_props: vals) (nu_version: int)
  | EdgeUpsert string string string string string int
  | NodeDelete string string
  | EdgeDelete string string string int
  | DocIndex (di_index: string) (di_id: string) (di_doc: vals) (di_version: int)
  | DocDeindex string string int
  | RelUpsert string string string string string string vals int
  | RelDelete string int

section \<open>Appliers\<close>

definition eventVerb :: "string \<Rightarrow> string" where
  "eventVerb eventType = after_last (CHR ''.'') eventType"

definition stringProp :: "vals \<Rightarrow> string \<Rightarrow> string" where
  "stringProp props key = (case mget props key of Some (VStr s) \<Rightarrow> s | _ \<Rightarrow> [])"

text \<open>
  Decoding a payload into a \<^verbatim>\<open>map[string]any\<close>; the JSON text \<^verbatim>\<open>null\<close> turns the map
  into a nil map, the inner \<open>None\<close>.
\<close>

definition decodePayload :: "Envelope \<Rightarrow> gerr + vals option" where
  "decodePayload env =
     (case ev_payload env of
        RawEmpty \<Rightarrow> Inr (Some [])
      | RawJson (JObj kvs) \<Rightarrow> Inr (Some (go_map_of (map (\<lambda>(k, v). (k, json_any v)) kvs)))
      | RawJson JNull \<Rightarrow> Inr None
      | _ \<Rightarrow> Inl (WrapErr ''event payload is not an object'' (Errorf ''json: cannot unmarshal'')))"

text \<open>Reading from a nil map is reading from the empty one.\<close>

definition nil_map :: "vals option \<Rightarrow> vals" where
  "nil_map mo = (case mo of None \<Rightarrow> [] | Some m \<Rightarrow> m)"

definition reifiedEdgeMutations :: "Entity \<Rightarrow> GraphEdgeSpec \<Rightarrow> Envelope \<Rightarrow> gerr + Mutation list" where
  "reifiedEdgeMutations ent spec env =
     (let verb = eventVerb (ev_type env)
      in if verb = VerbDeleted then Inr [RelDelete (ev_aggid env) (ev_version env)]
         else if verb \<noteq> VerbCreated \<and> verb \<noteq> VerbUpdated then Inr []
         else
           (case decodePayload env of
              Inl e \<Rightarrow> Inl e
            | Inr mo \<Rightarrow>
                (let props = nil_map mo;
                     relType = stringProp props (ge_type_field spec);
                     from = stringProp props (ge_source_field spec);
                     to = stringProp props (ge_target_field spec)
                 in if relType = [] \<or> from = [] \<or> to = []
                    then Inl (Errorf ''reified edge missing type/source/target'')
                    else Inr [RelUpsert (ev_aggid env) relType (ge_source_label spec) from
                                (ge_target_label spec) to
                                (fold (\<lambda>f m. case mget props f of None \<Rightarrow> m | Some v \<Rightarrow> mput f v m)
                                   (ge_prop_fields spec) [])
                                (ev_version env)])))"

definition edge_mutation :: "Registry \<Rightarrow> Entity \<Rightarrow> Envelope \<Rightarrow> vals \<Rightarrow> EdgeSpec \<Rightarrow> gerr + Mutation" where
  "edge_mutation reg ent env props edge =
     (case Get reg (eg_target edge) of
        None \<Rightarrow> Inl (Errorf ''edge target not registered with a GraphNode'')
      | Some target \<Rightarrow>
          (if es_graphnode (e_spec target) = []
           then Inl (Errorf ''edge target not registered with a GraphNode'')
           else
             (let fk = stringProp props (eg_field edge); label = es_graphnode (e_spec ent)
              in if fk = [] then Inr (EdgeDelete (eg_rel edge) label (ev_aggid env) (ev_version env))
                 else Inr (EdgeUpsert (eg_rel edge) label (ev_aggid env)
                             (es_graphnode (e_spec target)) fk (ev_version env)))))"

text \<open>Writing the scope into a nil map panics.\<close>

definition GraphApplier :: "Registry \<Rightarrow> Envelope \<Rightarrow> (gerr + Mutation list) option" where
  "GraphApplier reg env =
     (case Get reg (ev_aggregate env) of
        None \<Rightarrow> Some (Inr [])
      | Some ent \<Rightarrow>
          (case es_graphedge (e_spec ent) of
             Some spec \<Rightarrow> Some (reifiedEdgeMutations ent spec env)
           | None \<Rightarrow>
               (if es_graphnode (e_spec ent) = [] then Some (Inr [])
                else
                  (let verb = eventVerb (ev_type env)
                   in if verb = VerbDeleted
                      then Some (Inr [NodeDelete (es_graphnode (e_spec ent)) (ev_aggid env)])
                      else if verb \<noteq> VerbCreated \<and> verb \<noteq> VerbUpdated then Some (Inr [])
                      else
                        (case decodePayload env of
                           Inl e \<Rightarrow> Some (Inl e)
                         | Inr mo \<Rightarrow>
                             (if ev_scope env \<noteq> [] \<and> mo = None then None
                              else
                                (let props = (if ev_scope env \<noteq> []
                                       then mput ColumnScope (VStr (ev_scope env)) (nil_map mo)
                                       else nil_map mo)
                                 in case map_res (edge_mutation reg ent env props) (es_edges (e_spec ent)) of
                                      Inl e \<Rightarrow> Some (Inl e)
                                    | Inr ms \<Rightarrow>
                                        Some (Inr (NodeUpsert (es_graphnode (e_spec ent)) [] (ev_aggid env)
                                                     props (ev_version env) # ms)))))))))"

definition search_doc :: "Entity \<Rightarrow> Envelope \<Rightarrow> vals \<Rightarrow> vals" where
  "search_doc ent env props =
     (let doc = fold (\<lambda>f m. case mget props f of None \<Rightarrow> m | Some v \<Rightarrow> mput f v m)
                  (ss_fields (es_search (e_spec ent))) [];
          doc = mput ColumnTenant (VStr (ev_tenant env)) (mput ColumnID (VStr (ev_aggid env)) doc);
          doc = (if ev_scope env \<noteq> [] then mput ColumnScope (VStr (ev_scope env)) doc else doc)
      in mput ColumnVersion (VInt KInt64 (ev_version env)) doc)"

definition SearchApplier :: "Registry \<Rightarrow> Envelope \<Rightarrow> (gerr + Mutation list) option" where
  "SearchApplier reg env =
     (case Get reg (ev_aggregate env) of
        None \<Rightarrow> Some (Inr [])
      | Some ent \<Rightarrow>
          (if ss_index (es_search (e_spec ent)) = [] then Some (Inr [])
           else
             (let verb = eventVerb (ev_type env); index = ss_index (es_search (e_spec ent))
              in if verb = VerbDeleted then Some (Inr [DocDeindex index (ev_aggid env) (ev_version env)])
                 else if verb \<noteq> VerbCreated \<and> verb \<noteq> VerbUpdated then Some (Inr [])
                 else
                   (case decodePayload env of
                      Inl e \<Rightarrow> Some (Inl e)
                    | Inr mo \<Rightarrow>
                        Some (Inr [DocIndex index (ev_aggid env) (search_doc ent env (nil_map mo))
                                     (ev_version env)])))))"

section \<open>Engine\<close>

record CustomApplier =
  ca_target :: string
  ca_entity :: string
  ca_apply :: "Envelope \<Rightarrow> (gerr + Mutation list) option"

fun apply_custom ::
  "CustomApplier list \<Rightarrow> string \<Rightarrow> Envelope \<Rightarrow> Mutation list \<Rightarrow> (gerr + Mutation list) option" where
  "apply_custom [] proj env muts = Some (Inr muts)"
| "apply_custom (c # cs) proj env muts =
     (if (ca_target c \<noteq> [] \<and> ca_target c \<noteq> proj) \<or> (ca_entity c \<noteq> [] \<and> ca_entity c \<noteq> ev_aggregate env)
      then apply_custom cs proj env muts
      else
        (case ca_apply c env of
           None \<Rightarrow> None
         | Some (Inl e) \<Rightarrow> Some (Inl e)
         | Some (Inr extra) \<Rightarrow> apply_custom cs proj env (muts @ extra)))"

definition ApplyChain ::
  "(Envelope \<Rightarrow> (gerr + Mutation list) option) \<Rightarrow> CustomApplier list \<Rightarrow> string \<Rightarrow> Envelope
     \<Rightarrow> (gerr + Mutation list) option" where
  "ApplyChain builtin custom proj env =
     (case builtin env of
        None \<Rightarrow> None
      | Some (Inl e) \<Rightarrow> Some (Inl e)
      | Some (Inr muts) \<Rightarrow> apply_custom custom proj env muts)"

text \<open>
  The engine over a sink state \<open>'g\<close> and a bookkeeping state \<open>'a\<close>.  A failing sink may
  have applied part of the mutations: it returns its state in every case.
\<close>

record ('g, 'a) Engine =
  en_projection :: string
  en_sink :: "'g \<Rightarrow> gctx \<Rightarrow> string \<Rightarrow> Mutation list \<Rightarrow> gerr option \<times> 'g"
  en_applier :: "Envelope \<Rightarrow> (gerr + Mutation list) option"
  en_custom :: "CustomApplier list"
  en_upcasters :: "UpcasterChain option"
  en_setapplied :: "'a \<Rightarrow> gctx \<Rightarrow> string \<Rightarrow> string \<Rightarrow> string \<Rightarrow> string \<Rightarrow> int \<Rightarrow> gerr option \<times> 'a"
  en_targets :: "(gctx \<Rightarrow> string \<Rightarrow> gerr + string list) option"
  en_observed :: bool

fun apply_targets ::
  "('g \<Rightarrow> gctx \<Rightarrow> string \<Rightarrow> Mutation list \<Rightarrow> gerr option \<times> 'g) \<Rightarrow> gctx \<Rightarrow> string list \<Rightarrow> Mutation list
     \<Rightarrow> 'g \<Rightarrow> gerr option \<times> 'g" where
  "apply_targets sink ctx [] muts g = (None, g)"
| "apply_targets sink ctx (t # ts) muts g =
     (case sink g ctx t muts of (Some e, g') \<Rightarrow> (Some e, g') | (None, g') \<Rightarrow> apply_targets sink ctx ts muts g')"

definition Engine_apply ::
  "('g, 'a) Engine \<Rightarrow> gctx \<Rightarrow> Envelope \<Rightarrow> Mutation list \<Rightarrow> 'g \<Rightarrow> 'a \<Rightarrow> gerr option \<times> 'g \<times> 'a" where
  "Engine_apply e ctx env muts g a =
     (case (if muts = [] then (None, g)
            else
              (case (case en_targets e of None \<Rightarrow> Inr [[]] | Some f \<Rightarrow> f ctx (ev_tenant env)) of
                 Inl err \<Rightarrow> (Some err, g)
               | Inr targets \<Rightarrow> apply_targets (en_sink e) ctx targets muts g)) of
        (Some err, g') \<Rightarrow> (Some err, g', a)
      | (None, g') \<Rightarrow>
          (case en_setapplied e a ctx (ev_tenant env) (en_projection e) (ev_aggregate env)
                  (ev_aggid env) (ev_version env) of
             (err, a') \<Rightarrow> (err, g', a')))"

text \<open>
  One delivery: an error leaves the entry pending, no error acknowledges it.  The last
  component is what the observer recorded.
\<close>

definition handle ::
  "('g, 'a) Engine \<Rightarrow> gctx \<Rightarrow> 'g \<Rightarrow> 'a \<Rightarrow> Envelope
     \<Rightarrow> (gerr option \<times> 'g \<times> 'a \<times> (string \<times> metric_result) list) option" where
  "handle e ctx g a env0 =
     (case (case en_upcasters e of None \<Rightarrow> Some (Inr env0) | Some c \<Rightarrow> ApplyUpcasters c env0) of
        None \<Rightarrow> None
      | Some (Inl err) \<Rightarrow> Some (None, g, a, [])
      | Some (Inr env) \<Rightarrow>
          (case ApplyChain (en_applier e) (en_custom e) (en_projection e) env of
             None \<Rightarrow> None
           | Some (Inl err) \<Rightarrow> Some (None, g, a, [])
           | Some (Inr muts) \<Rightarrow>
               (case WithTenant ctx (ev_tenant env) of
                  Inl err \<Rightarrow> Some (None, g, a, [])
                | Inr tctx \<Rightarrow>
                    (case Engine_apply e tctx env muts g a of
                       (err, g', a') \<Rightarrow>
                         Some (err, g', a',
                           if en_observed e
                           then [(en_projection e, if err = None then ResultOK else ResultError)]
                           else [])))))"

end
