(* ===== verification/Rebuild.thy ===== *)
theory Rebuild
  imports Projection
begin

text \<open>
  Blue-green rebuilds (\<^verbatim>\<open>core/projection/rebuild.go\<close>) and drift detection
  (\<^verbatim>\<open>core/projection/reconcile.go\<close>).  The ports they run against - projection
  bookkeeping, the engine target, the snapshot reader - are a record of operations over an
  arbitrary world; an operation returns the world in every case.
\<close>

section \<open>Rebuild\<close>

record State =
  ps_tenant :: string
  ps_projection :: string
  ps_model :: int
  ps_event :: string
  ps_status :: string
  ps_target :: string

record 'w Rebuilder =
  rb_projection :: string
  rb_wired :: bool
  rb_get :: "'w \<Rightarrow> string \<Rightarrow> string \<Rightarrow> gerr + State"
  rb_upsert :: "'w \<Rightarrow> State \<Rightarrow> gerr option \<times> 'w"
  rb_drop :: "'w \<Rightarrow> gctx \<Rightarrow> string \<Rightarrow> gerr option \<times> 'w"
  rb_sink :: "'w \<Rightarrow> gctx \<Rightarrow> string \<Rightarrow> Mutation list \<Rightarrow> gerr option \<times> 'w"
  rb_applier :: "Envelope \<Rightarrow> (gerr + Mutation list) option"
  rb_custom :: "CustomApplier list"
  rb_snapshot :: "'w \<Rightarrow> string \<Rightarrow> Envelope list \<times> gerr option"
  rb_targetname :: "string \<Rightarrow> int \<Rightarrow> string"
  rb_onflip :: "('w \<Rightarrow> string \<Rightarrow> int \<Rightarrow> int \<Rightarrow> gerr option \<times> 'w) option"

text \<open>
  The snapshot callback for each envelope in turn; the stream ends with its own error, if
  any.  \<open>None\<close> is a panic of an applier.
\<close>

fun replay ::
  "'w Rebuilder \<Rightarrow> gctx \<Rightarrow> string \<Rightarrow> Envelope list \<Rightarrow> gerr option \<Rightarrow> 'w \<Rightarrow> (gerr option \<times> 'w) option" where
  "replay r tctx target [] end_err w = Some (end_err, w)"
| "replay r tctx target (env # envs) end_err w =
     (case ApplyChain (rb_applier r) (rb_custom r) (rb_projection r) env of
        None \<Rightarrow> None
      | Some (Inl e) \<Rightarrow> Some (Some e, w)
      | Some (Inr []) \<Rightarrow> replay r tctx target envs end_err w
      | Some (Inr muts) \<Rightarrow>
          (case rb_sink r w tctx target muts of
             (Some e, w') \<Rightarrow> Some (Some e, w')
           | (None, w') \<Rightarrow> replay r tctx target envs end_err w'))"

definition revert :: "'w Rebuilder \<Rightarrow> State \<Rightarrow> 'w \<Rightarrow> 'w" where
  "revert r st w = snd (rb_upsert r w (st\<lparr>ps_status := ''live''\<rparr>))"

definition flip ::
  "'w Rebuilder \<Rightarrow> string \<Rightarrow> State \<Rightarrow> int \<Rightarrow> string \<Rightarrow> 'w \<Rightarrow> (gerr + string \<times> string) \<times> 'w" where
  "flip r tenantID st buildVersion newTarget w =
     (case rb_upsert r w (st\<lparr>ps_model := buildVersion, ps_target := newTarget, ps_status := ''soaking''\<rparr>) of
        (Some e, w') \<Rightarrow> (Inl e, w')
      | (None, w') \<Rightarrow>
          (case rb_onflip r of
             None \<Rightarrow> (Inr (ps_target st, newTarget), w')
           | Some f \<Rightarrow>
               (case f w' tenantID (to_int64 (buildVersion - 1)) buildVersion of
                  (Some e, w'') \<Rightarrow> (Inl (WrapErr ''flip cutover'' e), w'')
                | (None, w'') \<Rightarrow> (Inr (ps_target st, newTarget), w''))))"

definition Rebuild ::
  "'w Rebuilder \<Rightarrow> gctx \<Rightarrow> string \<Rightarrow> 'w \<Rightarrow> ((gerr + string \<times> string) \<times> 'w) option" where
  "Rebuild r ctx tenantID w =
     (if \<not> rb_wired r then Some (Inl (Errorf ''rebuilder not fully wired''), w)
      else
        (case rb_get r w tenantID (rb_projection r) of
           Inl e \<Rightarrow> Some (Inl e, w)
         | Inr st0 \<Rightarrow>
             (if ps_status st0 = ''building''
              then Some (Inl (Errorf ''rebuild already in progress''), w)
              else
                (let buildVersion = inc64 (ps_model st0);
                     newTarget = rb_targetname r tenantID buildVersion;
                     st = st0\<lparr>ps_status := ''building''\<rparr>
                 in case rb_upsert r w st of
                      (Some e, w1) \<Rightarrow> Some (Inl e, w1)
                    | (None, w1) \<Rightarrow>
                        (case WithTenant ctx tenantID of
                           Inl e \<Rightarrow> Some (Inl e, revert r st w1)
                         | Inr tctx \<Rightarrow>
                             (case rb_drop r w1 tctx newTarget of
                                (Some e, w2) \<Rightarrow> Some (Inl e, revert r st w2)
                              | (None, w2) \<Rightarrow>
                                  (let (envs, end_err) = rb_snapshot r w2 tenantID
                                   in case replay r tctx newTarget envs end_err w2 of
                                        None \<Rightarrow> None
                                      | Some (Some e, w3) \<Rightarrow> Some (Inl (WrapErr ''rebuild'' e), revert r st w3)
                                      | Some (None, w3) \<Rightarrow>
                                          Some (flip r tenantID st buildVersion newTarget w3))))))))"

definition Finalize :: "'w Rebuilder \<Rightarrow> gctx \<Rightarrow> string \<Rightarrow> string \<Rightarrow> 'w \<Rightarrow> gerr option \<times> 'w" where
  "Finalize r ctx tenantID oldTarget w =
     (case rb_get r w tenantID (rb_projection r) of
        Inl e \<Rightarrow> (Some e, w)
      | Inr st \<Rightarrow>
          (if oldTarget \<noteq> [] \<and> oldTarget \<noteq> ps_target st
           then
             (case WithTenant ctx tenantID of
                Inl e \<Rightarrow> (Some e, w)
              | Inr tctx \<Rightarrow>
                  (case rb_drop r w tctx oldTarget of
                     (Some e, w1) \<Rightarrow> (Some e, w1)
                   | (None, w1) \<Rightarrow> rb_upsert r w1 (st\<lparr>ps_status := ''live''\<rparr>)))
           else rb_upsert r w (st\<lparr>ps_status := ''live''\<rparr>)))"

section \<open>Reconcile\<close>

record Drift =
  dr_entity :: string
  dr_aggid :: string
  dr_truth :: int
  dr_projected :: int

record Reconciler =
  rc_registry :: Registry
  rc_include :: "(Entity \<Rightarrow> bool) option"
  rc_truth :: "string \<Rightarrow> string \<Rightarrow> gerr + int gomap"
  rc_projected :: "string \<Rightarrow> Entity \<Rightarrow> gerr + int gomap"
  rc_repair :: "(string \<Rightarrow> Drift \<Rightarrow> gerr option) option"

definition entity_drifts :: "string \<Rightarrow> int gomap \<Rightarrow> int gomap \<Rightarrow> Drift list" where
  "entity_drifts name truth projected =
     map (\<lambda>(i, tv). \<lparr>dr_entity = name, dr_aggid = i, dr_truth = tv, dr_projected = mget_or 0 projected i\<rparr>)
       (filter (\<lambda>(i, tv). mget_or 0 projected i < tv) truth)
     @ map (\<lambda>(i, pv). \<lparr>dr_entity = name, dr_aggid = i, dr_truth = 0, dr_projected = pv\<rparr>)
         (filter (\<lambda>(i, pv). mget truth i = None) projected)"

fun collect_drifts :: "Reconciler \<Rightarrow> string \<Rightarrow> Entity list \<Rightarrow> gerr + Drift list" where
  "collect_drifts r tenantID [] = Inr []"
| "collect_drifts r tenantID (ent # ents) =
     (if es_kind (e_spec ent) \<noteq> KindAggregate \<or> (case rc_include r of None \<Rightarrow> False | Some f \<Rightarrow> \<not> f ent)
      then collect_drifts r tenantID ents
      else
        (case rc_truth r tenantID (es_name (e_spec ent)) of
           Inl e \<Rightarrow> Inl (WrapErr ''reconcile truth'' e)
         | Inr truth \<Rightarrow>
             (case rc_projected r tenantID ent of
                Inl e \<Rightarrow> Inl (WrapErr ''reconcile projection'' e)
              | Inr projected \<Rightarrow>
                  (case collect_drifts r tenantID ents of
                     Inl e \<Rightarrow> Inl e
                   | Inr ds \<Rightarrow> Inr (entity_drifts (es_name (e_spec ent)) truth projected @ ds)))))"

text \<open>The drifts and the error of \<^verbatim>\<open>Reconcile\<close>; a repair error still reports the drifts.\<close>

definition Reconcile :: "Reconciler \<Rightarrow> string \<Rightarrow> bool \<Rightarrow> Drift list \<times> gerr option" where
  "Reconcile r tenantID repair =
     (case collect_drifts r tenantID (All (rc_registry r)) of
        Inl e \<Rightarrow> ([], Some e)
      | Inr ds \<Rightarrow>
          (let drifts = sort_key (\<lambda>d. (dr_entity d, dr_aggid d)) ds
           in (drifts,
               if repair
               then (case rc_repair r of None \<Rightarrow> None
                     | Some f \<Rightarrow> first_err (\<lambda>d. map_option (WrapErr ''repair'') (f tenantID d)) drifts)
               else None)))"

section \<open>Rebuild: facts and properties\<close>

text \<open>
  What the bookkeeping promises: a successful upsert is what a later read of the same key
  returns, a failed one changes nothing, and the other ports do not touch it.
\<close>

definition ports_ok :: "'w Rebuilder \<Rightarrow> bool" where
  "ports_ok r =
     ((\<forall>w st w'. rb_upsert r w st = (None, w') \<longrightarrow>
         rb_get r w' (ps_tenant st) (ps_projection st) = Inr st)
      \<and> (\<forall>w st e w'. rb_upsert r w st = (Some e, w') \<longrightarrow> rb_get r w' = rb_get r w)
      \<and> (\<forall>w ctx t. rb_get r (snd (rb_drop r w ctx t)) = rb_get r w)
      \<and> (\<forall>w ctx t ms. rb_get r (snd (rb_sink r w ctx t ms)) = rb_get r w)
      \<and> (\<forall>f w t m n. rb_onflip r = Some f \<longrightarrow> rb_get r (snd (f w t m n)) = rb_get r w))"

lemma ports_okD:
  assumes "ports_ok r"
  shows "rb_upsert r w st = (None, w') \<Longrightarrow> rb_get r w' (ps_tenant st) (ps_projection st) = Inr st"
    "rb_upsert r w st = (Some e, w') \<Longrightarrow> rb_get r w' = rb_get r w"
    "rb_drop r w ctx t = (oe, w') \<Longrightarrow> rb_get r w' = rb_get r w"
    "rb_sink r w ctx t ms = (oe, w') \<Longrightarrow> rb_get r w' = rb_get r w"
    "rb_onflip r = Some f \<Longrightarrow> f w t' m n = (oe, w') \<Longrightarrow> rb_get r w' = rb_get r w"
  using assms unfolding ports_ok_def by (blast, blast, metis snd_conv, metis snd_conv, metis snd_conv)

lemma replay_get:
  assumes "ports_ok r"
  shows "replay r tctx target envs ee w = Some (oe, w') \<Longrightarrow> rb_get r w' = rb_get r w"
proof (induction envs arbitrary: w)
  case Nil
  then show ?case by simp
next
  case (Cons env envs)
  then obtain ms where ms: "ApplyChain (rb_applier r) (rb_custom r) (rb_projection r) env = Some ms"
    by (auto split: option.splits)
  show ?case
  proof (cases "ms = Inr [] \<or> (\<exists>e. ms = Inl e)")
    case True
    then show ?thesis using Cons ms by auto
  next
    case False
    then obtain mu mus where "ms = Inr (mu # mus)" by (metis neq_Nil_conv sum.exhaust)
    moreover obtain oe1 w1 where s: "rb_sink r w tctx target (mu # mus) = (oe1, w1)" by fastforce
    moreover have "rb_get r w1 = rb_get r w" using ports_okD(4) [OF assms s] .
    ultimately show ?thesis using Cons ms by (auto split: option.splits)
  qed
qed

lemma revert_get:
  assumes "ports_ok r" and "rb_get r w (ps_tenant st) (ps_projection st) = Inr st"
  shows "\<exists>s. rb_get r (revert r st w) (ps_tenant st) (ps_projection st) = Inr (st\<lparr>ps_status := s\<rparr>)
    \<and> s \<in> {''live'', ps_status st}"
proof -
  obtain oe w' where u: "rb_upsert r w (st\<lparr>ps_status := ''live''\<rparr>) = (oe, w')" by fastforce
  show ?thesis
  proof (cases oe)
    case None
    then show ?thesis using ports_okD(1) [OF assms(1), of w "st\<lparr>ps_status := ''live''\<rparr>" w'] u
      by (intro exI [of _ "''live''"]) (simp add: revert_def)
  next
    case (Some e)
    then show ?thesis using ports_okD(2) [OF assms(1), of w "st\<lparr>ps_status := ''live''\<rparr>" e w'] u assms(2)
      by (intro exI [of _ "ps_status st"]) (simp add: revert_def)
  qed
qed

text \<open>The cases of one rebuild, once the building marker is down.\<close>

lemma Rebuild_cases:
  assumes "Rebuild r ctx t w = Some (res, w')" and "rb_wired r"
    and "rb_get r w t (rb_projection r) = Inr st0" and "ps_status st0 \<noteq> ''building''"
  obtains (marker) e where "rb_upsert r w (st0\<lparr>ps_status := ''building''\<rparr>) = (Some e, w')" "res = Inl e"
  | (aborted) w1 w2 e tctx oe where "rb_upsert r w (st0\<lparr>ps_status := ''building''\<rparr>) = (None, w1)"
      "res = Inl e" "w' = revert r (st0\<lparr>ps_status := ''building''\<rparr>) w2"
      "w2 = w1 \<or> rb_drop r w1 tctx (rb_targetname r t (inc64 (ps_model st0))) = (oe, w2)
       \<or> (\<exists>wd envs ee. rb_drop r w1 tctx (rb_targetname r t (inc64 (ps_model st0))) = (None, wd)
            \<and> replay r tctx (rb_targetname r t (inc64 (ps_model st0))) envs ee wd = Some (oe, w2))"
  | (flipped) w1 tctx w2 w3 where "rb_upsert r w (st0\<lparr>ps_status := ''building''\<rparr>) = (None, w1)"
      "WithTenant ctx t = Inr tctx" "rb_drop r w1 tctx (rb_targetname r t (inc64 (ps_model st0))) = (None, w2)"
      "replay r tctx (rb_targetname r t (inc64 (ps_model st0))) (fst (rb_snapshot r w2 t))
         (snd (rb_snapshot r w2 t)) w2 = Some (None, w3)"
      "(res, w') = flip r t (st0\<lparr>ps_status := ''building''\<rparr>) (inc64 (ps_model st0))
         (rb_targetname r t (inc64 (ps_model st0))) w3"
proof -
  let ?st = "st0\<lparr>ps_status := ''building''\<rparr>" and ?tgt = "rb_targetname r t (inc64 (ps_model st0))"
  obtain u w1 where u: "rb_upsert r w ?st = (u, w1)" by fastforce
  note R = assms(1) [unfolded Rebuild_def, simplified assms(2,3) Let_def, simplified assms(4), simplified u]
  show thesis
  proof (cases u)
    case (Some e)
    with R u assms(4) show thesis by (intro marker) (auto simp: assms(2))
  next
    case None
    show thesis
    proof (cases "WithTenant ctx t")
      case (Inl e)
      with R None u assms(4) show thesis by (intro aborted [of w1 e w1]) (auto simp: assms(2))
    next
      case (Inr tctx)
      obtain d w2 where d: "rb_drop r w1 tctx ?tgt = (d, w2)" by fastforce
      show thesis
      proof (cases d)
        case (Some e)
        with R None u d Inr assms(4) show thesis
          by (intro aborted [of w1 e w2 tctx d]) (auto simp: assms(2))
      next
        case dNone: None
        obtain envs ee where snap: "rb_snapshot r w2 t = (envs, ee)" by fastforce
        with R None u d Inr assms(4) dNone obtain oe w3 where rep: "replay r tctx ?tgt envs ee w2 = Some (oe, w3)"
          by (auto simp: assms(2) split: option.splits)
        show thesis
        proof (cases oe)
          case (Some e)
          with R None u d Inr assms(4) dNone snap rep show thesis
            by (intro aborted [of w1 "WrapErr ''rebuild'' e" w3 tctx oe]) (auto simp: assms(2))
        next
          case oNone: None
          with R None u d Inr assms(4) dNone snap rep show thesis
            by (intro flipped [of w1 tctx w2 w3]) (auto simp: assms(2))
        qed
      qed
    qed
  qed
qed

text \<open>A single-row bookkeeping whose \<open>k\<close>-th upsert fails, over an engine that accepts everything.\<close>

definition row_ports :: "nat \<Rightarrow> Envelope list \<Rightarrow> (State \<times> nat) Rebuilder" where
  "row_ports k envs = \<lparr>rb_projection = ''graph'', rb_wired = True, rb_get = (\<lambda>w t p. Inr (fst w)),
     rb_upsert = (\<lambda>w st. if snd w = k then (Some (Errorf ''database unavailable''), (fst w, Suc (snd w)))
                         else (None, (st, Suc (snd w)))),
     rb_drop = (\<lambda>w ctx t. (None, w)), rb_sink = (\<lambda>w ctx t ms. (None, w)),
     rb_applier = (\<lambda>env. Some (Inr [NodeDelete ''Widget'' (ev_aggid env)])),
     rb_custom = [], rb_snapshot = (\<lambda>w t. (envs, None)), rb_targetname = GraphNameVersioned,
     rb_onflip = None\<rparr>"

definition live_row :: State where
  "live_row = \<lparr>ps_tenant = ''acme'', ps_projection = ''graph'', ps_model = 1, ps_event = [],
     ps_status = ''live'', ps_target = ''tenant_acme_v1''\<rparr>"

lemma row_ports_ok: "ports_ok (row_ports k envs)"
  by (simp add: ports_ok_def row_ports_def)

lemmas rebuild_eval = Rebuild_def row_ports_def live_row_def WithTenant_def Valid_def id_char_def is_lower_def
  is_upper_def is_digit_def flip_def ApplyChain_def Let_def demo_env_def


text \<open>
  C39.  If the final pointer update of a rebuild fails, the building marker stays: that
  rebuild reports the error, and every later rebuild of the projection is refused as
  already in progress.
\<close>

theorem rebuild_flip_failure_wedges:
  assumes ok: "ports_ok r" and "rb_wired r" and st0: "rb_get r w t (rb_projection r) = Inr st0"
    and key: "ps_tenant st0 = t" "ps_projection st0 = rb_projection r" "ps_status st0 \<noteq> ''building''"
    and marker: "rb_upsert r w (st0\<lparr>ps_status := ''building''\<rparr>) = (None, w1)"
    and tctx: "WithTenant ctx t = Inr tctx"
    and drop: "rb_drop r w1 tctx (rb_targetname r t (inc64 (ps_model st0))) = (None, w2)"
    and rep: "replay r tctx (rb_targetname r t (inc64 (ps_model st0))) (fst (rb_snapshot r w2 t))
       (snd (rb_snapshot r w2 t)) w2 = Some (None, w3)"
    and fail: "rb_upsert r w3 (st0\<lparr>ps_model := inc64 (ps_model st0),
       ps_target := rb_targetname r t (inc64 (ps_model st0)), ps_status := ''soaking''\<rparr>) = (Some e, w4)"
  shows "Rebuild r ctx t w = Some (Inl e, w4)
    \<and> (\<forall>ctx'. Rebuild r ctx' t w4 = Some (Inl (Errorf ''rebuild already in progress''), w4))"
proof
  show "Rebuild r ctx t w = Some (Inl e, w4)"
    using assms by (simp add: Rebuild_def Let_def flip_def split_beta)
  have "rb_get r w1 t (rb_projection r) = Inr (st0\<lparr>ps_status := ''building''\<rparr>)"
    using ports_okD(1) [OF ok marker] key by simp
  then have "rb_get r w4 t (rb_projection r) = Inr (st0\<lparr>ps_status := ''building''\<rparr>)"
    using ports_okD(3) [OF ok drop] replay_get [OF ok rep] ports_okD(2) [OF ok fail] by simp
  then show "\<forall>ctx'. Rebuild r ctx' t w4 = Some (Inl (Errorf ''rebuild already in progress''), w4)"
    using assms(2) by (simp add: Rebuild_def)
qed

theorem rebuild_flip_failure_wedges_witness:
  "\<exists>e w4. Rebuild (row_ports 1 [demo_env]) background ''acme'' (live_row, 0) = Some (Inl e, w4)
    \<and> Rebuild (row_ports 1 [demo_env]) background ''acme'' w4 =
        Some (Inl (Errorf ''rebuild already in progress''), w4)"
proof -
  let ?r = "row_ports 1 [demo_env]" and ?c = "background\<lparr>cv_tenant := Some ''acme''\<rparr>"
  let ?b = "live_row\<lparr>ps_status := ''building''\<rparr>"
  have "Rebuild ?r background ''acme'' (live_row, 0) = Some (Inl (Errorf ''database unavailable''), (?b, 2))
    \<and> (\<forall>ctx'. Rebuild ?r ctx' ''acme'' (?b, 2) = Some (Inl (Errorf ''rebuild already in progress''), (?b, 2)))"
    by (rule rebuild_flip_failure_wedges [OF row_ports_ok, of 1 "[demo_env]" "(live_row, 0)" "''acme''" live_row
          "(?b, 1)" background ?c "(?b, 1)" "(?b, 1)"]) (simp_all add: rebuild_eval)
  then show ?thesis by blast
qed

section \<open>Reconcile: facts and properties\<close>

lemma All_members: "wf_registry r \<Longrightarrow> (ent \<in> set (All r)) = (Get r (es_name (e_spec ent)) = Some ent)"
proof -
  assume wf: "wf_registry r"
  then have map: "wf_map (r_entities r)"
    and name: "\<And>n. mget (r_entities r) n = Some ent \<Longrightarrow> es_name (e_spec ent) = n"
    by (simp_all add: wf_registry_def)
  have "(ent \<in> set (All r)) = (\<exists>n. (n, ent) \<in> set (r_entities r))"
    by (force simp: All_def)
  also have "\<dots> = (\<exists>n. mget (r_entities r) n = Some ent)"
    by (simp add: mget_in_set [OF map])
  also have "\<dots> = (Get r (es_name (e_spec ent)) = Some ent)"
    unfolding Get_def using name by blast
  finally show ?thesis .
qed

lemma All_names_distinct:
  assumes "wf_registry r"
  shows "distinct (map (\<lambda>e. es_name (e_spec e)) (All r))"
proof -
  have eq: "map (\<lambda>ne. es_name (e_spec (snd ne))) (r_entities r) = map fst (r_entities r)"
    using assms by (auto simp: wf_registry_def mget_in_set)
  have "distinct (map (\<lambda>ne. es_name (e_spec (snd ne))) (r_entities r))"
    unfolding eq using assms by (simp add: wf_registry_def wf_map_def)
  then have "distinct (map (\<lambda>e. es_name (e_spec e)) (map snd (r_entities r)))"
    by (simp add: comp_def)
  then show ?thesis
    unfolding All_def by (rule distinct_map_sort_key)
qed

definition reconciled :: "Reconciler \<Rightarrow> Entity \<Rightarrow> bool" where
  "reconciled r ent = (es_kind (e_spec ent) = KindAggregate
     \<and> (case rc_include r of None \<Rightarrow> True | Some f \<Rightarrow> f ent))"

text \<open>One drifted aggregate: missing or stale in the projection, or a zombie there.\<close>

definition is_drift :: "int gomap \<Rightarrow> int gomap \<Rightarrow> string \<Rightarrow> int \<Rightarrow> int \<Rightarrow> bool" where
  "is_drift truth projected i tv pv =
     ((mget truth i = Some tv \<and> pv = mget_or 0 projected i \<and> pv < tv)
      \<or> (mget truth i = None \<and> tv = 0 \<and> mget projected i = Some pv))"

lemma entity_drifts_set:
  assumes "wf_map truth" and "wf_map projected"
  shows "(d \<in> set (entity_drifts name truth projected)) =
    (dr_entity d = name \<and> is_drift truth projected (dr_aggid d) (dr_truth d) (dr_projected d))"
  using assms
  by (cases d) (auto simp: entity_drifts_def is_drift_def mget_in_set [symmetric] image_iff)

lemma entity_drifts_distinct:
  assumes "wf_map truth" and "wf_map projected"
  shows "distinct (map dr_aggid (entity_drifts name truth projected))"
proof -
  have "distinct (map fst (filter P m))" if "wf_map m" for P and m :: "int gomap"
    using that by (simp add: wf_map_def distinct_map_filter)
  moreover have "fst ` set (filter (\<lambda>(i, tv). mget_or 0 projected i < tv) truth)
      \<inter> fst ` set (filter (\<lambda>(i, pv). mget truth i = None) projected) = {}"
    by (force simp: mget_None_iff)
  ultimately show ?thesis
    using assms by (simp add: entity_drifts_def comp_def split_beta image_image)
qed

lemma collect_drifts_spec:
  assumes "collect_drifts r t ents = Inr ds" and "distinct (map (\<lambda>e. es_name (e_spec e)) ents)"
    and wf: "\<forall>n m. rc_truth r t n = Inr m \<longrightarrow> wf_map m" "\<forall>e m. rc_projected r t e = Inr m \<longrightarrow> wf_map m"
  shows "(d \<in> set ds) = (\<exists>ent \<in> set ents. \<exists>truth projected. reconciled r ent
      \<and> rc_truth r t (es_name (e_spec ent)) = Inr truth \<and> rc_projected r t ent = Inr projected
      \<and> dr_entity d = es_name (e_spec ent)
      \<and> is_drift truth projected (dr_aggid d) (dr_truth d) (dr_projected d))
    \<and> distinct (map (\<lambda>d. (dr_entity d, dr_aggid d)) ds)"
  using assms(1,2)
proof (induction ents arbitrary: ds d)
  case Nil
  then show ?case by simp
next
  case (Cons ent ents)
  show ?case
  proof (cases "reconciled r ent")
    case False
    with Cons show ?thesis by (auto simp: reconciled_def split: if_splits option.splits)
  next
    case True
    with Cons.prems obtain truth projected ds1 where t: "rc_truth r t (es_name (e_spec ent)) = Inr truth"
      "rc_projected r t ent = Inr projected" "collect_drifts r t ents = Inr ds1"
      and ds: "ds = entity_drifts (es_name (e_spec ent)) truth projected @ ds1"
      by (auto simp: reconciled_def split: if_splits option.splits sum.splits)
    note w = wf(1) [rule_format, OF t(1)] wf(2) [rule_format, OF t(2)]
    note IH = Cons.IH [where d = d, OF t(3)]
    have names: "dr_entity x = es_name (e_spec ent)" if "x \<in> set (entity_drifts (es_name (e_spec ent)) truth projected)" for x
      using that entity_drifts_set [OF w] by blast
    have other: "dr_entity x \<noteq> es_name (e_spec ent)" if "x \<in> set ds1" for x
      using that Cons.IH [where d = x, OF t(3)] Cons.prems(2) by force
    have "distinct (map (\<lambda>d. (dr_entity d, dr_aggid d)) (entity_drifts (es_name (e_spec ent)) truth projected))"
      using entity_drifts_distinct [OF w] by (auto simp: distinct_map inj_on_def)
    moreover have "(\<lambda>d. (dr_entity d, dr_aggid d)) x \<noteq> (\<lambda>d. (dr_entity d, dr_aggid d)) y"
      if "x \<in> set (entity_drifts (es_name (e_spec ent)) truth projected)" "y \<in> set ds1" for x y
      using names [OF that(1)] other [OF that(2)] by simp
    then have "set (map (\<lambda>d. (dr_entity d, dr_aggid d)) (entity_drifts (es_name (e_spec ent)) truth projected))
        \<inter> set (map (\<lambda>d. (dr_entity d, dr_aggid d)) ds1) = {}"
      unfolding set_map by blast
    ultimately have "distinct (map (\<lambda>d. (dr_entity d, dr_aggid d)) ds)"
      using IH Cons.prems(2) by (simp add: ds del: set_map)
    moreover have "(d \<in> set ds) = (\<exists>e \<in> set (ent # ents). \<exists>truth projected. reconciled r e
      \<and> rc_truth r t (es_name (e_spec e)) = Inr truth \<and> rc_projected r t e = Inr projected
      \<and> dr_entity d = es_name (e_spec e)
      \<and> is_drift truth projected (dr_aggid d) (dr_truth d) (dr_projected d))"
      using IH Cons.prems(2) entity_drifts_set [OF w] t True by (auto simp: ds)
    ultimately show ?thesis by blast
  qed
qed

text \<open>
  C21.  Reconciliation reports exactly the drift: with all reads succeeding, an aggregate
  appears in the result if and only if its entity is reconciled and it is missing or stale
  in the projection, or exists there without a row; the report is strictly ordered by entity
  and id, so no aggregate is reported twice.
\<close>

theorem Reconcile_exact:
  assumes reg: "wf_registry (rc_registry r)"
    and wf: "\<forall>n m. rc_truth r t n = Inr m \<longrightarrow> wf_map m" "\<forall>e m. rc_projected r t e = Inr m \<longrightarrow> wf_map m"
    and ok: "snd (Reconcile r t False) = None"
  shows "(\<forall>d. (d \<in> set (fst (Reconcile r t repair))) =
      (\<exists>ent truth projected. Get (rc_registry r) (dr_entity d) = Some ent \<and> reconciled r ent
        \<and> rc_truth r t (dr_entity d) = Inr truth \<and> rc_projected r t ent = Inr projected
        \<and> is_drift truth projected (dr_aggid d) (dr_truth d) (dr_projected d)))
    \<and> sorted_wrt (<) (map (\<lambda>d. (dr_entity d, dr_aggid d)) (fst (Reconcile r t repair)))"
proof -
  obtain ds where ds: "collect_drifts r t (All (rc_registry r)) = Inr ds"
    using ok by (auto simp: Reconcile_def split: sum.splits)
  have fst: "fst (Reconcile r t repair) = sort_key (\<lambda>d. (dr_entity d, dr_aggid d)) ds"
    by (simp add: Reconcile_def ds Let_def)
  note spec = collect_drifts_spec [OF ds All_names_distinct [OF reg] wf]
  have name: "es_name (e_spec ent) = n" if "Get (rc_registry r) n = Some ent" for n ent
    using that reg by (simp add: wf_registry_def Get_def)
  have "(d \<in> set ds) = (\<exists>ent truth projected. Get (rc_registry r) (dr_entity d) = Some ent \<and> reconciled r ent
        \<and> rc_truth r t (dr_entity d) = Inr truth \<and> rc_projected r t ent = Inr projected
        \<and> is_drift truth projected (dr_aggid d) (dr_truth d) (dr_projected d))"
    (is "_ = ?R") for d
  proof
    assume "d \<in> set ds"
    with spec [where d = d] All_members [OF reg] show ?R by auto
  next
    assume ?R
    then obtain ent truth projected where e: "Get (rc_registry r) (dr_entity d) = Some ent" "reconciled r ent"
      "rc_truth r t (dr_entity d) = Inr truth" "rc_projected r t ent = Inr projected"
      "is_drift truth projected (dr_aggid d) (dr_truth d) (dr_projected d)" by blast
    moreover from e(1) have "ent \<in> set (All (rc_registry r))" "es_name (e_spec ent) = dr_entity d"
      using name All_members [OF reg] by auto
    ultimately show "d \<in> set ds" using spec [where d = d] by auto
  qed
  moreover have "sorted_wrt (<) (map (\<lambda>d. (dr_entity d, dr_aggid d)) (fst (Reconcile r t repair)))"
    unfolding fst strict_sorted_iff by (simp add: distinct_map_sort_key [OF spec [THEN conjunct2]])
  ultimately show ?thesis by (simp add: fst)
qed

definition widget_truth :: Reconciler where
  "widget_truth = \<lparr>rc_registry = (case Register (\<lambda>t. Inl (Errorf ''no model'')) (New []) widget_spec of
       Inl e \<Rightarrow> New [] | Inr r \<Rightarrow> r), rc_include = None,
     rc_truth = (\<lambda>t n. Inr [(''w1'', 4), (''w2'', 1)]), rc_projected = (\<lambda>t e. Inr [(''w1'', 3), (''w3'', 2)]),
     rc_repair = None\<rparr>"

theorem Reconcile_exact_witness:
  "\<lparr>dr_entity = ''widget'', dr_aggid = ''w1'', dr_truth = 4, dr_projected = 3\<rparr>
     \<in> set (fst (Reconcile widget_truth ''acme'' False))
   \<and> sorted_wrt (<) (map (\<lambda>d. (dr_entity d, dr_aggid d)) (fst (Reconcile widget_truth ''acme'' False)))"
proof -
  obtain ent where ent: "Get (rc_registry widget_truth) ''widget'' = Some ent" "reconciled widget_truth ent"
    and ok: "snd (Reconcile widget_truth ''acme'' False) = None"
    by (simp add: widget_truth_def Reconcile_def All_def Get_def reconciled_def registry_eval)
  have "\<exists>r. Register (\<lambda>t. Inl (Errorf ''no model'')) (New []) widget_spec = Inr r"
    by (simp add: registry_eval)
  moreover have "wf_registry (New [])" by (simp add: New_def wf_registry_def)
  ultimately have reg: "wf_registry (rc_registry widget_truth)"
    using Register_wf by (auto simp: widget_truth_def)
  have wf: "\<forall>n m. rc_truth widget_truth ''acme'' n = Inr m \<longrightarrow> wf_map m"
    "\<forall>e m. rc_projected widget_truth ''acme'' e = Inr m \<longrightarrow> wf_map m"
    by (auto simp: widget_truth_def wf_map_def)
  from Reconcile_exact [OF reg wf ok, of False] ent show ?thesis
    by (simp add: widget_truth_def is_drift_def mget_or_def)
qed

end
