(* ===== verification/FakeSink.thy ===== *)
theory FakeSink
  imports Rebuild FakeStore
begin

text \<open>
  The in-memory projection sinks of \<^verbatim>\<open>core/fabriqtest/fakes.go\<close>: the property graph,
  the search index and the applied-version watermark.  They share one contract, the locale
  \<open>version_gated\<close>: an upsert takes effect exactly when it is newer than what is stored.
  Its consequence - upserts converge in any order, with any repetition - is proved once
  there and interpreted on the three sinks.
\<close>

section \<open>The property graph\<close>

record FakeNode =
  fn_props :: vals
  fn_version :: int

record edgeKey =
  ek_rel :: string
  ek_fromlabel :: string
  ek_fromid :: string
  ek_tolabel :: string
  ek_toid :: string

record memGraph =
  mg_nodes :: "FakeNode gomap gomap"
  mg_edges :: "(edgeKey \<times> int) list"

type_synonym FakeGraph = "memGraph gomap"

definition node_upsert :: "memGraph \<Rightarrow> string \<Rightarrow> string \<Rightarrow> vals \<Rightarrow> int \<Rightarrow> memGraph" where
  "node_upsert mg label i props version =
     (let byID = mget_or [] (mg_nodes mg) label
      in if (case mget byID i of None \<Rightarrow> False | Some cur \<Rightarrow> fn_version cur \<ge> version)
         then mg\<lparr>mg_nodes := mput label byID (mg_nodes mg)\<rparr>
         else mg\<lparr>mg_nodes := mput label (mput i \<lparr>fn_props = props, fn_version = version\<rparr> byID) (mg_nodes mg)\<rparr>)"

definition edge_upsert :: "memGraph \<Rightarrow> edgeKey \<Rightarrow> int \<Rightarrow> memGraph" where
  "edge_upsert mg k version =
     (if (case mget (mg_edges mg) k of None \<Rightarrow> False | Some cur \<Rightarrow> cur \<ge> version) then mg
      else mg\<lparr>mg_edges := mput k version
             (filter (\<lambda>(old, v). \<not> (ek_rel old = ek_rel k \<and> ek_fromlabel old = ek_fromlabel k
                \<and> ek_fromid old = ek_fromid k)) (mg_edges mg))\<rparr>)"

definition node_delete :: "memGraph \<Rightarrow> string \<Rightarrow> string \<Rightarrow> memGraph" where
  "node_delete mg label i =
     mg\<lparr>mg_nodes := (case mget (mg_nodes mg) label of None \<Rightarrow> mg_nodes mg
                     | Some byID \<Rightarrow> mput label (mdel i byID) (mg_nodes mg)),
        mg_edges := filter (\<lambda>(k, v). \<not> ((ek_fromlabel k = label \<and> ek_fromid k = i)
                     \<or> (ek_tolabel k = label \<and> ek_toid k = i))) (mg_edges mg)\<rparr>"

definition edge_delete :: "memGraph \<Rightarrow> string \<Rightarrow> string \<Rightarrow> string \<Rightarrow> memGraph" where
  "edge_delete mg rel fromLabel fromID =
     mg\<lparr>mg_edges := filter (\<lambda>(k, v). \<not> (ek_rel k = rel \<and> ek_fromlabel k = fromLabel
        \<and> ek_fromid k = fromID)) (mg_edges mg)\<rparr>"

fun graph_mutation :: "memGraph \<Rightarrow> Mutation \<Rightarrow> gerr + memGraph" where
  "graph_mutation mg (NodeUpsert label extra i props v) = Inr (node_upsert mg label i props v)"
| "graph_mutation mg (EdgeUpsert rel fl fi tol toi v) =
     Inr (edge_upsert mg \<lparr>ek_rel = rel, ek_fromlabel = fl, ek_fromid = fi, ek_tolabel = tol, ek_toid = toi\<rparr> v)"
| "graph_mutation mg (NodeDelete label i) = Inr (node_delete mg label i)"
| "graph_mutation mg (EdgeDelete rel fl fi v) = Inr (edge_delete mg rel fl fi)"
| "graph_mutation mg (DocIndex idx i d v) = Inl (Errorf ''search mutations sent to the graph port'')"
| "graph_mutation mg (DocDeindex idx i v) = Inl (Errorf ''search mutations sent to the graph port'')"
| "graph_mutation mg (RelUpsert i t fl fi tol toi p v) = Inl (Errorf ''unknown mutation'')"
| "graph_mutation mg (RelDelete i v) = Inl (Errorf ''unknown mutation'')"

fun graph_mutations :: "memGraph \<Rightarrow> Mutation list \<Rightarrow> gerr option \<times> memGraph" where
  "graph_mutations mg [] = (None, mg)"
| "graph_mutations mg (m # ms) =
     (case graph_mutation mg m of Inl e \<Rightarrow> (Some e, mg) | Inr mg' \<Rightarrow> graph_mutations mg' ms)"

definition empty_graph :: memGraph where
  "empty_graph = \<lparr>mg_nodes = [], mg_edges = []\<rparr>"

definition FakeGraph_ApplyMutations ::
  "FakeGraph \<Rightarrow> gctx \<Rightarrow> string \<Rightarrow> Mutation list \<Rightarrow> gerr option \<times> FakeGraph" where
  "FakeGraph_ApplyMutations g ctx target muts =
     (case (if target = [] then (case Require ctx of Inl e \<Rightarrow> Inl e | Inr tid \<Rightarrow> Inr (GraphName tid))
            else Inr target) of
        Inl e \<Rightarrow> (Some e, g)
      | Inr name \<Rightarrow>
          (case graph_mutations (mget_or empty_graph g name) muts of (e, mg) \<Rightarrow> (e, mput name mg g)))"

definition Node :: "FakeGraph \<Rightarrow> string \<Rightarrow> string \<Rightarrow> string \<Rightarrow> FakeNode option" where
  "Node g target label i =
     (case mget g target of None \<Rightarrow> None | Some mg \<Rightarrow> mget (mget_or [] (mg_nodes mg) label) i)"

definition HasEdge :: "FakeGraph \<Rightarrow> string \<Rightarrow> edgeKey \<Rightarrow> bool" where
  "HasEdge g target k = (case mget g target of None \<Rightarrow> False | Some mg \<Rightarrow> mget (mg_edges mg) k \<noteq> None)"

section \<open>The search index\<close>

record searchDoc =
  sd_doc :: vals
  sd_version :: int

type_synonym FakeSearch = "searchDoc gomap gomap"

definition doc_index :: "FakeSearch \<Rightarrow> string \<Rightarrow> string \<Rightarrow> vals \<Rightarrow> int \<Rightarrow> FakeSearch" where
  "doc_index s index i doc version =
     (let docs = mget_or [] s index
      in if (case mget docs i of None \<Rightarrow> False | Some cur \<Rightarrow> sd_version cur \<ge> version)
         then mput index docs s
         else mput index (mput i \<lparr>sd_doc = doc, sd_version = version\<rparr> docs) s)"

fun search_mutation :: "FakeSearch \<Rightarrow> Mutation \<Rightarrow> gerr + FakeSearch" where
  "search_mutation s (DocIndex index i doc v) = Inr (doc_index s index i doc v)"
| "search_mutation s (DocDeindex index i v) =
     Inr (case mget s index of None \<Rightarrow> s | Some docs \<Rightarrow> mput index (mdel i docs) s)"
| "search_mutation s _ = Inl (Errorf ''non-search mutation sent to the search port'')"

fun FakeSearch_ApplyMutations ::
  "FakeSearch \<Rightarrow> gctx \<Rightarrow> string \<Rightarrow> Mutation list \<Rightarrow> gerr option \<times> FakeSearch" where
  "FakeSearch_ApplyMutations s ctx target [] = (None, s)"
| "FakeSearch_ApplyMutations s ctx target (m # ms) =
     (case search_mutation s m of
        Inl e \<Rightarrow> (Some e, s)
      | Inr s' \<Rightarrow> FakeSearch_ApplyMutations s' ctx target ms)"

section \<open>The applied watermark\<close>

type_synonym FakeProjectionState = "int gomap"

definition stateKey :: "string \<Rightarrow> string \<Rightarrow> string \<Rightarrow> string \<Rightarrow> string" where
  "stateKey tenantID proj aggregate aggID =
     tenantID @ ''|'' @ proj @ ''|'' @ aggregate @ ''|'' @ aggID"

definition SetApplied ::
  "FakeProjectionState \<Rightarrow> gctx \<Rightarrow> string \<Rightarrow> string \<Rightarrow> string \<Rightarrow> string \<Rightarrow> int
     \<Rightarrow> gerr option \<times> FakeProjectionState" where
  "SetApplied f ctx tenantID proj aggregate aggID version =
     (let k = stateKey tenantID proj aggregate aggID
      in (None, if version > mget_or 0 f k then mput k version f else f))"

definition AppliedVersion :: "FakeProjectionState \<Rightarrow> string \<Rightarrow> string \<Rightarrow> string \<Rightarrow> string \<Rightarrow> int" where
  "AppliedVersion f tenantID proj aggregate aggID = mget_or 0 f (stateKey tenantID proj aggregate aggID)"

section \<open>Version gating\<close>

definition gate :: "(int \<times> 'v) option \<Rightarrow> int \<Rightarrow> 'v \<Rightarrow> (int \<times> 'v) option" where
  "gate cur v c = (case cur of Some (n, d) \<Rightarrow> (if v \<le> n then Some (n, d) else Some (v, c)) | None \<Rightarrow> Some (v, c))"

locale version_gated =
  fixes put :: "'m \<Rightarrow> 's \<Rightarrow> 's" and look :: "'s \<Rightarrow> 'k \<Rightarrow> (int \<times> 'v) option"
    and key :: "'m \<Rightarrow> 'k" and ver :: "'m \<Rightarrow> int" and content :: "'m \<Rightarrow> 'v"
  assumes look_put: "look (put m s) k = (if k = key m then gate (look s k) (ver m) (content m) else look s k)"
begin

text \<open>What is stored never gets older.\<close>

lemma version_mono:
  "look s k = Some (n, c) \<Longrightarrow> \<exists>n' c'. look (fold put ms s) k = Some (n', c') \<and> n \<le> n'"
proof (induction ms arbitrary: s n c)
  case Nil
  then show ?case by simp
next
  case (Cons m ms)
  have "\<exists>n1 c1. look (put m s) k = Some (n1, c1) \<and> n \<le> n1"
    using Cons.prems by (auto simp: look_put gate_def)
  then obtain n1 c1 where "look (put m s) k = Some (n1, c1)" "n \<le> n1" by blast
  with Cons.IH [of "put m s" n1 c1] show ?case by fastforce
qed

text \<open>The result of a run of upserts on a fresh key: its newest member.\<close>

lemma look_fold:
  assumes "look s k = None"
  shows "(look (fold put ms s) k = None) = (\<forall>m \<in> set ms. key m \<noteq> k)"
    "look (fold put ms s) k = Some (n, c) \<Longrightarrow>
       (\<exists>m \<in> set ms. key m = k \<and> ver m = n \<and> content m = c) \<and> (\<forall>m \<in> set ms. key m = k \<longrightarrow> ver m \<le> n)"
proof (induction ms arbitrary: n c rule: rev_induct)
  case Nil
  {
    case 1
    then show ?case using assms by simp
  next
    case 2
    then show ?case using assms by simp
  }
next
  case (snoc m ms)
  {
    case 1
    then show ?case using snoc(1) by (auto simp: look_put gate_def split: option.splits)
  next
    case 2
    then show ?case
      using snoc(1) snoc(2)
      by (cases "key m = k"; cases "look (fold put ms s) k") (auto simp: look_put gate_def split: if_splits, fastforce)
  }
qed

lemma converges:
  assumes "look s k = None" and "set ms = set ms'"
    and "\<forall>m \<in> set ms. \<forall>m' \<in> set ms. key m = key m' \<and> ver m = ver m' \<longrightarrow> content m = content m'"
  shows "look (fold put ms s) k = look (fold put ms' s) k"
proof (cases "look (fold put ms s) k")
  case None
  then show ?thesis using look_fold(1) [OF assms(1)] assms(2) by metis
next
  case (Some nc)
  obtain n c where nc: "nc = (n, c)" by fastforce
  have "look (fold put ms' s) k \<noteq> None"
    using look_fold(1) [OF assms(1)] assms(2) Some by (metis option.distinct(1))
  then obtain n' c' where nc': "look (fold put ms' s) k = Some (n', c')" by auto
  note a = look_fold(2) [OF assms(1) Some [unfolded nc]]
  note b = look_fold(2) [OF assms(1) nc', folded assms(2)]
  from a b have "n = n'" by (metis order_antisym)
  with a b assms(3) have "c = c'" by metis
  with \<open>n = n'\<close> Some nc nc' show ?thesis by simp
qed

end

text \<open>The three sinks are gated.\<close>

definition node_look :: "memGraph \<Rightarrow> string \<times> string \<Rightarrow> (int \<times> vals) option" where
  "node_look mg k = map_option (\<lambda>n. (fn_version n, fn_props n)) (mget (mget_or [] (mg_nodes mg) (fst k)) (snd k))"

definition doc_look :: "FakeSearch \<Rightarrow> string \<times> string \<Rightarrow> (int \<times> vals) option" where
  "doc_look s k = map_option (\<lambda>d. (sd_version d, sd_doc d)) (mget (mget_or [] s (fst k)) (snd k))"

interpretation nodes: version_gated
  "\<lambda>(label, i, props, v) mg. node_upsert mg label i props v" node_look
  "\<lambda>(label, i, props, v). (label, i)" "\<lambda>(label, i, props, v). v" "\<lambda>(label, i, props, v). props"
  by unfold_locales
    (auto simp: node_upsert_def node_look_def Let_def gate_def split: option.splits prod.splits)

interpretation docs: version_gated
  "\<lambda>(index, i, doc, v) s. doc_index s index i doc v" doc_look
  "\<lambda>(index, i, doc, v). (index, i)" "\<lambda>(index, i, doc, v). v" "\<lambda>(index, i, doc, v). doc"
  by unfold_locales
    (auto simp: doc_index_def doc_look_def Let_def gate_def split: option.splits prod.splits)

interpretation watermark: version_gated
  "\<lambda>(t, p, a, i, v) f. snd (SetApplied f background t p a i v)" "\<lambda>f k. Some (mget_or 0 f k, ())"
  "\<lambda>(t, p, a, i, v). stateKey t p a i" "\<lambda>(t, p, a, i, v). v" "\<lambda>(t, p, a, i, v). ()"
  by unfold_locales (auto simp: SetApplied_def Let_def gate_def split: prod.splits)

section \<open>Delivery to the search index\<close>

definition search_engine :: "Registry \<Rightarrow> (FakeSearch, FakeProjectionState) Engine" where
  "search_engine reg = \<lparr>en_projection = ''search'', en_sink = FakeSearch_ApplyMutations,
     en_applier = SearchApplier reg, en_custom = [], en_upcasters = None, en_setapplied = SetApplied,
     en_targets = None, en_observed = False\<rparr>"

text \<open>A run of deliveries; a delivery that fails or panics ends it.\<close>

fun deliver :: "('g, 'a) Engine \<Rightarrow> gctx \<Rightarrow> 'g \<Rightarrow> 'a \<Rightarrow> Envelope list \<Rightarrow> ('g \<times> 'a) option" where
  "deliver e ctx g a [] = Some (g, a)"
| "deliver e ctx g a (env # envs) =
     (case handle e ctx g a env of Some (None, g', a', obs) \<Rightarrow> deliver e ctx g' a' envs | _ \<Rightarrow> None)"

text \<open>The upserts and the watermarks that a stream of events owes the index.\<close>

definition applies :: "Registry \<Rightarrow> Envelope \<Rightarrow> bool" where
  "applies reg env = (Valid (ev_tenant env) \<and> (\<exists>ms. SearchApplier reg env = Some (Inr ms)))"

definition doc_upserts :: "Registry \<Rightarrow> Envelope \<Rightarrow> (string \<times> string \<times> vals \<times> int) list" where
  "doc_upserts reg env =
     (if applies reg env
      then (case SearchApplier reg env of Some (Inr [DocIndex index i doc v]) \<Rightarrow> [(index, i, doc, v)] | _ \<Rightarrow> [])
      else [])"

definition watermarks :: "Registry \<Rightarrow> Envelope \<Rightarrow> (string \<times> string \<times> string \<times> string \<times> int) list" where
  "watermarks reg env =
     (if applies reg env then [(ev_tenant env, ''search'', ev_aggregate env, ev_aggid env, ev_version env)] else [])"

abbreviation put_doc :: "string \<times> string \<times> vals \<times> int \<Rightarrow> FakeSearch \<Rightarrow> FakeSearch" where
  "put_doc \<equiv> \<lambda>(index, i, doc, v) s. doc_index s index i doc v"

abbreviation put_mark ::
  "string \<times> string \<times> string \<times> string \<times> int \<Rightarrow> FakeProjectionState \<Rightarrow> FakeProjectionState" where
  "put_mark \<equiv> \<lambda>(t, p, a, i, v) f. snd (SetApplied f background t p a i v)"

lemma SearchApplier_shape:
  assumes "eventVerb (ev_type env) \<noteq> VerbDeleted"
  shows "(\<exists>e. SearchApplier reg env = Some (Inl e)) \<or> SearchApplier reg env = Some (Inr [])
    \<or> (\<exists>index i doc v. SearchApplier reg env = Some (Inr [DocIndex index i doc v]))"
  using assms by (auto simp: SearchApplier_def Let_def split: option.splits sum.splits if_splits)

lemma handle_search:
  assumes "eventVerb (ev_type env) \<noteq> VerbDeleted"
  shows "handle (search_engine reg) ctx g a env =
    Some (None, fold put_doc (doc_upserts reg env) g, fold put_mark (watermarks reg env) a, [])"
proof (cases "Valid (ev_tenant env)")
  case False
  with SearchApplier_shape [OF assms, of reg] show ?thesis
    by (auto simp: handle_def search_engine_def ApplyChain_def applies_def doc_upserts_def
        watermarks_def WithTenant_def)
next
  case True
  from SearchApplier_shape [OF assms, of reg] consider
    (err) e where "SearchApplier reg env = Some (Inl e)"
    | (none) "SearchApplier reg env = Some (Inr [])"
    | (doc) index i doc v where "SearchApplier reg env = Some (Inr [DocIndex index i doc v])"
    by blast
  then show ?thesis
    using True
    by cases (simp_all add: handle_def search_engine_def ApplyChain_def applies_def doc_upserts_def
        watermarks_def WithTenant_def Engine_apply_def SetApplied_def Let_def)
qed

lemma deliver_search:
  assumes "\<forall>env \<in> set envs. eventVerb (ev_type env) \<noteq> VerbDeleted"
  shows "deliver (search_engine reg) ctx g a envs =
    Some (fold put_doc (concat (map (doc_upserts reg) envs)) g,
          fold put_mark (concat (map (watermarks reg) envs)) a)"
  using assms by (induction envs arbitrary: g a) (simp_all add: handle_search)


section \<open>Nodes of the property graph\<close>

fun node_puts :: "Mutation \<Rightarrow> (string \<times> string \<times> vals \<times> int) list" where
  "node_puts (NodeUpsert label extra i props v) = [(label, i, props, v)]"
| "node_puts _ = []"

fun graph_upsert :: "Mutation \<Rightarrow> bool" where
  "graph_upsert (NodeUpsert label extra i props v) = True"
| "graph_upsert (EdgeUpsert rel fl fi tol toi v) = True"
| "graph_upsert (EdgeDelete rel fl fi v) = True"
| "graph_upsert _ = False"

abbreviation put_node :: "string \<times> string \<times> vals \<times> int \<Rightarrow> memGraph \<Rightarrow> memGraph" where
  "put_node \<equiv> \<lambda>(label, i, props, v) mg. node_upsert mg label i props v"

lemma node_look_edges [simp]: "node_look (mg\<lparr>mg_edges := es\<rparr>) = node_look mg"
  by (auto simp: node_look_def)

lemma node_upsert_edges: "node_look (node_upsert (mg\<lparr>mg_edges := es\<rparr>) l i p v) = node_look (node_upsert mg l i p v)"
  by (auto simp: node_upsert_def Let_def node_look_def)

lemma node_look_put_cong: "node_look mg = node_look mg' \<Longrightarrow> node_look (put_node m mg) = node_look (put_node m mg')"
  by (rule ext) (simp add: nodes.look_put)

lemma node_look_fold_cong:
  "node_look mg = node_look mg' \<Longrightarrow> node_look (fold put_node ms mg) = node_look (fold put_node ms mg')"
proof (induction ms arbitrary: mg mg')
  case Nil
  then show ?case by simp
next
  case (Cons m ms)
  from Cons.IH [OF node_look_put_cong [OF Cons.prems]] show ?case by simp
qed

lemma graph_mutation_nodes:
  assumes "graph_upsert m"
  shows "\<exists>mg'. graph_mutation mg m = Inr mg' \<and> node_look mg' = node_look (fold put_node (node_puts m) mg)"
  using assms by (cases m) (auto simp: edge_upsert_def edge_delete_def)

lemma graph_mutations_nodes:
  assumes "\<forall>m \<in> set ms. graph_upsert m"
  shows "fst (graph_mutations mg ms) = None
    \<and> node_look (snd (graph_mutations mg ms)) = node_look (fold put_node (concat (map node_puts ms)) mg)"
  using assms
proof (induction ms arbitrary: mg)
  case Nil
  then show ?case by simp
next
  case (Cons m ms)
  then obtain mg' where m: "graph_mutation mg m = Inr mg'"
    and same: "node_look mg' = node_look (fold put_node (node_puts m) mg)"
    using graph_mutation_nodes [of m mg] by auto
  from Cons.IH [of mg'] Cons.prems m node_look_fold_cong [OF same, of "concat (map node_puts ms)"]
  show ?case by simp
qed


text \<open>
   Edges are not gated by their source's version: when a source's relationship has
  moved to a new target, a stale event with another target still replaces the newer edge.
\<close>

theorem stale_edge_replaces_newer:
  assumes "v < w" and "toi \<noteq> toi'"
  shows "mg_edges (snd (graph_mutations empty_graph
      [EdgeUpsert rel fl fi tol toi w, EdgeUpsert rel fl fi tol toi' v])) =
    [(\<lparr>ek_rel = rel, ek_fromlabel = fl, ek_fromid = fi, ek_tolabel = tol, ek_toid = toi'\<rparr>, v)]"
  using assms by (simp add: edge_upsert_def empty_graph_def)

section \<open>Witnesses\<close>

definition widget_v4 :: Envelope where
  "widget_v4 = demo_env\<lparr>ev_version := 4, ev_payload := RawJson (JObj [(''name'', JStr ''nut'')])\<rparr>"

lemmas applier_eval = SearchApplier_def Get_def search_doc_def decodePayload_def eventVerb_def after_last_def
  nil_map_def go_map_of_def demo_env_def widget_v4_def widget_reg_def Valid_def id_char_def is_upper_def
  VerbDeleted_def VerbCreated_def VerbUpdated_def

lemma widget_upserts:
  "doc_upserts widget_reg demo_env = [(''widgets'', ''w1'', [(''name'', VStr ''bolt''), (''id'', VStr ''w1''),
     (''tenant_id'', VStr ''acme''), (''version'', VInt KInt64 3)], 3)]"
  "doc_upserts widget_reg widget_v4 = [(''widgets'', ''w1'', [(''name'', VStr ''nut''), (''id'', VStr ''w1''),
     (''tenant_id'', VStr ''acme''), (''version'', VInt KInt64 4)], 4)]"
  by (simp_all add: doc_upserts_def applies_def applier_eval registry_eval)

lemma widget_verbs:
  "eventVerb (ev_type demo_env) \<noteq> VerbDeleted" "eventVerb (ev_type widget_v4) \<noteq> VerbDeleted"
  by (simp_all add: eventVerb_def after_last_def demo_env_def widget_v4_def VerbDeleted_def)



theorem stale_edge_replaces_newer_witness:
  "mg_edges (snd (graph_mutations empty_graph
      [EdgeUpsert ''IN'' ''W'' ''w1'' ''S'' ''s2'' 5, EdgeUpsert ''IN'' ''W'' ''w1'' ''S'' ''s1'' 3])) =
    [(\<lparr>ek_rel = ''IN'', ek_fromlabel = ''W'', ek_fromid = ''w1'', ek_tolabel = ''S'', ek_toid = ''s1''\<rparr>, 3)]"
  by (rule stale_edge_replaces_newer) simp_all

section \<open>Engine\<close>



text \<open>
   Deriving graph mutations panics exactly for one shape of event: a created or
  updated event of a graph-node entity that carries a scope and whose payload is the JSON
  text null.  Every other event yields mutations or an error that the engine skips.
\<close>

theorem GraphApplier_panic_iff:
  "(GraphApplier reg env = None) =
    (\<exists>ent. Get reg (ev_aggregate env) = Some ent \<and> es_graphedge (e_spec ent) = None
      \<and> es_graphnode (e_spec ent) \<noteq> [] \<and> eventVerb (ev_type env) \<in> {VerbCreated, VerbUpdated}
      \<and> ev_scope env \<noteq> [] \<and> ev_payload env = RawJson JNull)"
proof -
  have nil: "(decodePayload env = Inr None) = (ev_payload env = RawJson JNull)"
    by (auto simp: decodePayload_def split: rawmsg.splits json.splits)
  have verbs: "VerbDeleted \<noteq> VerbCreated" "VerbDeleted \<noteq> VerbUpdated"
    by (simp_all add: VerbDeleted_def VerbCreated_def VerbUpdated_def)
  show ?thesis
    unfolding nil [symmetric] GraphApplier_def
    using verbs by (auto simp: Let_def split: option.splits sum.splits if_splits)
qed

end
