(* ===== verification/QueryFilter.thy ===== *)
theory QueryFilter
  imports Event
begin

text \<open>
  The engine-neutral filter language of \<^verbatim>\<open>core/query\<close> (\<^verbatim>\<open>filter.go\<close>), its
  validation against an entity's columns, the search query check that shares it
  (\<^verbatim>\<open>search.go\<close>) and the change notification of \<^verbatim>\<open>delta.go\<close>.
\<close>

section \<open>Operators and conditions\<close>

datatype qop = OpEq | OpNe | OpGt | OpGte | OpLt | OpLte | OpIn | OpNotIn | OpLike | OpILike
  | OpIsNull | OpIsNotNull | QOther string

definition qop_string :: "qop \<Rightarrow> string" where
  "qop_string op = (case op of
     OpEq \<Rightarrow> ''eq'' | OpNe \<Rightarrow> ''ne'' | OpGt \<Rightarrow> ''gt'' | OpGte \<Rightarrow> ''gte'' | OpLt \<Rightarrow> ''lt''
   | OpLte \<Rightarrow> ''lte'' | OpIn \<Rightarrow> ''in'' | OpNotIn \<Rightarrow> ''notin'' | OpLike \<Rightarrow> ''like''
   | OpILike \<Rightarrow> ''ilike'' | OpIsNull \<Rightarrow> ''isnull'' | OpIsNotNull \<Rightarrow> ''isnotnull'' | QOther s \<Rightarrow> s)"

text \<open>A condition is a leaf, or an OR group when its last component is not empty.\<close>

datatype Cond = Cond (fc_column: string) (fc_op: qop) (fc_value: gval) (fc_or: "Cond list")

type_synonym Where = "Cond list"

definition Eq :: "string \<Rightarrow> gval \<Rightarrow> Cond" where
  "Eq col v = Cond col OpEq v []"

definition Ne :: "string \<Rightarrow> gval \<Rightarrow> Cond" where
  "Ne col v = Cond col OpNe v []"

definition Gt :: "string \<Rightarrow> gval \<Rightarrow> Cond" where
  "Gt col v = Cond col OpGt v []"

definition Gte :: "string \<Rightarrow> gval \<Rightarrow> Cond" where
  "Gte col v = Cond col OpGte v []"

definition Lt :: "string \<Rightarrow> gval \<Rightarrow> Cond" where
  "Lt col v = Cond col OpLt v []"

definition Lte :: "string \<Rightarrow> gval \<Rightarrow> Cond" where
  "Lte col v = Cond col OpLte v []"

definition In :: "string \<Rightarrow> gval \<Rightarrow> Cond" where
  "In col vs = Cond col OpIn vs []"

definition NotIn :: "string \<Rightarrow> gval \<Rightarrow> Cond" where
  "NotIn col vs = Cond col OpNotIn vs []"

definition Like :: "string \<Rightarrow> string \<Rightarrow> Cond" where
  "Like col pat = Cond col OpLike (VStr pat) []"

definition ILike :: "string \<Rightarrow> string \<Rightarrow> Cond" where
  "ILike col pat = Cond col OpILike (VStr pat) []"

definition IsNull :: "string \<Rightarrow> Cond" where
  "IsNull col = Cond col OpIsNull VNil []"

definition IsNotNull :: "string \<Rightarrow> Cond" where
  "IsNotNull col = Cond col OpIsNotNull VNil []"

definition Or :: "Cond list \<Rightarrow> Cond" where
  "Or conds = Cond [] (QOther []) VNil conds"

definition Eqs :: "vals \<Rightarrow> Where" where
  "Eqs equalities = map (\<lambda>c. Eq c (mget_or VNil equalities c)) (sort (map fst equalities))"

definition IsGroup :: "Cond \<Rightarrow> bool" where
  "IsGroup c = (fc_or c \<noteq> [])"

definition NeedsValue :: "qop \<Rightarrow> bool" where
  "NeedsValue op = (op \<noteq> OpIsNull \<and> op \<noteq> OpIsNotNull)"

definition IsSet :: "qop \<Rightarrow> bool" where
  "IsSet op = (case op of QOther _ \<Rightarrow> False | _ \<Rightarrow> True)"

section \<open>Validation\<close>

lemma first_err_cong [fundef_cong]:
  "xs = ys \<Longrightarrow> (\<And>x. x \<in> set ys \<Longrightarrow> f x = g x) \<Longrightarrow> first_err f xs = first_err g ys"
  by (induction xs arbitrary: ys) (auto split: option.splits)

definition slice_len :: "gval \<Rightarrow> nat option" where
  "slice_len v = (case v of VSlice _ xs \<Rightarrow> Some (length xs) | _ \<Rightarrow> None)"

definition leaf_validate :: "(string \<Rightarrow> bool) \<Rightarrow> string \<Rightarrow> qop \<Rightarrow> gval \<Rightarrow> gerr option" where
  "leaf_validate has col op v =
     err_seq
       [fail_if (col = []) (Errorf ''filter condition with empty column''),
        fail_if (\<not> has col) (Errorf ''filter references unknown column''),
        fail_if (\<not> IsSet op) (Errorf ''unknown filter operator''),
        (if op = OpIn \<or> op = OpNotIn
         then (case slice_len v of
                 None \<Rightarrow> Some (Errorf ''operator needs a slice value'')
               | Some n \<Rightarrow> fail_if (n = 0) (Errorf ''operator needs a non-empty slice''))
         else if op = OpIsNull \<or> op = OpIsNotNull then None
         else fail_if (v = VNil) (Errorf ''operator needs a value''))]"

fun cond_validate :: "(string \<Rightarrow> bool) \<Rightarrow> Cond \<Rightarrow> gerr option" where
  "cond_validate has (Cond col op v ors) =
     (if ors \<noteq> [] then first_err (cond_validate has) ors else leaf_validate has col op v)"

definition ValidateConds :: "Cond list \<Rightarrow> (string \<Rightarrow> bool) \<Rightarrow> gerr option" where
  "ValidateConds conds has = first_err (cond_validate has) conds"

section \<open>Search queries\<close>

text \<open>\<^verbatim>\<open>strings.Fields\<close> on ASCII text: the maximal runs of non-space bytes.\<close>

definition is_space :: "char \<Rightarrow> bool" where
  "is_space c = (of_char c \<in> {9, 10, 11, 12, 13, 32 :: nat})"

function go_fields :: "string \<Rightarrow> string list" where
  "go_fields [] = []"
| "go_fields (c # cs) =
     (if is_space c then go_fields cs
      else (c # takeWhile (\<lambda>x. \<not> is_space x) cs) # go_fields (dropWhile (\<lambda>x. \<not> is_space x) cs))"
  by pat_completeness auto

termination
  by (relation "measure length") (auto simp: le_imp_less_Suc length_dropWhile_le)

definition SortField :: "string \<Rightarrow> string \<times> bool" where
  "SortField s =
     (case go_fields s of
        [] \<Rightarrow> ([], False)
      | p # ps \<Rightarrow>
          (p, (case ps of [] \<Rightarrow> False | d # _ \<Rightarrow> fold_name d = fold_name ''DESC'')))"

record SearchQuery =
  sq_entity :: string
  sq_query :: string
  sq_filter :: Where
  sq_sort :: string
  sq_limit :: int
  sq_offset :: int

definition searchIndexed :: "string list \<Rightarrow> string \<Rightarrow> bool" where
  "searchIndexed searchFields c = (c \<in> set ([ColumnID, ColumnTenant, ColumnVersion] @ searchFields))"

definition ValidateSearchQuery :: "SearchQuery \<Rightarrow> string list \<Rightarrow> gerr option" where
  "ValidateSearchQuery q searchFields =
     (case ValidateConds (sq_filter q) (searchIndexed searchFields) of
        Some e \<Rightarrow> Some e
      | None \<Rightarrow>
          if sq_sort q \<noteq> []
          then fail_if (\<not> searchIndexed searchFields (fst (SortField (sq_sort q))))
                 (Errorf ''search sort references unknown indexed column'')
          else None)"

section \<open>Change notifications\<close>

record Delta =
  dl_stream :: string
  dl_channel :: string
  dl_tenant :: string
  dl_aggregate :: string
  dl_aggid :: string
  dl_version :: int
  dl_type :: string
  dl_at :: "int \<times> nat"
  dl_payload :: rawmsg

definition DeltaFromEnvelope :: "string \<Rightarrow> string \<Rightarrow> Envelope \<Rightarrow> Delta" where
  "DeltaFromEnvelope channel streamID env =
     \<lparr>dl_stream = streamID, dl_channel = channel, dl_tenant = ev_tenant env,
      dl_aggregate = ev_aggregate env, dl_aggid = ev_aggid env, dl_version = ev_version env,
      dl_type = ev_type env, dl_at = ev_at env, dl_payload = ev_payload env\<rparr>"

record SubscribeScope =
  sb_entity :: string
  sb_scope :: string
  sb_id :: string

section \<open>Facts\<close>

text \<open>The leaves of a condition, through every OR group.\<close>

fun leaves :: "Cond \<Rightarrow> (string \<times> qop \<times> gval) list" where
  "leaves (Cond col op v ors) = (if ors \<noteq> [] then concat (map leaves ors) else [(col, op, v)])"

text \<open>What the validator lets through: a known column, a known operator, a fitting value.\<close>

fun leaf_ok :: "(string \<Rightarrow> bool) \<Rightarrow> string \<times> qop \<times> gval \<Rightarrow> bool" where
  "leaf_ok has (col, op, v) =
     (col \<noteq> [] \<and> has col \<and> IsSet op
      \<and> (if op = OpIn \<or> op = OpNotIn then \<exists>k x xs. v = VSlice k (x # xs)
         else NeedsValue op \<longrightarrow> v \<noteq> VNil))"

lemma leaf_validate_None: "(leaf_validate has col op v = None) = leaf_ok has (col, op, v)"
  by (auto simp: leaf_validate_def slice_len_def NeedsValue_def fail_if_def neq_Nil_conv
      split: gval.splits option.splits if_splits)

lemma cond_validate_None: "(cond_validate has c = None) = (\<forall>l \<in> set (leaves c). leaf_ok has l)"
proof (induction has c rule: cond_validate.induct)
  case (1 has col op v ors)
  then show ?case
    by (cases "ors = []") (auto simp: leaf_validate_None first_err_None simp del: leaf_ok.simps)
qed

lemma ValidateConds_None:
  "(ValidateConds conds has = None) = (\<forall>c \<in> set conds. \<forall>l \<in> set (leaves c). leaf_ok has l)"
  by (simp add: ValidateConds_def first_err_None cond_validate_None)

end
