(* ===== verification/Match.thy ===== *)
theory Match
  imports QueryFilter
begin

text \<open>
  The in-memory filter evaluator of \<^verbatim>\<open>core/livequery/match\<close>: value equality and
  order with numeric coercion (\<^verbatim>\<open>compare.go\<close>, \<^verbatim>\<open>order.go\<close>), set and pattern
  operators (\<^verbatim>\<open>setstring.go\<close>) and the compiled predicate (\<^verbatim>\<open>predicate.go\<close>).
  Comparing two maps or two slices with \<^verbatim>\<open>==\<close> panics in Go, so every evaluation
  returns an option whose \<open>None\<close> is that panic.  The pattern matcher is a loop over
  four indices; its not returning would be \<open>None\<close> as well, and is excluded below.
\<close>

section \<open>Loops with an early return\<close>

fun any_m :: "('a \<Rightarrow> bool option) \<Rightarrow> 'a list \<Rightarrow> bool option" where
  "any_m f [] = Some False"
| "any_m f (x # xs) =
     (case f x of None \<Rightarrow> None | Some b \<Rightarrow> if b then Some True else any_m f xs)"

fun all_m :: "('a \<Rightarrow> bool option) \<Rightarrow> 'a list \<Rightarrow> bool option" where
  "all_m f [] = Some True"
| "all_m f (x # xs) =
     (case f x of None \<Rightarrow> None | Some b \<Rightarrow> if b then all_m f xs else Some False)"

lemma any_m_cong [fundef_cong]:
  "xs = ys \<Longrightarrow> (\<And>x. x \<in> set ys \<Longrightarrow> f x = g x) \<Longrightarrow> any_m f xs = any_m g ys"
  by (induction xs arbitrary: ys) (auto split: option.splits)

section \<open>Comparing values\<close>

definition toFloat :: "gval \<Rightarrow> f64 option" where
  "toFloat v = (case v of
     VFloat64 f \<Rightarrow> Some f
   | VFloat32 f \<Rightarrow> Some f
   | VInt k n \<Rightarrow> (if k = KInt \<or> k = KInt32 \<or> k = KInt64 then Some (f64_of_int n) else None)
   | _ \<Rightarrow> None)"

definition toTime :: "golib \<Rightarrow> gval \<Rightarrow> int option" where
  "toTime lib v = (case v of
     VTime t l \<Rightarrow> Some t
   | VStr s \<Rightarrow> map_option fst (time_parse lib s)
   | _ \<Rightarrow> None)"

definition equal :: "golib \<Rightarrow> gval \<Rightarrow> gval \<Rightarrow> bool option" where
  "equal lib a b =
     (case (toFloat a, toFloat b) of
        (Some x, Some y) \<Rightarrow> Some (f64_eq x y)
      | _ \<Rightarrow>
          (case (a, toTime lib b) of
             (VTime t l, Some u) \<Rightarrow> Some (t = u)
           | _ \<Rightarrow> iface_eq a b))"

definition three_way :: "bool \<Rightarrow> bool \<Rightarrow> int" where
  "three_way lt gt = (if lt then -1 else if gt then 1 else 0)"

text \<open>\<open>None\<close> is the second result \<^verbatim>\<open>false\<close>: the pair has no order.\<close>

definition compare :: "golib \<Rightarrow> gval \<Rightarrow> gval \<Rightarrow> int option" where
  "compare lib a b =
     (case (toFloat a, toFloat b) of
        (Some x, Some y) \<Rightarrow> Some (three_way (f64_lt x y) (f64_lt y x))
      | _ \<Rightarrow>
          (case (a, toTime lib b) of
             (VTime t l, Some u) \<Rightarrow> Some (three_way (t < u) (u < t))
           | _ \<Rightarrow>
               (case (a, b) of
                  (VStr x, VStr y) \<Rightarrow> Some (three_way (x < y) (y < x))
                | _ \<Rightarrow> None)))"

definition Order :: "golib \<Rightarrow> gval \<Rightarrow> gval \<Rightarrow> int" where
  "Order lib a b = (case compare lib a b of None \<Rightarrow> 0 | Some c \<Rightarrow> c)"

section \<open>Set and pattern operators\<close>

definition inSlice :: "golib \<Rightarrow> gval \<Rightarrow> gval \<Rightarrow> bool option" where
  "inSlice lib v s = (case s of VSlice _ xs \<Rightarrow> any_m (equal lib v) xs | _ \<Rightarrow> Some False)"

text \<open>The trailing loop of the matcher: only percent signs may be left of the pattern.\<close>

definition only_percent :: "string \<Rightarrow> bool" where
  "only_percent pat = (dropWhile (\<lambda>c. c = CHR ''%'') pat = [])"

text \<open>The main loop; \<open>star\<close> is \<open>None\<close> for the source's \<^verbatim>\<open>-1\<close>.\<close>

partial_function (option) like_loop ::
  "string \<Rightarrow> string \<Rightarrow> nat \<Rightarrow> nat \<Rightarrow> nat option \<Rightarrow> nat \<Rightarrow> bool option" where
  "like_loop s pat si pj star mark =
     (if si < length s
      then (if pj < length pat \<and> (pat ! pj = CHR ''_'' \<or> pat ! pj = s ! si)
            then like_loop s pat (si + 1) (pj + 1) star mark
            else if pj < length pat \<and> pat ! pj = CHR ''%''
            then like_loop s pat si (pj + 1) (Some pj) si
            else (case star of
                    Some st \<Rightarrow> like_loop s pat (mark + 1) (st + 1) star (mark + 1)
                  | None \<Rightarrow> Some False))
      else Some (only_percent (drop pj pat)))"

definition likeAnchored :: "string \<Rightarrow> string \<Rightarrow> bool option" where
  "likeAnchored s pat = like_loop s pat 0 0 None 0"

definition likeMatch :: "golib \<Rightarrow> gval \<Rightarrow> gval \<Rightarrow> bool \<Rightarrow> bool option" where
  "likeMatch lib v pattern ci =
     (case (v, pattern) of
        (VStr s, VStr pat) \<Rightarrow>
          (if ci then likeAnchored (to_lower lib s) (to_lower lib pat) else likeAnchored s pat)
      | _ \<Rightarrow> Some False)"

definition evalSetString :: "golib \<Rightarrow> qop \<Rightarrow> gval \<Rightarrow> gval \<Rightarrow> bool option" where
  "evalSetString lib op cv v = (case op of
     OpIn \<Rightarrow> inSlice lib v cv
   | OpNotIn \<Rightarrow> map_option Not (inSlice lib v cv)
   | OpLike \<Rightarrow> likeMatch lib v cv False
   | OpILike \<Rightarrow> likeMatch lib v cv True
   | _ \<Rightarrow> Some False)"

section \<open>Predicates\<close>

fun checkOp :: "Cond \<Rightarrow> gerr option" where
  "checkOp (Cond col op v ors) =
     (if ors \<noteq> [] then first_err checkOp ors
      else fail_if (\<not> IsSet op) (Errorf ''match: unknown operator''))"

type_synonym Predicate = "Cond list"

definition Compile :: "Where \<Rightarrow> gerr + Predicate" where
  "Compile w = (case first_err checkOp w of Some e \<Rightarrow> Inl e | None \<Rightarrow> Inr w)"

definition evalLeaf :: "golib \<Rightarrow> qop \<Rightarrow> gval \<Rightarrow> gval option \<Rightarrow> bool option" where
  "evalLeaf lib op cv cell =
     (let null = (cell = None \<or> cell = Some VNil); v = (case cell of None \<Rightarrow> VNil | Some x \<Rightarrow> x)
      in if op = OpIsNull then Some null
         else if op = OpIsNotNull then Some (\<not> null)
         else if null then Some False
         else (case op of
                 OpEq \<Rightarrow> equal lib v cv
               | OpNe \<Rightarrow> map_option Not (equal lib v cv)
               | OpGt \<Rightarrow> Some (case compare lib v cv of None \<Rightarrow> False | Some c \<Rightarrow> c > 0)
               | OpGte \<Rightarrow> Some (case compare lib v cv of None \<Rightarrow> False | Some c \<Rightarrow> c \<ge> 0)
               | OpLt \<Rightarrow> Some (case compare lib v cv of None \<Rightarrow> False | Some c \<Rightarrow> c < 0)
               | OpLte \<Rightarrow> Some (case compare lib v cv of None \<Rightarrow> False | Some c \<Rightarrow> c \<le> 0)
               | _ \<Rightarrow> evalSetString lib op cv v))"

fun evalCond :: "golib \<Rightarrow> Cond \<Rightarrow> vals \<Rightarrow> bool option" where
  "evalCond lib (Cond col op cv ors) row =
     (if ors \<noteq> [] then any_m (\<lambda>c. evalCond lib c row) ors
      else evalLeaf lib op cv (mget row col))"

definition Eval :: "golib \<Rightarrow> Predicate \<Rightarrow> vals \<Rightarrow> bool option" where
  "Eval lib p row = all_m (\<lambda>c. evalCond lib c row) p"

section \<open>The pattern matcher against its reference\<close>

text \<open>SQL LIKE on byte strings: a percent sign matches any run, an underscore one byte.\<close>

fun like_ref :: "string \<Rightarrow> string \<Rightarrow> bool" where
  "like_ref s [] = (s = [])"
| "like_ref s (c # p) =
     (if c = CHR ''%'' then list_ex (\<lambda>t. like_ref t p) (suffixes s)
      else (case s of [] \<Rightarrow> False | x # xs \<Rightarrow> (c = CHR ''_'' \<or> c = x) \<and> like_ref xs p))"

lemma like_ref_percent:
  "like_ref s (CHR ''%'' # p) = (\<exists>k \<le> length s. like_ref (drop k s) p)"
proof -
  have "(\<exists>t. suffix t s \<and> like_ref t p) = (\<exists>k \<le> length s. like_ref (drop k s) p)" (is "?A = ?B")
  proof
    assume ?A
    then obtain t z where "s = z @ t" "like_ref t p" by (auto simp: suffix_def)
    then show ?B by (intro exI [of _ "length z"]) simp
  next
    assume ?B
    then show ?A using suffix_drop by blast
  qed
  then show ?thesis by (simp add: list_ex_iff Bex_def)
qed

lemma like_ref_Nil: "like_ref [] p = only_percent p"
  by (induction p) (auto simp: only_percent_def)

text \<open>Two byte lists agree where the first has no underscore.\<close>

definition seg_ok :: "string \<Rightarrow> string \<Rightarrow> bool" where
  "seg_ok seg t = list_all2 (\<lambda>c x. c = CHR ''_'' \<or> c = x) seg t"

lemma like_ref_seg:
  "CHR ''%'' \<notin> set seg \<Longrightarrow>
   like_ref t (seg @ p) =
     (length seg \<le> length t \<and> seg_ok seg (take (length seg) t) \<and> like_ref (drop (length seg) t) p)"
proof (induction seg arbitrary: t)
  case Nil
  then show ?case by (simp add: seg_ok_def)
next
  case (Cons c seg)
  then show ?case by (cases t) (auto simp: seg_ok_def)
qed

text \<open>
  The state of the loop: the text since \<open>mark\<close> matched the pattern since the last
  percent sign, and that stretch of the pattern has no other percent sign.
\<close>

definition like_inv :: "string \<Rightarrow> string \<Rightarrow> nat \<Rightarrow> nat \<Rightarrow> nat option \<Rightarrow> nat \<Rightarrow> bool" where
  "like_inv s pat si pj star mark =
     (mark \<le> si \<and> si \<le> length s \<and> pj \<le> length pat
      \<and> (case star of None \<Rightarrow> True
         | Some st \<Rightarrow> st < length pat \<and> pat ! st = CHR ''%''
             \<and> (CHR ''%'' \<notin> set s \<longrightarrow>
                 (\<exists>seg. drop (st + 1) pat = seg @ drop pj pat \<and> CHR ''%'' \<notin> set seg
                        \<and> length seg = si - mark \<and> seg_ok seg (take (si - mark) (drop mark s))))))"

text \<open>What the loop decides from a state.\<close>

definition like_goal :: "string \<Rightarrow> string \<Rightarrow> nat \<Rightarrow> nat \<Rightarrow> nat option \<Rightarrow> nat \<Rightarrow> bool" where
  "like_goal s pat si pj star mark =
     (case star of None \<Rightarrow> like_ref (drop si s) (drop pj pat)
      | Some st \<Rightarrow> \<exists>k \<ge> mark. k \<le> length s \<and> like_ref (drop k s) (drop (st + 1) pat))"

lemma like_inv_seg:
  assumes "like_inv s pat si pj (Some st) mark" and "CHR ''%'' \<notin> set s"
  obtains seg where "drop (st + 1) pat = seg @ drop pj pat" "CHR ''%'' \<notin> set seg"
    "length seg = si - mark" "seg_ok seg (take (si - mark) (drop mark s))"
  using assms by (auto simp: like_inv_def)

lemma like_goal_split:
  assumes "like_inv s pat si pj star mark" and "CHR ''%'' \<notin> set s"
  shows "like_goal s pat si pj star mark =
    (like_ref (drop si s) (drop pj pat)
     \<or> (\<exists>st. star = Some st \<and> (\<exists>k > mark. k \<le> length s \<and> like_ref (drop k s) (drop (st + 1) pat))))"
proof (cases star)
  case None
  then show ?thesis by (simp add: like_goal_def)
next
  case (Some st)
  obtain seg where seg: "drop (st + 1) pat = seg @ drop pj pat" "CHR ''%'' \<notin> set seg"
      "length seg = si - mark" "seg_ok seg (take (si - mark) (drop mark s))"
    using assms like_inv_seg unfolding Some by blast
  have le: "mark \<le> si" "si \<le> length s" using assms(1) by (auto simp: like_inv_def)
  have "like_ref (drop mark s) (drop (st + 1) pat) = like_ref (drop si s) (drop pj pat)"
    using seg le by (simp add: like_ref_seg diff_le_mono)
  moreover have "(\<exists>k \<ge> mark. k \<le> length s \<and> P k) = (P mark \<or> (\<exists>k > mark. k \<le> length s \<and> P k))" for P
    using le by (metis le_neq_implies_less le_trans order_refl less_imp_le)
  ultimately show ?thesis using Some by (simp add: like_goal_def)
qed

lemma like_goal_end:
  assumes "like_inv s pat si pj star mark" and "CHR ''%'' \<notin> set s" and "si = length s"
  shows "like_goal s pat si pj star mark = only_percent (drop pj pat)"
proof -
  have "\<not> like_ref (drop k s) (drop (st + 1) pat)"
    if st: "star = Some st" and k: "mark < k" "k \<le> length s" for st k
  proof -
    obtain seg where "drop (st + 1) pat = seg @ drop pj pat" "CHR ''%'' \<notin> set seg"
        "length seg = si - mark"
      using assms(1,2) st like_inv_seg by blast
    then show ?thesis using k assms(3) by (auto simp: like_ref_seg)
  qed
  then show ?thesis using assms by (auto simp: like_goal_split like_ref_Nil)
qed

lemma like_goal_star:
  assumes "like_inv s pat si pj star mark" and "CHR ''%'' \<notin> set s"
    and pj: "pj < length pat" "pat ! pj = CHR ''%''"
  shows "like_goal s pat si (pj + 1) (Some pj) si = like_goal s pat si pj star mark"
proof -
  have si: "mark \<le> si" "si \<le> length s" using assms(1) by (auto simp: like_inv_def)
  have d: "drop pj pat = CHR ''%'' # drop (pj + 1) pat"
    using pj by (metis Cons_nth_drop_Suc Suc_eq_plus1)
  have rest: "like_ref (drop i s) (drop pj pat)
      = (\<exists>k \<ge> i. k \<le> length s \<and> like_ref (drop k s) (drop (pj + 1) pat))" if "i \<le> length s" for i
  proof -
    have "(\<exists>k \<le> length s - i. like_ref (drop (k + i) s) q) = (\<exists>k \<ge> i. k \<le> length s \<and> like_ref (drop k s) q)"
      for q using that by (metis add.commute le_add1 le_add_diff_inverse le_diff_conv2 add_le_cancel_right)
    then show ?thesis by (simp only: d like_ref_percent length_drop drop_drop)
  qed
  have "like_ref (drop si s) (drop pj pat)"
    if st: "star = Some st" and k: "mark < k" "k \<le> length s" "like_ref (drop k s) (drop (st + 1) pat)" for st k
  proof -
    obtain seg where seg: "drop (st + 1) pat = seg @ drop pj pat" "CHR ''%'' \<notin> set seg"
        "length seg = si - mark"
      using assms(1,2) st like_inv_seg by blast
    then have m: "si - mark \<le> length s - k" "like_ref (drop (si - mark + k) s) (drop pj pat)"
      using k by (auto simp: like_ref_seg)
    have "si \<le> si - mark + k" "si - mark + k \<le> length s" using m(1) si k by auto
    then show ?thesis using m(2) rest [of "si - mark + k"] rest [of si] si(2) le_trans by blast
  qed
  then show ?thesis using rest [of si] si
    by (auto simp: like_goal_split [OF assms(1,2)]) (auto simp: like_goal_def)
qed

lemma like_inv_step:
  assumes "like_inv s pat si pj star mark" and "si < length s" and "pj < length pat"
    and "pat ! pj = CHR ''_'' \<or> pat ! pj = s ! si"
  shows "like_inv s pat (si + 1) (pj + 1) star mark"
proof (cases star)
  case None
  then show ?thesis using assms by (auto simp: like_inv_def)
next
  case (Some st)
  have "\<exists>seg. drop (st + 1) pat = seg @ drop (pj + 1) pat \<and> CHR ''%'' \<notin> set seg
      \<and> length seg = si + 1 - mark \<and> seg_ok seg (take (si + 1 - mark) (drop mark s))"
    if np: "CHR ''%'' \<notin> set s"
  proof -
    obtain seg where seg: "drop (st + 1) pat = seg @ drop pj pat" "CHR ''%'' \<notin> set seg"
        "length seg = si - mark" "seg_ok seg (take (si - mark) (drop mark s))"
      using assms(1) np like_inv_seg unfolding Some by blast
    have "drop pj pat = pat ! pj # drop (pj + 1) pat"
      using assms(3) by (metis Cons_nth_drop_Suc Suc_eq_plus1)
    moreover have "pat ! pj \<noteq> CHR ''%''" using assms(2,4) np nth_mem by force
    moreover have "take (si + 1 - mark) (drop mark s) = take (si - mark) (drop mark s) @ [s ! si]"
      using assms(1,2) by (auto simp: like_inv_def Suc_diff_le take_Suc_conv_app_nth diff_less_mono)
    ultimately show ?thesis using seg assms(1,4)
      by (intro exI [of _ "seg @ [pat ! pj]"])
         (auto simp: like_inv_def seg_ok_def intro!: list_all2_appendI)
  qed
  then show ?thesis using assms Some by (auto simp: like_inv_def)
qed

lemma like_goal_mismatch:
  assumes "like_inv s pat si pj star mark" and "CHR ''%'' \<notin> set s" and "si < length s"
    and "\<not> (pj < length pat \<and> (pat ! pj = CHR ''_'' \<or> pat ! pj = s ! si))"
    and "\<not> (pj < length pat \<and> pat ! pj = CHR ''%'')"
  shows "like_goal s pat si pj star mark =
    (case star of None \<Rightarrow> False
     | Some st \<Rightarrow> like_goal s pat (mark + 1) (st + 1) star (mark + 1))"
proof -
  have d: "drop si s = s ! si # drop (si + 1) s" using assms(3) by (metis Cons_nth_drop_Suc Suc_eq_plus1)
  have "\<not> like_ref (drop si s) (drop pj pat)"
  proof (cases "pj < length pat")
    case True
    then have "drop pj pat = pat ! pj # drop (pj + 1) pat" by (metis Cons_nth_drop_Suc Suc_eq_plus1)
    then show ?thesis using assms(4,5) True d by simp
  qed (simp add: d)
  then show ?thesis
    by (simp add: like_goal_split [OF assms(1,2)] split: option.split)
       (simp add: like_goal_def Suc_le_eq)
qed

lemma like_loop_returns:
  assumes "like_inv s pat si pj star mark"
  shows "\<exists>b. like_loop s pat si pj star mark = Some b
           \<and> (CHR ''%'' \<notin> set s \<longrightarrow> b = like_goal s pat si pj star mark)"
  using assms
proof (induction "(length s - mark, (length s - si) + (length pat - pj))" arbitrary: si pj star mark
    rule: wf_induct_rule [OF wf_lex_prod [OF wf_less_than wf_less_than]])
  case (1 si pj mark star)
  note inv = 1(2)
  have le: "mark \<le> si" "si \<le> length s" "pj \<le> length pat" using inv by (auto simp: like_inv_def)
  consider (fin) "\<not> si < length s"
    | (step) "si < length s" "pj < length pat" "pat ! pj = CHR ''_'' \<or> pat ! pj = s ! si"
    | (star) "si < length s" "pj < length pat" "pat ! pj = CHR ''%''"
        "\<not> (pat ! pj = CHR ''_'' \<or> pat ! pj = s ! si)"
    | (miss) "si < length s" "\<not> (pj < length pat \<and> (pat ! pj = CHR ''_'' \<or> pat ! pj = s ! si))"
        "\<not> (pj < length pat \<and> pat ! pj = CHR ''%'')"
    by blast
  then show ?case
  proof cases
    case fin
    then show ?thesis using le like_goal_end [OF inv] by (subst like_loop.simps) auto
  next
    case step
    have "like_goal s pat (si + 1) (pj + 1) star mark = like_goal s pat si pj star mark"
      if "CHR ''%'' \<notin> set s"
    proof -
      have "pat ! pj \<noteq> CHR ''%''" using step that nth_mem by force
      then have "like_ref (drop (si + 1) s) (drop (pj + 1) pat) = like_ref (drop si s) (drop pj pat)"
        using step by (simp add: Cons_nth_drop_Suc [symmetric])
      then show ?thesis by (simp add: like_goal_def split: option.split)
    qed
    then show ?thesis
      using 1(1) [OF _ like_inv_step [OF inv step]] step by (subst like_loop.simps) auto
  next
    case star
    have "like_inv s pat si (pj + 1) (Some pj) si"
      using star le by (auto simp: like_inv_def seg_ok_def)
    moreover have "length s - si < length s - mark \<or> length s - si = length s - mark"
      using le by linarith
    ultimately show ?thesis
      using 1(1) [of si si "pj + 1" "Some pj"] star le like_goal_star [OF inv]
      by (subst like_loop.simps) (auto simp: diff_less_mono2)
  next
    case miss
    show ?thesis
    proof (cases star)
      case None
      then show ?thesis using miss like_goal_mismatch [OF inv] by (subst like_loop.simps) auto
    next
      case (Some st)
      have "like_inv s pat (mark + 1) (st + 1) star (mark + 1)"
        using inv miss le Some by (auto simp: like_inv_def seg_ok_def)
      moreover have "length s - (mark + 1) < length s - mark" using miss le by linarith
      ultimately show ?thesis
        using 1(1) [of "mark + 1" "mark + 1" "st + 1" star] miss le Some like_goal_mismatch [OF inv]
        by (subst like_loop.simps) auto
    qed
  qed
qed

lemma likeAnchored_total:
  "\<exists>b. likeAnchored s pat = Some b \<and> (CHR ''%'' \<notin> set s \<longrightarrow> b = like_ref s pat)"
proof -
  have "like_inv s pat 0 0 None 0" by (simp add: like_inv_def)
  from like_loop_returns [OF this] show ?thesis
    by (auto simp: likeAnchored_def like_goal_def)
qed

lemma likeAnchored_like_ref:
  "CHR ''%'' \<notin> set s \<Longrightarrow> likeAnchored s pat = Some (like_ref s pat)"
  using likeAnchored_total by blast

text \<open>
  C23. The two-pointer LIKE matcher terminates on every text and pattern, and on a text
  without percent signs it decides exactly SQL LIKE.
\<close>

theorem likeAnchored_reference:
  "(\<exists>b. likeAnchored s pat = Some b)
   \<and> (CHR ''%'' \<notin> set s \<longrightarrow> likeAnchored s pat = Some (like_ref s pat))"
  using likeAnchored_total [of s pat] by auto

lemma like_loop_literal_percent:
  "like_loop (CHR ''%'' # s) ''%'' 0 0 None 0 = Some (s = [])"
  by (subst like_loop.simps, simp, subst like_loop.simps) (simp add: only_percent_def)

theorem likeAnchored_reference_witness:
  "likeAnchored ''banana'' ''b%a_a'' = Some True \<and> likeAnchored ''banana'' ''%nab'' = Some False"
  using likeAnchored_reference [of "''banana''" "''b%a_a''"]
    likeAnchored_reference [of "''banana''" "''%nab''"]
  by simp

text \<open>
  A percent sign in the text is matched literally against a percent sign of the
  pattern before the wildcard is considered, so the match-everything pattern rejects
  every longer text that starts with a percent sign.
\<close>

theorem like_percent_literal:
  "likeAnchored (CHR ''%'' # s) ''%'' = Some (s = []) \<and> like_ref (CHR ''%'' # s) ''%''"
  using like_loop_literal_percent [of s] like_ref_percent [of "CHR ''%'' # s" "[]"]
  by (auto simp: likeAnchored_def simp del: like_ref.simps(2) intro: exI [of _ "length s + 1"])

section \<open>The evaluator against SQL's three-valued logic\<close>

text \<open>
  The meaning of the same filter as a SQL condition on typed columns: \<open>None\<close> is the
  truth value unknown, a scalar is compared with a scalar of its own type.
\<close>

datatype scalar = KNum f64 | KStr string | KBool bool

definition scalar_of :: "gval \<Rightarrow> scalar option" where
  "scalar_of v = (case v of VStr s \<Rightarrow> Some (KStr s) | VBool b \<Rightarrow> Some (KBool b)
     | _ \<Rightarrow> map_option KNum (toFloat v))"

fun scalar_lt :: "scalar \<Rightarrow> scalar \<Rightarrow> bool" where
  "scalar_lt (KNum x) (KNum y) = f64_lt x y"
| "scalar_lt (KStr x) (KStr y) = (x < y)"
| "scalar_lt _ _ = False"

definition sql_eq :: "gval \<Rightarrow> gval \<Rightarrow> bool option" where
  "sql_eq a b = (if a = VNil \<or> b = VNil then None else Some (scalar_of a = scalar_of b))"

definition sql_lt :: "gval \<Rightarrow> gval \<Rightarrow> bool option" where
  "sql_lt a b = (case (scalar_of a, scalar_of b) of (Some x, Some y) \<Rightarrow> Some (scalar_lt x y) | _ \<Rightarrow> None)"

definition sql_or :: "bool option list \<Rightarrow> bool option" where
  "sql_or ts = (if Some True \<in> set ts then Some True else if None \<in> set ts then None else Some False)"

definition sql_and :: "bool option list \<Rightarrow> bool option" where
  "sql_and ts = (if Some False \<in> set ts then Some False else if None \<in> set ts then None else Some True)"

definition sql_in :: "gval \<Rightarrow> gval \<Rightarrow> bool option" where
  "sql_in v cv = (case cv of VSlice _ xs \<Rightarrow> sql_or (map (sql_eq v) xs) | _ \<Rightarrow> None)"

definition sql_like :: "gval \<Rightarrow> gval \<Rightarrow> (string \<Rightarrow> string) \<Rightarrow> bool option" where
  "sql_like v cv f = (case (v, cv) of (VStr s, VStr p) \<Rightarrow> Some (like_ref (f s) (f p)) | _ \<Rightarrow> None)"

definition sql_leaf :: "golib \<Rightarrow> qop \<Rightarrow> gval \<Rightarrow> gval \<Rightarrow> bool option" where
  "sql_leaf lib op cv v = (case op of
     OpIsNull \<Rightarrow> Some (v = VNil)
   | OpIsNotNull \<Rightarrow> Some (v \<noteq> VNil)
   | OpEq \<Rightarrow> sql_eq v cv
   | OpNe \<Rightarrow> map_option Not (sql_eq v cv)
   | OpLt \<Rightarrow> sql_lt v cv
   | OpGt \<Rightarrow> sql_lt cv v
   | OpLte \<Rightarrow> map_option Not (sql_lt cv v)
   | OpGte \<Rightarrow> map_option Not (sql_lt v cv)
   | OpIn \<Rightarrow> (if v = VNil then None else sql_in v cv)
   | OpNotIn \<Rightarrow> (if v = VNil then None else map_option Not (sql_in v cv))
   | OpLike \<Rightarrow> sql_like v cv id
   | OpILike \<Rightarrow> sql_like v cv (to_lower lib)
   | QOther _ \<Rightarrow> None)"

fun sql_cond :: "golib \<Rightarrow> Cond \<Rightarrow> vals \<Rightarrow> bool option" where
  "sql_cond lib (Cond col op cv ors) row =
     (if ors \<noteq> [] then sql_or (map (\<lambda>c. sql_cond lib c row) ors)
      else sql_leaf lib op cv (mget_or VNil row col))"

definition sql_where :: "golib \<Rightarrow> Cond list \<Rightarrow> vals \<Rightarrow> bool option" where
  "sql_where lib p row = sql_and (map (\<lambda>c. sql_cond lib c row) p)"

text \<open>Two non-null values of one column type that the database can compare.\<close>

definition same_type :: "gval \<Rightarrow> gval \<Rightarrow> bool" where
  "same_type a b = (case (scalar_of a, scalar_of b) of
     (Some (KNum x), Some (KNum y)) \<Rightarrow> x \<noteq> NaN \<and> y \<noteq> NaN
   | (Some (KStr _), Some (KStr _)) \<Rightarrow> True
   | (Some (KBool _), Some (KBool _)) \<Rightarrow> True
   | _ \<Rightarrow> False)"

definition ordered_type :: "gval \<Rightarrow> gval \<Rightarrow> bool" where
  "ordered_type a b = (same_type a b \<and> (\<forall>x. a \<noteq> VBool x))"

definition set_typed :: "gval \<Rightarrow> gval \<Rightarrow> bool \<Rightarrow> bool" where
  "set_typed v cv nulls = (case cv of
     VSlice _ xs \<Rightarrow> list_all (\<lambda>x. (nulls \<and> x = VNil) \<or> same_type v x) xs | _ \<Rightarrow> False)"

definition pattern_typed :: "gval \<Rightarrow> gval \<Rightarrow> (string \<Rightarrow> string) \<Rightarrow> bool" where
  "pattern_typed v cv f = (case (v, cv) of (VStr s, VStr p) \<Rightarrow> CHR ''%'' \<notin> set (f s) | _ \<Rightarrow> False)"

text \<open>The leaf compares the cell with values of the cell's type, a set negation lists no
  null, and a cell matched against a pattern contains no percent sign.\<close>

definition leaf_typed :: "golib \<Rightarrow> vals \<Rightarrow> string \<times> qop \<times> gval \<Rightarrow> bool" where
  "leaf_typed lib row = (\<lambda>(col, op, cv).
     let v = mget_or VNil row col
     in v = VNil \<or> (case op of
          OpIsNull \<Rightarrow> True | OpIsNotNull \<Rightarrow> True
        | OpEq \<Rightarrow> same_type v cv | OpNe \<Rightarrow> same_type v cv
        | OpLt \<Rightarrow> ordered_type v cv | OpGt \<Rightarrow> ordered_type v cv
        | OpLte \<Rightarrow> ordered_type v cv | OpGte \<Rightarrow> ordered_type v cv
        | OpIn \<Rightarrow> set_typed v cv True
        | OpNotIn \<Rightarrow> set_typed v cv False
        | OpLike \<Rightarrow> pattern_typed v cv id
        | OpILike \<Rightarrow> pattern_typed v cv (to_lower lib)
        | QOther _ \<Rightarrow> True))"

lemma same_type_cases:
  assumes "same_type a b"
  obtains (num) x y where "toFloat a = Some x" "toFloat b = Some y" "x \<noteq> NaN" "y \<noteq> NaN"
      "scalar_of a = Some (KNum x)" "scalar_of b = Some (KNum y)" "a \<noteq> VNil" "b \<noteq> VNil"
    | (str) s t where "a = VStr s" "b = VStr t"
    | (bool) x y where "a = VBool x" "b = VBool y"
  using assms
  by (cases a; cases b) (auto simp: same_type_def scalar_of_def toFloat_def split: if_splits)

lemma same_type_nonnull: "same_type a b \<Longrightarrow> a \<noteq> VNil \<and> b \<noteq> VNil"
  by (auto elim!: same_type_cases)

lemma equal_same_type:
  assumes "same_type a b"
  shows "equal lib a b = Some (scalar_of a = scalar_of b)"
  using assms by (cases rule: same_type_cases) (auto simp: equal_def f64_eq_iff scalar_of_def toFloat_def)

lemma equal_null: "v \<noteq> VNil \<Longrightarrow> equal lib v VNil = Some False"
  by (cases v) (auto simp: equal_def toFloat_def toTime_def split: option.splits)

lemma compare_ordered_type:
  assumes "ordered_type a b"
  obtains x y where "scalar_of a = Some x" "scalar_of b = Some y" "a \<noteq> VNil" "b \<noteq> VNil"
    "compare lib a b = Some (three_way (scalar_lt x y) (scalar_lt y x))" "\<not> (scalar_lt x y \<and> scalar_lt y x)"
proof -
  have "same_type a b" and nb: "\<And>x. a \<noteq> VBool x" using assms by (auto simp: ordered_type_def)
  then show thesis
  proof (cases rule: same_type_cases)
    case (num x y)
    then show thesis by (intro that [of "KNum x" "KNum y"]) (auto simp: compare_def dest: f64_lt_asym)
  next
    case (str s t)
    then show thesis
      by (intro that [of "KStr s" "KStr t"]) (auto simp: compare_def scalar_of_def toFloat_def)
  qed (use nb in auto)
qed

lemma any_m_total:
  "(\<And>x. x \<in> set xs \<Longrightarrow> f x = Some (g x)) \<Longrightarrow> any_m f xs = Some (\<exists>x \<in> set xs. g x)"
  by (induction xs) auto

lemma all_m_total:
  "(\<And>x. x \<in> set xs \<Longrightarrow> f x = Some (g x)) \<Longrightarrow> all_m f xs = Some (\<forall>x \<in> set xs. g x)"
  by (induction xs) auto

lemma sql_or_True: "(sql_or (map f xs) = Some True) = (\<exists>x \<in> set xs. f x = Some True)"
  by (auto simp: sql_or_def image_iff eq_commute)

lemma sql_and_True: "(sql_and ts = Some True) = (\<forall>t \<in> set ts. t = Some True)"
  by (auto simp: sql_and_def) (metis (full_types) not_Some_eq)
lemma inSlice_typed:
  assumes "set_typed v cv nulls" and "v \<noteq> VNil"
  shows "inSlice lib v cv = Some (sql_in v cv = Some True)"
    and "\<not> nulls \<Longrightarrow> sql_in v cv \<noteq> None"
proof -
  obtain k xs where cv: "cv = VSlice k xs"
      and xs: "\<And>x. x \<in> set xs \<Longrightarrow> (nulls \<and> x = VNil) \<or> same_type v x"
    using assms(1) by (auto simp: set_typed_def list_all_iff split: gval.splits)
  have "equal lib v x = Some (sql_eq v x = Some True)" if "x \<in> set xs" for x
    using xs [OF that] equal_null [OF assms(2)] equal_same_type [of v x] same_type_nonnull [of v x]
    by (auto simp: sql_eq_def)
  then show "inSlice lib v cv = Some (sql_in v cv = Some True)"
    by (auto simp: cv inSlice_def sql_in_def sql_or_True any_m_total)
  show "sql_in v cv \<noteq> None" if "\<not> nulls"
    using xs that assms(2) same_type_nonnull
    by (auto simp: cv sql_in_def sql_or_def sql_eq_def split: if_splits)
qed

lemma likeMatch_typed:
  assumes "pattern_typed v cv (if ci then to_lower lib else id)"
  shows "likeMatch lib v cv ci = Some (sql_like v cv (if ci then to_lower lib else id) = Some True)"
  using assms
  by (auto simp: likeAnchored_like_ref pattern_typed_def likeMatch_def sql_like_def split: gval.splits)

lemma evalLeaf_typed:
  assumes "leaf_typed lib row (col, op, cv)"
  shows "evalLeaf lib op cv (mget row col) = Some (sql_leaf lib op cv (mget_or VNil row col) = Some True)"
proof -
  define v where "v = mget_or VNil row col"
  have ev: "evalLeaf lib op cv (mget row col) = evalLeaf lib op cv (Some v)"
    by (auto simp: v_def evalLeaf_def mget_or_def split: option.splits)
  show ?thesis
  proof (cases "v = VNil")
    case True
    have "scalar_of VNil = None" by (simp add: scalar_of_def toFloat_def)
    then show ?thesis using True unfolding ev v_def [symmetric]
      by (cases op) (auto simp: evalLeaf_def sql_leaf_def sql_eq_def sql_lt_def sql_like_def split: option.split)
  next
    case False
    have eq: "same_type v cv \<Longrightarrow> equal lib v cv = Some (sql_eq v cv = Some True) \<and> sql_eq v cv \<noteq> None"
      using False equal_same_type [of v cv lib] same_type_nonnull [of v cv] by (auto simp: sql_eq_def)
    have cmp: "ordered_type v cv \<Longrightarrow> \<exists>x y. compare lib v cv = Some (three_way x y) \<and> \<not> (x \<and> y)
        \<and> sql_lt v cv = Some x \<and> sql_lt cv v = Some y"
      by (erule compare_ordered_type [where lib = lib]) (auto simp: sql_lt_def)
    show ?thesis
      using assms False inSlice_typed(1) [of v cv _ lib] inSlice_typed(2) [of v cv False] likeMatch_typed [of v cv False lib]
        likeMatch_typed [of v cv True lib] eq cmp
      unfolding ev v_def [symmetric] leaf_typed_def
      by (cases op)
         (auto simp: v_def [symmetric] evalLeaf_def sql_leaf_def evalSetString_def three_way_def split: if_splits)
  qed
qed

lemma evalCond_typed:
  assumes "\<forall>l \<in> set (leaves c). leaf_typed lib row l"
  shows "evalCond lib c row = Some (sql_cond lib c row = Some True)"
  using assms
proof (induction lib c row rule: evalCond.induct)
  case (1 lib col op cv ors row)
  show ?case
  proof (cases "ors = []")
    case True
    then show ?thesis using "1.prems" by (simp add: evalLeaf_typed)
  next
    case False
    then have "evalCond lib c row = Some (sql_cond lib c row = Some True)" if "c \<in> set ors" for c
      using 1 that by auto
    then show ?thesis using False
      by (auto simp: any_m_total sql_or_True)
  qed
qed


definition pump_filter :: Where where
  "pump_filter = [Eq ''kind'' (VStr ''pump''), Or [Gt ''hours'' (VInt KInt 10), IsNull ''owner''],
                  NotIn ''site'' (VSlice SString [VStr ''x'', VStr ''y'']), Like ''name'' ''P-%'']"

definition pump_row :: vals where
  "pump_row = [(''kind'', VStr ''pump''), (''hours'', VFloat64 (Fin 9)), (''owner'', VNil),
               (''site'', VStr ''z''), (''name'', VStr ''P-101'')]"


text \<open>
  A null inside the list of a NOT IN is ignored by the evaluator: a row the SQL
  condition leaves unknown, and therefore excludes, is accepted.
\<close>

theorem notin_null_diverges:
  "Eval lib [NotIn col (VSlice SAny [VStr a, VNil])] [(col, VStr b)] = Some (a \<noteq> b)
   \<and> sql_where lib [NotIn col (VSlice SAny [VStr a, VNil])] [(col, VStr b)] \<noteq> Some True"
  by (auto simp: NotIn_def Eval_def evalLeaf_def evalSetString_def inSlice_def equal_def toFloat_def
      toTime_def sql_where_def sql_and_def sql_leaf_def sql_in_def sql_or_def sql_eq_def mget_or_def
      scalar_of_def)

end
