(* ===== verification/LiveWindow.thy ===== *)
theory LiveWindow
  imports Match
begin

text \<open>
  The maintained window of a live query (\<^verbatim>\<open>core/livequery\<close>: \<^verbatim>\<open>types.go\<close>,
  \<^verbatim>\<open>order.go\<close>, \<^verbatim>\<open>fielddelta.go\<close>, \<^verbatim>\<open>window.go\<close>): an ordered prefix of the
  query's result that splices one change at a time and reports the visible effect as
  deltas.  The refill port is an argument of the operations that call it, so each call
  may see another state of the database.  A panic (an uncomparable value, a cursor
  shorter than the sort specification) is \<open>None\<close>.
\<close>

section \<open>Queries, rows and deltas\<close>

datatype Mode = ModeMaintained | ModeStreamed | ModeOther int

record SortKey =
  sk_column :: string
  sk_desc :: bool

type_synonym Cursor = "gval list"

record LiveQuery =
  lq_entity :: string
  lq_where :: Where
  lq_sort :: "SortKey list"
  lq_limit :: int
  lq_cursor :: "Cursor option"
  lq_mode :: Mode
  lq_fielddeltas :: bool

definition LQ_Validate :: "LiveQuery \<Rightarrow> (string \<Rightarrow> bool) \<Rightarrow> (string \<Rightarrow> bool) \<Rightarrow> gerr option" where
  "LQ_Validate q hasColumn isSortable =
     err_seq
       [fail_if (lq_entity q = []) (Errorf ''live query has empty entity''),
        fail_if (lq_limit q \<le> 0) (Errorf ''live query requires Limit > 0''),
        ValidateConds (lq_where q) hasColumn,
        first_err (\<lambda>s. err_seq
            [fail_if (sk_column s = []) (Errorf ''live query sort key with empty column''),
             fail_if (\<not> isSortable (sk_column s)) (Errorf ''column is not sortable for live queries'')])
          (lq_sort q)]"

datatype DeltaOp = OpEnter | OpLeave | OpMove | OpUpdate | OpReset | OpMatch | OpUnmatch

definition DeltaOp_String :: "DeltaOp \<Rightarrow> string" where
  "DeltaOp_String op = (case op of OpEnter \<Rightarrow> ''enter'' | OpLeave \<Rightarrow> ''leave'' | OpMove \<Rightarrow> ''move''
     | OpUpdate \<Rightarrow> ''update'' | OpReset \<Rightarrow> ''reset'' | OpMatch \<Rightarrow> ''match'' | OpUnmatch \<Rightarrow> ''unmatch'')"

record LiveDelta =
  ld_op :: DeltaOp
  ld_aggid :: string
  ld_version :: int
  ld_row :: rawmsg
  ld_old :: int
  ld_new :: int
  ld_cursor :: Cursor
  ld_stream :: string
  ld_at :: "int \<times> nat"
  ld_changes :: "vals option"

record Row =
  rw_aggid :: string
  rw_version :: int
  rw_cursor :: Cursor
  rw_raw :: rawmsg
  rw_vals :: "vals option"

record LChange =
  lc_aggid :: string
  lc_version :: int
  lc_deleted :: bool
  lc_vals :: "vals option"
  lc_raw :: rawmsg
  lc_stream :: string
  lc_at :: "int \<times> nat"

text \<open>Reading a nil map.\<close>

definition nil_vals :: "vals option \<Rightarrow> vals" where
  "nil_vals m = (case m of None \<Rightarrow> [] | Some v \<Rightarrow> v)"

section \<open>Cursors\<close>

definition SortKeyOf :: "vals \<Rightarrow> SortKey list \<Rightarrow> string \<Rightarrow> Cursor" where
  "SortKeyOf row srt i = map (\<lambda>s. mget_or VNil row (sk_column s)) srt @ [VStr i]"

definition id_of :: "gval \<Rightarrow> string" where
  "id_of v = (case v of VStr s \<Rightarrow> s | _ \<Rightarrow> [])"

text \<open>The loop over the sort keys reads element after element of both cursors.\<close>

fun compare_keys :: "golib \<Rightarrow> SortKey list \<Rightarrow> gval list \<Rightarrow> gval list \<Rightarrow> int option" where
  "compare_keys lib [] as bs = Some 0"
| "compare_keys lib (s # srt) (a # as) (b # bs) =
     (let c = (if sk_desc s then - Order lib a b else Order lib a b)
      in if c \<noteq> 0 then Some c else compare_keys lib srt as bs)"
| "compare_keys lib (s # srt) _ _ = None"

definition CompareCursors :: "golib \<Rightarrow> Cursor \<Rightarrow> Cursor \<Rightarrow> SortKey list \<Rightarrow> int option" where
  "CompareCursors lib a b srt =
     (case compare_keys lib srt a b of
        None \<Rightarrow> None
      | Some c \<Rightarrow>
          if c \<noteq> 0 then Some c
          else if a = [] \<or> b = [] then None
          else Some (three_way (id_of (last a) < id_of (last b)) (id_of (last b) < id_of (last a))))"

section \<open>Field deltas\<close>

text \<open>\<^verbatim>\<open>reflect.DeepEqual\<close> on decoded values.\<close>

fun DeepEqual :: "gval \<Rightarrow> gval \<Rightarrow> bool" where
  "DeepEqual (VFloat32 a) (VFloat32 b) = f64_eq a b"
| "DeepEqual (VFloat64 a) (VFloat64 b) = f64_eq a b"
| "DeepEqual (VSlice k xs) (VSlice k' ys) = (k = k' \<and> list_all2 DeepEqual xs ys)"
| "DeepEqual (VObj xs) (VObj ys) =
     (length xs = length ys
      \<and> list_all (\<lambda>(k, v). case mget ys k of None \<Rightarrow> False | Some w \<Rightarrow> DeepEqual v w) xs)"
| "DeepEqual a b = (a = b)"

definition diffVals :: "vals option \<Rightarrow> vals option \<Rightarrow> vals option" where
  "diffVals prev next =
     (case (prev, next) of
        (Some p, Some n) \<Rightarrow>
          (let changed = filter (\<lambda>(k, nv). \<not> (case mget p k of None \<Rightarrow> False | Some pv \<Rightarrow> DeepEqual pv nv)) n;
               dropped = map (\<lambda>(k, pv). (k, VNil)) (filter (\<lambda>(k, pv). mget n k = None) p)
           in if changed @ dropped = [] then None else Some (changed @ dropped))
      | _ \<Rightarrow> None)"

definition withChanges :: "LiveDelta \<Rightarrow> vals option \<Rightarrow> LiveDelta" where
  "withChanges d changes = d\<lparr>ld_changes := changes\<rparr>"

section \<open>The window\<close>

record Window =
  w_q :: LiveQuery
  w_pred :: Predicate
  w_n :: int
  w_cushion :: int
  w_rows :: "Row list"
  w_complete :: bool

type_synonym Refiller = "LiveQuery \<Rightarrow> Cursor \<Rightarrow> int \<Rightarrow> gerr + Row list"

definition NewWindow :: "LiveQuery \<Rightarrow> Predicate \<Rightarrow> Row list \<Rightarrow> bool \<Rightarrow> int \<Rightarrow> Window" where
  "NewWindow q pred seed exhausted cushion =
     \<lparr>w_q = q, w_pred = pred, w_n = lq_limit q, w_cushion = cushion, w_rows = seed, w_complete = exhausted\<rparr>"

definition w_cap :: "Window \<Rightarrow> int" where
  "w_cap w = w_n w + w_cushion w"

fun find_row :: "Row list \<Rightarrow> string \<Rightarrow> nat \<Rightarrow> nat option" where
  "find_row [] aggID i = None"
| "find_row (r # rs) aggID i = (if rw_aggid r = aggID then Some i else find_row rs aggID (i + 1))"

text \<open>\<open>None\<close> is the source's \<^verbatim>\<open>-1\<close>.\<close>

definition indexOf :: "Window \<Rightarrow> string \<Rightarrow> nat option" where
  "indexOf w aggID = find_row (w_rows w) aggID 0"

text \<open>\<^verbatim>\<open>sort.Search\<close>: binary search for the first index where the test holds.\<close>

function search_loop :: "(nat \<Rightarrow> bool option) \<Rightarrow> nat \<Rightarrow> nat \<Rightarrow> nat option" where
  "search_loop f i j =
     (if i < j
      then (let h = (i + j) div 2
            in case f h of
                 None \<Rightarrow> None
               | Some b \<Rightarrow> if b then search_loop f i h else search_loop f (h + 1) j)
      else Some i)"
  by pat_completeness auto

termination
  by (relation "measure (\<lambda>(f, i, j). j - i)") auto

declare search_loop.simps [simp del]

definition insertPos :: "golib \<Rightarrow> Window \<Rightarrow> Cursor \<Rightarrow> nat option" where
  "insertPos lib w cur =
     search_loop
       (\<lambda>i. map_option (\<lambda>c. c > 0) (CompareCursors lib (rw_cursor (w_rows w ! i)) cur (lq_sort (w_q w))))
       0 (length (w_rows w))"

definition rowFromChange :: "Window \<Rightarrow> LChange \<Rightarrow> Row" where
  "rowFromChange w ch =
     \<lparr>rw_aggid = lc_aggid ch, rw_version = lc_version ch,
      rw_cursor = SortKeyOf (nil_vals (lc_vals ch)) (lq_sort (w_q w)) (lc_aggid ch),
      rw_raw = lc_raw ch, rw_vals = lc_vals ch\<rparr>"

definition w_delta :: "DeltaOp \<Rightarrow> Row \<Rightarrow> int \<Rightarrow> int \<Rightarrow> LiveDelta" where
  "w_delta op r oldIdx newIdx =
     \<lparr>ld_op = op, ld_aggid = rw_aggid r, ld_version = rw_version r, ld_row = rw_raw r,
      ld_old = oldIdx, ld_new = newIdx, ld_cursor = rw_cursor r, ld_stream = [],
      ld_at = (0, 0), ld_changes = None\<rparr>"

text \<open>Splicing a row in, and out.\<close>

definition ins_at :: "nat \<Rightarrow> 'a \<Rightarrow> 'a list \<Rightarrow> 'a list" where
  "ins_at pos r rs = take pos rs @ r # drop pos rs"

definition del_at :: "nat \<Rightarrow> 'a list \<Rightarrow> 'a list" where
  "del_at pos rs = take pos rs @ drop (pos + 1) rs"

definition trimTail :: "Window \<Rightarrow> Window" where
  "trimTail w =
     (if int (length (w_rows w)) > w_cap w
      then w\<lparr>w_rows := take (nat (w_cap w)) (w_rows w), w_complete := False\<rparr> else w)"

definition maybeRefill :: "Refiller \<Rightarrow> Window \<Rightarrow> Window" where
  "maybeRefill refill w =
     (if w_complete w \<or> int (length (w_rows w)) \<ge> w_n w + w_cushion w div 2 then w
      else
        (let after = (if w_rows w \<noteq> [] then rw_cursor (last (w_rows w))
                      else (case lq_cursor (w_q w) of Some c \<Rightarrow> c | None \<Rightarrow> []));
             need = w_cap w - int (length (w_rows w))
         in case refill (w_q w) after need of
              Inl e \<Rightarrow> w
            | Inr extra \<Rightarrow>
                w\<lparr>w_rows := w_rows w @ extra,
                  w_complete := w_complete w \<or> int (length extra) < need\<rparr>))"

definition w_insert :: "golib \<Rightarrow> Refiller \<Rightarrow> Window \<Rightarrow> LChange \<Rightarrow> (LiveDelta list \<times> Window) option" where
  "w_insert lib refill w ch =
     (let r = rowFromChange w ch; len = int (length (w_rows w))
      in case insertPos lib w (rw_cursor r) of
           None \<Rightarrow> None
         | Some pos \<Rightarrow>
             if int pos \<ge> len \<and> len \<ge> w_cap w \<and> \<not> w_complete w then Some ([], w)
             else
               (let visible = int pos < w_n w;
                    evicted = (if visible \<and> len \<ge> w_n w then Some (w_rows w ! nat (w_n w - 1)) else None);
                    deltas = (if visible
                              then w_delta OpEnter r (-1) (int pos)
                                   # (case evicted of None \<Rightarrow> []
                                      | Some ev \<Rightarrow> [w_delta OpLeave ev (w_n w) (-1)])
                              else [])
                in Some (deltas, maybeRefill refill (trimTail (w\<lparr>w_rows := ins_at pos r (w_rows w)\<rparr>)))))"

definition w_remove :: "Refiller \<Rightarrow> Window \<Rightarrow> nat \<Rightarrow> LiveDelta list \<times> Window" where
  "w_remove refill w pos =
     (let leaving = w_rows w ! pos;
          w1 = w\<lparr>w_rows := del_at pos (w_rows w)\<rparr>;
          deltas = (if int pos < w_n w
                    then w_delta OpLeave leaving (int pos) (-1)
                         # (if w_n w - 1 < int (length (w_rows w1))
                            then [w_delta OpEnter (w_rows w1 ! nat (w_n w - 1)) (-1) (w_n w - 1)] else [])
                    else [])
      in (deltas, maybeRefill refill w1))"

definition w_fieldChanges :: "Window \<Rightarrow> Row \<Rightarrow> Row \<Rightarrow> vals option" where
  "w_fieldChanges w prev next =
     (if \<not> lq_fielddeltas (w_q w) then None else diffVals (rw_vals prev) (rw_vals next))"

definition w_reposition ::
  "golib \<Rightarrow> Refiller \<Rightarrow> Window \<Rightarrow> nat \<Rightarrow> LChange \<Rightarrow> (LiveDelta list \<times> Window) option" where
  "w_reposition lib refill w old ch =
     (let r = rowFromChange w ch; changes = w_fieldChanges w (w_rows w ! old) r
      in case CompareCursors lib (rw_cursor (w_rows w ! old)) (rw_cursor r) (lq_sort (w_q w)) of
           None \<Rightarrow> None
         | Some c \<Rightarrow>
             if c = 0
             then Some (if int old < w_n w
                        then [withChanges (w_delta OpUpdate r (int old) (int old)) changes] else [],
                        w\<lparr>w_rows := (w_rows w)[old := r]\<rparr>)
             else
               (let w1 = w\<lparr>w_rows := del_at old (w_rows w)\<rparr>
                in case insertPos lib w1 (rw_cursor r) of
                     None \<Rightarrow> None
                   | Some pos \<Rightarrow>
                       (let w2 = w1\<lparr>w_rows := ins_at pos r (w_rows w1)\<rparr>;
                            oldVisible = int old < w_n w; newVisible = int pos < w_n w;
                            deltas =
                              (if oldVisible \<and> newVisible
                               then [withChanges (w_delta OpMove r (int old) (int pos)) changes]
                               else if oldVisible
                               then w_delta OpLeave r (int old) (-1)
                                    # (if w_n w - 1 < int (length (w_rows w2))
                                       then [w_delta OpEnter (w_rows w2 ! nat (w_n w - 1)) (-1) (w_n w - 1)]
                                       else [])
                               else if newVisible then [w_delta OpEnter r (-1) (int pos)]
                               else [])
                        in Some (deltas, maybeRefill refill (trimTail w2)))))"

definition Apply :: "golib \<Rightarrow> Refiller \<Rightarrow> Window \<Rightarrow> LChange \<Rightarrow> (LiveDelta list \<times> Window) option" where
  "Apply lib refill w ch =
     (case (if lc_deleted ch then Some False else Eval lib (w_pred w) (nil_vals (lc_vals ch))) of
        None \<Rightarrow> None
      | Some matches \<Rightarrow>
          (case indexOf w (lc_aggid ch) of
             None \<Rightarrow> if matches then w_insert lib refill w ch else Some ([], w)
           | Some old \<Rightarrow>
               if matches then w_reposition lib refill w old ch else Some (w_remove refill w old)))"

definition Contains :: "Window \<Rightarrow> string \<Rightarrow> bool" where
  "Contains w aggID = (indexOf w aggID \<noteq> None)"

text \<open>The visible rows; the limit of a validated query is positive.\<close>

definition Visible :: "Window \<Rightarrow> Row list" where
  "Visible w = (if int (length (w_rows w)) < w_n w then w_rows w else take (nat (w_n w)) (w_rows w))"

section \<open>Splicing lists\<close>

lemma length_ins_at [simp]: "pos \<le> length rs \<Longrightarrow> length (ins_at pos r rs) = Suc (length rs)"
  by (simp add: ins_at_def)

lemma length_del_at [simp]: "pos < length rs \<Longrightarrow> length (del_at pos rs) = length rs - 1"
  by (simp add: del_at_def)

lemma map_ins_at: "map f (ins_at pos r rs) = ins_at pos (f r) (map f rs)"
  by (simp add: ins_at_def take_map drop_map)

lemma map_del_at: "map f (del_at pos rs) = del_at pos (map f rs)"
  by (simp add: del_at_def take_map drop_map)

lemma take_ins_full:
  assumes "pos < N" and "N \<le> length rs"
  shows "take N (ins_at pos r rs) = del_at N (ins_at pos r (take N rs))"
    and "ins_at pos r (take N rs) = take N (ins_at pos r rs) @ [rs ! (N - 1)]"
proof -
  have d: "drop pos (take N rs) = take (N - pos - 1) (drop pos rs) @ [rs ! (N - 1)]"
  proof -
    have "drop pos (take N rs) = take (Suc (N - pos - 1)) (drop pos rs)"
      using assms by (simp add: drop_take Suc_diff_Suc)
    also have "\<dots> = take (N - pos - 1) (drop pos rs) @ [drop pos rs ! (N - pos - 1)]"
      using assms by (intro take_Suc_conv_app_nth) simp
    finally show ?thesis using assms by simp
  qed
  have t: "take N (ins_at pos r rs) = take pos rs @ r # take (N - pos - 1) (drop pos rs)"
    using assms by (simp add: ins_at_def take_Cons')
  show snoc: "ins_at pos r (take N rs) = take N (ins_at pos r rs) @ [rs ! (N - 1)]"
    unfolding t using d assms by (simp add: ins_at_def min_absorb1)
  show "take N (ins_at pos r rs) = del_at N (ins_at pos r (take N rs))"
    unfolding snoc using assms by (simp add: del_at_def)
qed

lemma take_ins_short: "pos \<le> length rs \<Longrightarrow> length rs < N \<Longrightarrow> take N (ins_at pos r rs) = ins_at pos r (take N rs)"
  by (simp add: ins_at_def)

lemma take_ins_beyond: "N \<le> pos \<Longrightarrow> pos \<le> length rs \<Longrightarrow> take N (ins_at pos r rs) = take N rs"
  by (simp add: ins_at_def)

lemma take_del_beyond: "N \<le> pos \<Longrightarrow> pos < length rs \<Longrightarrow> take N (del_at pos rs) = take N rs"
  by (simp add: del_at_def min_absorb1)

lemma nth_del_at: "pos < N \<Longrightarrow> N < length rs \<Longrightarrow> del_at pos rs ! (N - 1) = rs ! N"
  by (auto simp: del_at_def nth_append min_def)

lemma take_del_full:
  assumes "pos < N" and "N < length rs"
  shows "take N (del_at pos rs) = ins_at (N - 1) (rs ! N) (del_at pos (take N rs))"
proof -
  have "take N (del_at pos rs) = take pos rs @ take (Suc (N - pos - 1)) (drop (pos + 1) rs)"
    using assms by (simp add: del_at_def Suc_diff_Suc)
  also have "\<dots> = (take pos rs @ take (N - pos - 1) (drop (pos + 1) rs)) @ [rs ! N]"
    using assms by (subst take_Suc_conv_app_nth) (auto simp del: drop_Suc)
  also have "take pos rs @ take (N - pos - 1) (drop (pos + 1) rs) = del_at pos (take N rs)"
    using assms by (simp add: del_at_def drop_take min_absorb1)
  finally show ?thesis using assms by (simp add: ins_at_def)
qed

lemma take_del_short: "length rs \<le> N \<Longrightarrow> take N (del_at pos rs) = del_at pos (take N rs)"
  by (auto simp: del_at_def min_def)

lemma take_move:
  assumes "old < N" and "pos < N" and "old < length rs" and "pos \<le> length rs - 1"
  shows "take N (ins_at pos r (del_at old rs)) = ins_at pos r (del_at old (take N rs))"
proof (cases "N < length rs")
  case True
  have "del_at old (take N rs) = take (N - 1) (del_at old rs)"
    using True assms by (simp add: del_at_def drop_take min_absorb1)
  moreover have "take N (ins_at pos r xs) = ins_at pos r (take (N - 1) xs)" if "pos < N" "pos \<le> length xs" for xs
    using that by (cases N) (auto simp: ins_at_def take_Cons' drop_take min_absorb1 Suc_diff_le)
  ultimately show ?thesis using assms by simp
next
  case False
  then show ?thesis using assms by (simp add: ins_at_def del_at_def)
qed

section \<open>Replaying deltas\<close>

text \<open>What a client renders of a row, and how it applies a delta to its list.\<close>

type_synonym shown = "string \<times> int \<times> rawmsg"

definition shown_row :: "Row \<Rightarrow> shown" where
  "shown_row r = (rw_aggid r, rw_version r, rw_raw r)"

definition client_step :: "shown list \<Rightarrow> LiveDelta \<Rightarrow> shown list" where
  "client_step xs d =
     (let c = (ld_aggid d, ld_version d, ld_row d)
      in case ld_op d of
           OpEnter \<Rightarrow> ins_at (nat (ld_new d)) c xs
         | OpLeave \<Rightarrow> del_at (nat (ld_old d)) xs
         | OpMove \<Rightarrow> ins_at (nat (ld_new d)) c (del_at (nat (ld_old d)) xs)
         | OpUpdate \<Rightarrow> xs[nat (ld_old d) := c]
         | _ \<Rightarrow> xs)"

definition replay_deltas :: "shown list \<Rightarrow> LiveDelta list \<Rightarrow> shown list" where
  "replay_deltas = foldl client_step"

lemma client_steps [simp]:
  "client_step xs (w_delta OpEnter r i j) = ins_at (nat j) (shown_row r) xs"
  "client_step xs (w_delta OpLeave r i j) = del_at (nat i) xs"
  "client_step xs (withChanges (w_delta OpMove r i j) c) = ins_at (nat j) (shown_row r) (del_at (nat i) xs)"
  "client_step xs (withChanges (w_delta OpUpdate r i j) c) = xs[nat i := shown_row r]"
  by (simp_all add: client_step_def w_delta_def withChanges_def shown_row_def)

lemma Visible_take: "0 < w_n w \<Longrightarrow> Visible w = take (nat (w_n w)) (w_rows w)"
  by (simp add: Visible_def)

text \<open>The window holds rows past the visible ones, or the whole result.\<close>

definition buffered :: "Window \<Rightarrow> bool" where
  "buffered w = (w_complete w \<or> int (length (w_rows w)) > w_n w)"

lemma Visible_refill:
  assumes "0 < w_n w" and "0 \<le> w_cushion w" and "w_complete w \<or> w_n w \<le> int (length (w_rows w))"
  shows "Visible (maybeRefill refill (trimTail w)) = Visible w"
    and "Visible (maybeRefill refill w) = Visible w"
proof -
  have refill: "Visible (maybeRefill refill v) = Visible v"
    if "0 < w_n v" and "w_complete v \<or> w_n v \<le> int (length (w_rows v))" for v
    using that by (auto simp: maybeRefill_def Let_def Visible_take split: sum.split)
  show "Visible (maybeRefill refill w) = Visible w" using refill assms by blast
  have "Visible (trimTail w) = Visible w" "w_n (trimTail w) = w_n w"
       "w_complete (trimTail w) \<or> w_n w \<le> int (length (w_rows (trimTail w)))"
    using assms by (auto simp: trimTail_def Visible_take w_cap_def)
  then show "Visible (maybeRefill refill (trimTail w)) = Visible w"
    using refill [of "trimTail w"] assms(1) by simp
qed

lemma find_row_bounds: "find_row rs aggID i = Some k \<Longrightarrow> i \<le> k \<and> k < i + length rs \<and> rw_aggid (rs ! (k - i)) = aggID
    \<and> (\<forall>j < k - i. rw_aggid (rs ! j) \<noteq> aggID)"
proof (induction rs arbitrary: i)
  case (Cons r rs)
  then show ?case
  proof (cases "rw_aggid r = aggID")
    case False
    then have "i + 1 \<le> k \<and> k < i + 1 + length rs \<and> rw_aggid (rs ! (k - (i + 1))) = aggID
        \<and> (\<forall>j < k - (i + 1). rw_aggid (rs ! j) \<noteq> aggID)"
      using Cons.IH [of "i + 1"] Cons.prems False by simp
    then show ?thesis using False by (auto simp: nth_Cons' )
  qed (use Cons in auto)
qed simp

lemma indexOf_Some: "indexOf w aggID = Some old \<Longrightarrow>
    old < length (w_rows w) \<and> rw_aggid (w_rows w ! old) = aggID \<and> (\<forall>j < old. rw_aggid (w_rows w ! j) \<noteq> aggID)"
  using find_row_bounds [of "w_rows w" aggID 0 old] by (simp add: indexOf_def)

lemma search_loop_bounds: "search_loop f i j = Some k \<Longrightarrow> i \<le> j \<Longrightarrow> i \<le> k \<and> k \<le> j"
proof (induction f i j rule: search_loop.induct)
  case (1 f i j)
  show ?case
  proof (cases "i < j")
    case True
    define h where "h = (i + j) div 2"
    have h: "i \<le> h" "h < j" using True by (auto simp: h_def)
    have "search_loop f i j = (case f h of None \<Rightarrow> None
        | Some b \<Rightarrow> if b then search_loop f i h else search_loop f (h + 1) j)"
      using True unfolding h_def by (subst search_loop.simps) (simp add: Let_def)
    then obtain b where b: "f h = Some b" "(if b then search_loop f i h else search_loop f (h + 1) j) = Some k"
      using "1.prems"(1) by (cases "f h") auto
    then show ?thesis using "1.IH"(1) [OF True h_def b(1)] "1.IH"(2) [OF True h_def b(1)] h
      by (cases b) auto
  next
    case False
    then show ?thesis using "1.prems" by (subst (asm) search_loop.simps) auto
  qed
qed

lemma insertPos_le: "insertPos lib w cur = Some pos \<Longrightarrow> pos \<le> length (w_rows w)"
  using search_loop_bounds by (fastforce simp: insertPos_def)

lemma indexOf_not_before:
  assumes "indexOf w aggID = Some old" and "N \<le> old"
  shows "aggID \<notin> rw_aggid ` set (take N (w_rows w))"
proof
  assume "aggID \<in> rw_aggid ` set (take N (w_rows w))"
  then obtain j where "j < N" "rw_aggid (w_rows w ! j) = aggID" by (auto simp: in_set_conv_nth)
  then show False using indexOf_Some [OF assms(1)] assms(2) by auto
qed

text \<open>The row was held below the visible part and is visible afterwards.\<close>

definition promotes :: "Window \<Rightarrow> LChange \<Rightarrow> Window \<Rightarrow> bool" where
  "promotes w ch w' =
     (\<exists>old. indexOf w (lc_aggid ch) = Some old \<and> w_n w \<le> int old
        \<and> lc_aggid ch \<in> rw_aggid ` set (Visible w'))"

lemmas take_map_splice = take_map [symmetric] map_ins_at [symmetric] map_del_at [symmetric] map_update [symmetric]

lemma insert_replays:
  assumes "w_insert lib refill w ch = Some (ds, w')" and "0 < w_n w" and "0 \<le> w_cushion w" and "buffered w"
  shows "replay_deltas (map shown_row (Visible w)) ds = map shown_row (Visible w')"
proof -
  define r where "r = rowFromChange w ch"
  obtain pos where pos: "insertPos lib w (rw_cursor r) = Some pos" "pos \<le> length (w_rows w)"
    using assms(1) insertPos_le by (auto simp: w_insert_def r_def Let_def split: option.splits)
  define w1 where "w1 = w\<lparr>w_rows := ins_at pos r (w_rows w)\<rparr>"
  have vis: "Visible (maybeRefill refill (trimTail w1)) = take (nat (w_n w)) (ins_at pos r (w_rows w))"
    using Visible_refill(1) [of w1 refill] assms(2-4) pos(2) Visible_take [of w1]
    by (auto simp: w1_def buffered_def)
  consider (drop) "ds = []" "w' = w"
    | (full) "pos < nat (w_n w)" "nat (w_n w) \<le> length (w_rows w)" "w' = maybeRefill refill (trimTail w1)"
        "ds = [w_delta OpEnter r (-1) (int pos), w_delta OpLeave (w_rows w ! nat (w_n w - 1)) (w_n w) (-1)]"
    | (room) "pos < nat (w_n w)" "length (w_rows w) < nat (w_n w)" "w' = maybeRefill refill (trimTail w1)"
        "ds = [w_delta OpEnter r (-1) (int pos)]"
    | (beyond) "nat (w_n w) \<le> pos" "w' = maybeRefill refill (trimTail w1)" "ds = []"
    using assms(1,2) pos(1)
    by (auto simp: w_insert_def Let_def r_def [symmetric] w1_def [symmetric] split: if_splits)
  then show ?thesis
  proof cases
    case full
    then show ?thesis using assms(2) vis take_ins_full(1) [of pos "nat (w_n w)" "w_rows w" r]
      by (simp add: replay_deltas_def Visible_take map_ins_at map_del_at)
  next
    case room
    then show ?thesis using assms(2) vis take_ins_short [OF pos(2), of "nat (w_n w)" r]
      by (simp add: replay_deltas_def Visible_take map_ins_at)
  next
    case beyond
    then show ?thesis using assms(2) vis take_ins_beyond [OF _ pos(2), of "nat (w_n w)" r]
      by (simp add: replay_deltas_def Visible_take)
  qed (simp add: replay_deltas_def)
qed

lemma remove_Visible:
  assumes "w_remove refill w old = (ds, w')" and "old < length (w_rows w)"
    and "0 < w_n w" and "0 \<le> w_cushion w" and "buffered w"
  shows "Visible w' = take (nat (w_n w)) (del_at old (w_rows w))"
proof -
  define w1 where "w1 = w\<lparr>w_rows := del_at old (w_rows w)\<rparr>"
  show ?thesis
    using Visible_refill(2) [of w1 refill] assms Visible_take [of w1]
    by (auto simp: w1_def buffered_def w_remove_def Let_def)
qed

lemma remove_replays:
  assumes "w_remove refill w old = (ds, w')" and "old < length (w_rows w)"
    and "0 < w_n w" and "0 \<le> w_cushion w" and "buffered w"
  shows "replay_deltas (map shown_row (Visible w)) ds = map shown_row (Visible w')"
proof -
  note vis = remove_Visible [OF assms]
  show ?thesis
  proof (cases "old < nat (w_n w)")
    case True
    show ?thesis
    proof (cases "nat (w_n w) < length (w_rows w)")
      case full: True
      have n: "del_at old (w_rows w) ! (nat (w_n w) - 1) = w_rows w ! nat (w_n w)"
        using nth_del_at [OF True full] .
      show ?thesis using assms(1-3) True full vis take_del_full [OF True full] n
        by (auto simp: w_remove_def Let_def replay_deltas_def Visible_take map_ins_at map_del_at
            nat_diff_distrib)
    next
      case False
      then show ?thesis using assms(1-3) True vis take_del_short [of "w_rows w" "nat (w_n w)" old]
        by (auto simp: w_remove_def Let_def replay_deltas_def Visible_take map_del_at)
    qed
  next
    case False
    then show ?thesis using assms(1-3) vis take_del_beyond [of "nat (w_n w)" old "w_rows w"]
      by (auto simp: w_remove_def Let_def replay_deltas_def Visible_take)
  qed
qed

text \<open>The cases of a reposition: in place, or moved to \<open>pos\<close> after removal.\<close>

lemma reposition_cases:
  assumes "w_reposition lib refill w old ch = Some (ds, w')" and "0 < w_n w"
  obtains (same) "w' = w\<lparr>w_rows := (w_rows w)[old := rowFromChange w ch]\<rparr>"
      "ds = (if old < nat (w_n w)
             then [withChanges (w_delta OpUpdate (rowFromChange w ch) (int old) (int old))
                     (w_fieldChanges w (w_rows w ! old) (rowFromChange w ch))] else [])"
  | (moved) pos where "insertPos lib (w\<lparr>w_rows := del_at old (w_rows w)\<rparr>) (rw_cursor (rowFromChange w ch)) = Some pos"
      "w' = maybeRefill refill (trimTail (w\<lparr>w_rows := ins_at pos (rowFromChange w ch) (del_at old (w_rows w))\<rparr>))"
      "ds = (if old < nat (w_n w) \<and> pos < nat (w_n w)
             then [withChanges (w_delta OpMove (rowFromChange w ch) (int old) (int pos))
                     (w_fieldChanges w (w_rows w ! old) (rowFromChange w ch))]
             else if old < nat (w_n w)
             then w_delta OpLeave (rowFromChange w ch) (int old) (-1)
                  # (if w_n w - 1 < int (length (ins_at pos (rowFromChange w ch) (del_at old (w_rows w))))
                     then [w_delta OpEnter (ins_at pos (rowFromChange w ch) (del_at old (w_rows w)) ! nat (w_n w - 1))
                             (-1) (w_n w - 1)] else [])
             else if pos < nat (w_n w) then [w_delta OpEnter (rowFromChange w ch) (-1) (int pos)] else [])"
proof -
  have nat: "(int k < w_n w) = (k < nat (w_n w))" for k using assms(2) by linarith
  show thesis
    using assms(1) same moved
    by (auto simp: w_reposition_def Let_def nat split: option.splits if_splits)
qed

lemma reposition_replays:
  assumes rep: "w_reposition lib refill w old ch = Some (ds, w')" and idx: "indexOf w (lc_aggid ch) = Some old"
    and n: "0 < w_n w" and cu: "0 \<le> w_cushion w" and b: "buffered w"
  shows "replay_deltas (map shown_row (Visible w)) ds =
     map shown_row (Visible w') @
       (if promotes w ch w' then [shown_row (w_rows w ! nat (w_n w - 1))] else [])"
  using rep n
proof (cases rule: reposition_cases)
  case same
  define N where "N = nat (w_n w)"
  have old: "old < length (w_rows w)" "\<And>j. j < old \<Longrightarrow> rw_aggid (w_rows w ! j) \<noteq> lc_aggid ch"
    using indexOf_Some [OF idx] by auto
  have "\<not> promotes w ch w'" if "N \<le> old"
    using that n same(1) indexOf_not_before [OF idx that] by (auto simp: promotes_def Visible_take N_def)
  moreover have "\<not> promotes w ch w'" if "old < N"
    using that idx n by (auto simp: promotes_def N_def)
  ultimately have np: "\<not> promotes w ch w'" by (cases "old < N") auto
  show ?thesis
  proof (cases "old < N")
    case True
    then show ?thesis using same n np
      by (simp add: replay_deltas_def Visible_take N_def take_update_swap map_update)
  next
    case False
    then show ?thesis using same n np by (simp add: replay_deltas_def Visible_take N_def)
  qed
next
  case (moved pos)
  define N where "N = nat (w_n w)"
  define r where "r = rowFromChange w ch"
  define rs where "rs = w_rows w"
  have N: "0 < N" "nat (w_n w) = N" "nat (w_n w - 1) = N - 1" using n by (auto simp: N_def)
  have old: "old < length rs" "\<And>j. j < old \<Longrightarrow> rw_aggid (rs ! j) \<noteq> lc_aggid ch"
    using indexOf_Some [OF idx] by (auto simp: rs_def)
  have pos: "pos \<le> length rs - 1"
    using insertPos_le [OF moved(1)] old(1) by (simp add: rs_def)
  define w2 where "w2 = w\<lparr>w_rows := ins_at pos r (del_at old rs)\<rparr>"
  have len: "length (ins_at pos r (del_at old rs)) = length rs" using old(1) pos by simp
  have vis: "Visible w' = take N (ins_at pos r (del_at old rs))"
    using Visible_refill(1) [of w2 refill] moved(2) n cu b Visible_take [of w2] len
    by (auto simp: w2_def r_def rs_def buffered_def N_def)
  have prom: "promotes w ch w' = (N \<le> old \<and> pos < N)"
  proof
    assume "promotes w ch w'"
    then have "N \<le> old" "lc_aggid ch \<in> rw_aggid ` set (Visible w')"
      using idx n by (auto simp: promotes_def N_def)
    moreover have "take N (ins_at pos r (del_at old rs)) = take N rs" if "N \<le> pos" "N \<le> old"
      using that old(1) pos by (simp add: take_ins_beyond take_del_beyond)
    moreover have "lc_aggid ch \<notin> rw_aggid ` set (take N rs)" if "N \<le> old"
      using indexOf_not_before [OF idx that] by (simp add: rs_def)
    ultimately show "N \<le> old \<and> pos < N" using vis by force
  next
    assume a: "N \<le> old \<and> pos < N"
    have "r \<in> set (take N (ins_at pos r (del_at old rs)))"
      using a pos by (auto simp: ins_at_def take_Cons')
    then have "lc_aggid ch \<in> rw_aggid ` set (Visible w')"
      using vis by (force simp: r_def rowFromChange_def)
    then show "promotes w ch w'" using a idx n by (auto simp: promotes_def N_def)
  qed
  note ds = moved(3) [folded r_def rs_def, unfolded N]
  consider (vv) "old < N" "pos < N" | (vh) "old < N" "N \<le> pos" | (hv) "N \<le> old" "pos < N" | (hh) "N \<le> old" "N \<le> pos"
    by linarith
  then show ?thesis
  proof cases
    case vv
    then show ?thesis using ds prom vis n take_move [OF vv old(1) pos, of r]
      by (simp add: replay_deltas_def Visible_take N rs_def [symmetric] map_ins_at map_del_at)
  next
    case vh
    have "N < length rs" using vh pos old(1) by linarith
    moreover have "ins_at pos r (del_at old rs) ! (N - 1) = rs ! N"
      using nth_del_at [OF vh(1) \<open>N < length rs\<close>] vh N(1) old(1) \<open>N < length rs\<close>
      by (auto simp: ins_at_def nth_append)
    moreover have "w_n w - 1 < int (length rs)" using \<open>N < length rs\<close> by (simp add: N_def)
    ultimately show ?thesis
      using ds prom vis n vh len take_del_full [OF vh(1) \<open>N < length rs\<close>]
        take_ins_beyond [OF vh(2), of "del_at old rs" r] pos old(1)
      by (simp add: replay_deltas_def Visible_take N rs_def [symmetric] map_ins_at map_del_at)
  next
    case hv
    have "take N (ins_at pos r (del_at old rs)) = take N (ins_at pos r rs)"
      using hv old(1) by (simp add: ins_at_def del_at_def take_Cons' drop_take min_absorb1)
    then show ?thesis
      using ds prom vis n hv old(1) take_ins_full(2) [of pos N rs r]
      by (simp add: replay_deltas_def Visible_take N rs_def [symmetric] map_ins_at [symmetric])
  next
    case hh
    then show ?thesis using ds prom vis n old(1) pos take_ins_beyond [of N pos "del_at old rs" r]
        take_del_beyond [of N old rs]
      by (simp add: replay_deltas_def Visible_take N rs_def [symmetric])
  qed
qed

lemma Apply_replays:
  assumes "Apply lib refill w ch = Some (ds, w')"
    and "0 < w_n w" and "0 \<le> w_cushion w" and "buffered w"
  shows "replay_deltas (map shown_row (Visible w)) ds =
     map shown_row (Visible w') @
       (if promotes w ch w' then [shown_row (w_rows w ! nat (w_n w - 1))] else [])"
proof -
  obtain m where m: "(if lc_deleted ch then Some False else Eval lib (w_pred w) (nil_vals (lc_vals ch))) = Some m"
    using assms(1) by (auto simp: Apply_def split: option.splits)
  show ?thesis
  proof (cases "indexOf w (lc_aggid ch)")
    case None
    then have "\<not> promotes w ch w'" by (simp add: promotes_def)
    moreover have "(if m then w_insert lib refill w ch else Some ([], w)) = Some (ds, w')"
      using assms(1) m None by (simp add: Apply_def)
    ultimately show ?thesis using insert_replays [OF _ assms(2-4)]
      by (cases m) (auto simp: replay_deltas_def)
  next
    case (Some old)
    then have s: "(if m then w_reposition lib refill w old ch else Some (w_remove refill w old)) = Some (ds, w')"
      using assms(1) m by (simp add: Apply_def)
    show ?thesis
    proof (cases m)
      case True
      then show ?thesis using reposition_replays [OF _ Some assms(2-4)] s by simp
    next
      case False
      have old: "old < length (w_rows w)" using indexOf_Some [OF Some] by blast
      have rm: "w_remove refill w old = (ds, w')" using s False by simp
      have "\<not> promotes w ch w'"
        using Some indexOf_not_before [OF Some, of "nat (w_n w)"] remove_Visible [OF rm old assms(2-4)]
          take_del_beyond [of "nat (w_n w)" old "w_rows w"] old
        by (auto simp: promotes_def)
      then show ?thesis using remove_replays [OF rm old assms(2-4)] by simp
    qed
  qed
qed

section \<open>Streams of changes\<close>

text \<open>A window fed with changes; each step sees its own state of the refill port.\<close>

fun w_run :: "golib \<Rightarrow> (Refiller \<times> LChange) list \<Rightarrow> Window \<Rightarrow> (LiveDelta list \<times> Window) option" where
  "w_run lib [] w = Some ([], w)"
| "w_run lib ((refill, ch) # chs) w =
     (case Apply lib refill w ch of
        None \<Rightarrow> None
      | Some (ds, w1) \<Rightarrow>
          (case w_run lib chs w1 of None \<Rightarrow> None | Some (ds', w2) \<Rightarrow> Some (ds @ ds', w2)))"

text \<open>No change of the stream moves a row from the cushion into the visible part.\<close>

fun no_promotion :: "golib \<Rightarrow> (Refiller \<times> LChange) list \<Rightarrow> Window \<Rightarrow> bool" where
  "no_promotion lib [] w = True"
| "no_promotion lib ((refill, ch) # chs) w =
     (case Apply lib refill w ch of
        None \<Rightarrow> True
      | Some (ds, w1) \<Rightarrow> \<not> promotes w ch w1 \<and> no_promotion lib chs w1)"

definition refill_up :: "Refiller \<Rightarrow> bool" where
  "refill_up refill = (\<forall>q after need. \<exists>rs. refill q after need = Inr rs)"

lemma maybeRefill_frame [simp]:
  "w_n (maybeRefill refill w) = w_n w" "w_cushion (maybeRefill refill w) = w_cushion w"
  "w_n (trimTail w) = w_n w" "w_cushion (trimTail w) = w_cushion w"
  by (auto simp: maybeRefill_def trimTail_def Let_def split: sum.split)

lemma refill_buffered:
  assumes "refill_up refill" and "2 \<le> w_cushion w"
  shows "buffered (maybeRefill refill w)"
proof (cases "w_complete w \<or> int (length (w_rows w)) \<ge> w_n w + w_cushion w div 2")
  case True
  moreover have "w_cushion w div 2 \<ge> 1" using assms(2) by simp
  ultimately show ?thesis by (auto simp: maybeRefill_def buffered_def)
next
  case False
  define after where "after = (if w_rows w \<noteq> [] then rw_cursor (last (w_rows w))
    else (case lq_cursor (w_q w) of Some c \<Rightarrow> c | None \<Rightarrow> []))"
  obtain extra where "refill (w_q w) after (w_cap w - int (length (w_rows w))) = Inr extra"
    using assms(1) unfolding refill_up_def by blast
  then show ?thesis using False assms(2)
    by (simp add: maybeRefill_def after_def [symmetric] buffered_def w_cap_def Let_def) linarith
qed

lemma Apply_frame:
  assumes "Apply lib refill w ch = Some (ds, w')"
  shows "w_n w' = w_n w \<and> w_cushion w' = w_cushion w"
  using assms
  by (auto simp: Apply_def w_insert_def w_remove_def w_reposition_def Let_def split: option.splits if_splits)

lemma Apply_buffered:
  assumes "Apply lib refill w ch = Some (ds, w')" and "refill_up refill" and "2 \<le> w_cushion w" and "buffered w"
  shows "buffered w'"
  using assms refill_buffered [OF assms(2)]
  by (auto simp: Apply_def w_insert_def w_remove_def w_reposition_def Let_def split: option.splits if_splits)
     (auto simp: buffered_def)


text \<open>
  A change that lifts a row from the cushion into a full visible part enters the row
  without letting the pushed-out row leave: the client is left with one row too many.
\<close>

theorem promotion_leaks_row:
  assumes "Apply lib refill w ch = Some (ds, w')" and "promotes w ch w'"
    and "0 < w_n w" and "0 \<le> w_cushion w" and "buffered w"
  shows "replay_deltas (map shown_row (Visible w)) ds =
     map shown_row (Visible w') @ [shown_row (w_rows w ! nat (w_n w - 1))]"
  using Apply_replays [OF assms(1,3-5)] assms(2) by simp

section \<open>A ranked list of three\<close>

definition ranked_query :: LiveQuery where
  "ranked_query = \<lparr>lq_entity = ''widget'', lq_where = [], lq_sort = [\<lparr>sk_column = ''rank'', sk_desc = False\<rparr>],
     lq_limit = 2, lq_cursor = None, lq_mode = ModeMaintained, lq_fielddeltas = True\<rparr>"

definition ranked_vals :: "rat \<Rightarrow> vals" where
  "ranked_vals k = [(''rank'', VFloat64 (Fin k))]"

definition ranked_row :: "string \<Rightarrow> int \<Rightarrow> rat \<Rightarrow> Row" where
  "ranked_row i v k = \<lparr>rw_aggid = i, rw_version = v, rw_cursor = [VFloat64 (Fin k), VStr i],
     rw_raw = RawJson (JFlt (Fin k)), rw_vals = Some (ranked_vals k)\<rparr>"

definition ranked_change :: "string \<Rightarrow> int \<Rightarrow> rat \<Rightarrow> LChange" where
  "ranked_change i v k = \<lparr>lc_aggid = i, lc_version = v, lc_deleted = False, lc_vals = Some (ranked_vals k),
     lc_raw = RawJson (JFlt (Fin k)), lc_stream = [], lc_at = (0, 0)\<rparr>"

definition ranked_window :: Window where
  "ranked_window = NewWindow ranked_query []
     [ranked_row ''a'' 1 1, ranked_row ''b'' 1 2, ranked_row ''c'' 1 3] True 2"

definition no_more :: Refiller where
  "no_more q after need = Inr []"

lemmas ranked_defs = ranked_query_def ranked_vals_def ranked_row_def ranked_change_def ranked_window_def
  no_more_def NewWindow_def

lemmas window_eval = Apply_def w_insert_def w_remove_def w_reposition_def insertPos_def indexOf_def
  rowFromChange_def SortKeyOf_def nil_vals_def CompareCursors_def Order_def compare_def toFloat_def
  three_way_def id_of_def maybeRefill_def trimTail_def w_cap_def ins_at_def del_at_def search_loop.simps
  Let_def mget_or_def Eval_def


theorem promotion_leaks_row_witness:
  "\<exists>ds w'. Apply demo_lib no_more ranked_window (ranked_change ''c'' 2 0) = Some (ds, w')
     \<and> length (Visible w') = 2
     \<and> length (replay_deltas (map shown_row (Visible ranked_window)) ds) = 3"
proof -
  obtain ds w' where r: "Apply demo_lib no_more ranked_window (ranked_change ''c'' 2 0) = Some (ds, w')"
      and v: "map rw_aggid (Visible w') = [''c'', ''a'']"
    by (simp add: ranked_defs window_eval Visible_def)
  have "''c'' \<in> rw_aggid ` set (Visible w')"
    using v by (metis list.set_intros(1) set_map)
  then have "promotes ranked_window (ranked_change ''c'' 2 0) w'"
    by (simp add: promotes_def ranked_defs indexOf_def)
  from promotion_leaks_row [OF r this] r arg_cong [OF v, of length] show ?thesis
    by (auto simp: ranked_window_def NewWindow_def ranked_query_def buffered_def)
qed

end
