(* ===== verification/LivePrefix.thy ===== *)
theory LivePrefix
  imports LiveWindow
begin

text \<open>
  The maintained window against the query's result: the order of cursors on typed
  columns, the exact-prefix property of the window and where it fails, and the meaning
  of field deltas.
\<close>

section \<open>Ordered rows\<close>

text \<open>
  What the window needs of its order: a three-way comparison that is antisymmetric and
  transitive on the rows it holds.
\<close>

locale row_order =
  fixes cmp :: "'r \<Rightarrow> 'r \<Rightarrow> int" and ok :: "'r \<Rightarrow> bool"
  assumes anti: "ok a \<Longrightarrow> ok b \<Longrightarrow> cmp b a = - cmp a b"
    and trans: "ok a \<Longrightarrow> ok b \<Longrightarrow> ok c \<Longrightarrow> cmp a b \<le> 0 \<Longrightarrow> cmp b c \<le> 0 \<Longrightarrow> cmp a c \<le> 0"
begin

definition ascending :: "'r list \<Rightarrow> bool" where
  "ascending xs = (list_all ok xs \<and> sorted_wrt (\<lambda>a b. cmp a b < 0) xs)"

definition rank :: "'r \<Rightarrow> 'r list \<Rightarrow> nat" where
  "rank r xs = length (filter (\<lambda>x. cmp x r < 0) xs)"

lemma less_trans:
  assumes "ok a" and "ok b" and "ok c" and "cmp a b < 0" and "cmp b c \<le> 0"
  shows "cmp a c < 0"
proof (rule ccontr)
  assume "\<not> cmp a c < 0"
  then have "cmp c a \<le> 0" using anti [of a c] assms by simp
  then have "cmp b a \<le> 0" using trans [of b c a] assms by simp
  then show False using anti [of a b] assms by simp
qed

lemma ascending_rank:
  assumes "ascending xs" and "ok r" and "k < length xs"
  shows "(cmp (xs ! k) r < 0) = (k < rank r xs)"
  using assms
proof (induction xs arbitrary: k)
  case (Cons x xs)
  have asc: "ascending xs" and x: "ok x" "\<And>y. y \<in> set xs \<Longrightarrow> cmp x y < 0 \<and> ok y"
    using Cons.prems(1) by (auto simp: ascending_def list_all_iff)
  show ?case
  proof (cases "cmp x r < 0")
    case True
    then show ?thesis using Cons.IH [OF asc Cons.prems(2)] Cons.prems(3)
      by (cases k) (auto simp: rank_def)
  next
    case False
    have "\<not> cmp y r < 0" if "y \<in> set xs" for y
      using less_trans [of x y r] x that False Cons.prems(2) by force
    then have "filter (\<lambda>y. cmp y r < 0) (x # xs) = []" using False by auto
    then show ?thesis using False \<open>\<And>y. y \<in> set xs \<Longrightarrow> \<not> cmp y r < 0\<close> Cons.prems(3)
      by (cases k) (auto simp: rank_def)
  qed
qed simp

lemma rank_le: "rank r xs \<le> length xs"
  by (simp add: rank_def)

lemma ascending_take: "ascending xs \<Longrightarrow> ascending (take m xs)"
  by (auto simp: ascending_def sorted_wrt_take list_all_iff dest: in_set_takeD)

lemma rank_take:
  assumes "ascending xs" and "ok r"
  shows "rank r (take m xs) = min m (rank r xs)"
proof -
  have same: "(k < rank r (take m xs)) = (k < rank r xs)" if "k < min m (length xs)" for k
    using ascending_rank [OF ascending_take [OF assms(1)] assms(2), of k m] ascending_rank [OF assms, of k] that
    by simp
  have "rank r (take m xs) \<le> min m (length xs)" "rank r xs \<le> length xs"
    using rank_le [of r "take m xs"] rank_le [of r xs] by (simp_all add: min.commute)
  then show ?thesis using same [of "rank r (take m xs)"] same [of "rank r xs"] by linarith
qed

text \<open>Inserting into a prefix is inserting into the whole, unless the row lands at its end.\<close>

lemma insert_prefix:
  assumes "ascending xs" and "ok r" and "m \<le> length xs"
    and "rank r (take m xs) < m \<or> m = length xs"
  shows "ins_at (rank r (take m xs)) r (take m xs) = take (m + 1) (ins_at (rank r xs) r xs)"
proof -
  have "rank r (take m xs) = rank r xs"
    using rank_take [OF assms(1,2)] assms(3,4) rank_le [of r xs] by auto
  moreover have "rank r xs \<le> m" using calculation assms(3) rank_le [of r "take m xs"] by simp
  ultimately show ?thesis
    using rank_le [of r xs]
    by (cases "m - rank r xs") (auto simp: ins_at_def drop_take take_Cons' Suc_diff_le min_absorb1 min_absorb2)
qed

lemma insert_beyond:
  assumes "ascending xs" and "ok r" and "m \<le> length xs" and "rank r (take m xs) = m"
  shows "take m (ins_at (rank r xs) r xs) = take m xs"
  using rank_take [OF assms(1,2), of m] assms(3,4) rank_le [of r xs]
  by (simp add: ins_at_def)

end

section \<open>The order of cursors\<close>

datatype keytype = KeyNum | KeyStr

definition key_ok :: "keytype \<Rightarrow> gval \<Rightarrow> bool" where
  "key_ok t v = (case t of
     KeyNum \<Rightarrow> (case toFloat v of Some x \<Rightarrow> x \<noteq> NaN | None \<Rightarrow> False)
   | KeyStr \<Rightarrow> (case v of VStr _ \<Rightarrow> True | _ \<Rightarrow> False))"

text \<open>A cursor made from a row whose sort columns hold non-null values of one type each.\<close>

definition cursor_ok :: "SortKey list \<Rightarrow> keytype list \<Rightarrow> Cursor \<Rightarrow> bool" where
  "cursor_ok srt tys c =
     (length tys = length srt \<and> c \<noteq> [] \<and> list_all2 key_ok tys (butlast c)
      \<and> (case last c of VStr _ \<Rightarrow> True | _ \<Rightarrow> False))"

definition row_cmp :: "golib \<Rightarrow> SortKey list \<Rightarrow> Row \<Rightarrow> Row \<Rightarrow> int" where
  "row_cmp lib srt a b = the (CompareCursors lib (rw_cursor a) (rw_cursor b) srt)"

definition row_ok :: "SortKey list \<Rightarrow> keytype list \<Rightarrow> Row \<Rightarrow> bool" where
  "row_ok srt tys r = (cursor_ok srt tys (rw_cursor r) \<and> last (rw_cursor r) = VStr (rw_aggid r))"

text \<open>The value order of one key type.\<close>

lemma Order_num: "toFloat a = Some x \<Longrightarrow> toFloat b = Some y \<Longrightarrow>
    Order lib a b = three_way (f64_lt x y) (f64_lt y x)"
  by (simp add: Order_def compare_def)

lemma Order_str: "Order lib (VStr s) (VStr t) = three_way (s < t) (t < s)"
  by (simp add: Order_def compare_def toFloat_def)

lemma key_okE:
  assumes "key_ok t a"
  obtains (num) x where "t = KeyNum" "toFloat a = Some x" "x \<noteq> NaN" | (str) s where "t = KeyStr" "a = VStr s"
  using assms by (auto simp: key_ok_def split: keytype.splits option.splits gval.splits)

lemma Order_key:
  assumes "key_ok t a" and "key_ok t b"
  shows "Order lib b a = - Order lib a b"
  using assms
  by (auto elim!: key_okE simp: Order_num Order_str three_way_def dest: f64_lt_asym)

lemma Order_key_trans:
  assumes "key_ok t a" and "key_ok t b" and "key_ok t c" and "Order lib a b \<le> 0" and "Order lib b c \<le> 0"
  shows "Order lib a c \<le> 0"
  using assms(1)
proof (cases rule: key_okE)
  case (num x)
  then obtain y z where "toFloat b = Some y" "toFloat c = Some z" "y \<noteq> NaN" "z \<noteq> NaN"
    using assms(2,3) by (auto elim!: key_okE)
  then show ?thesis using num assms(4,5) f64_lt_total [of x y] f64_lt_total [of y z] f64_lt_trans [of x y z]
    by (auto simp: Order_num three_way_def dest: f64_lt_asym split: if_splits)
next
  case (str s)
  then obtain t u where "b = VStr t" "c = VStr u" using assms(2,3) by (auto elim!: key_okE)
  then show ?thesis using str assms(4,5) by (auto simp: Order_str three_way_def split: if_splits)
qed

lemma Order_key_mid:
  assumes k: "key_ok t a" "key_ok t b" "key_ok t c" and "Order lib a b \<le> 0" "Order lib b c \<le> 0" "Order lib a c = 0"
  shows "Order lib a b = 0 \<and> Order lib b c = 0"
proof -
  have "Order lib c a \<le> 0" using Order_key [OF k(1,3), of lib] assms(6) by simp
  then have "Order lib c b \<le> 0" "Order lib b a \<le> 0"
    using Order_key_trans [OF k(3,1,2)] Order_key_trans [OF k(2,3,1)] assms(4,5) by blast+
  then show ?thesis
    using Order_key [OF k(1,2), of lib] Order_key [OF k(2,3), of lib] assms(4,5) by linarith
qed

text \<open>The keys of a cursor, compared one after the other.\<close>

lemma compare_keys_typed:
  assumes "length tys = length srt" and "list_all2 key_ok tys as" and "list_all2 key_ok tys bs"
  shows "\<exists>c. compare_keys lib srt (as @ x) (bs @ y) = Some c \<and> compare_keys lib srt (bs @ y) (as @ x) = Some (- c)"
  using assms
proof (induction srt arbitrary: tys as bs)
  case (Cons s srt)
  obtain t tys' where tys: "tys = t # tys'" using Cons.prems(1) by (cases tys) auto
  obtain a as' b bs' where s: "as = a # as'" "bs = b # bs'"
    using Cons.prems(2,3) unfolding tys list_all2_Cons1 by blast
  note s = tys s
  have "Order lib b a = - Order lib a b" using Cons.prems s by (intro Order_key [of t]) auto
  then show ?case using Cons.IH [of tys' as' bs'] Cons.prems s by (auto simp: Let_def)
qed simp

lemma compare_keys_trans:
  assumes "length tys = length srt" and "list_all2 key_ok tys as" "list_all2 key_ok tys bs" "list_all2 key_ok tys cs"
    and "compare_keys lib srt (as @ x) (bs @ y) = Some c1" "compare_keys lib srt (bs @ y) (cs @ z) = Some c2"
    and "c1 \<le> 0" "c2 \<le> 0"
  shows "\<exists>c3. compare_keys lib srt (as @ x) (cs @ z) = Some c3 \<and> c3 \<le> 0 \<and> (c3 = 0 \<longrightarrow> c1 = 0 \<and> c2 = 0)"
  using assms
proof (induction srt arbitrary: tys as bs cs)
  case (Cons s srt)
  obtain t tys' where tys: "tys = t # tys'" using Cons.prems(1) by (cases tys) auto
  obtain a as' b bs' d cs' where s: "as = a # as'" "bs = b # bs'" "cs = d # cs'"
    using Cons.prems(2-4) unfolding tys list_all2_Cons1 by blast
  note s = tys s
  define o1 o2 o3 where o: "o1 = (if sk_desc s then - Order lib a b else Order lib a b)"
    "o2 = (if sk_desc s then - Order lib b d else Order lib b d)"
    "o3 = (if sk_desc s then - Order lib a d else Order lib a d)"
  have k: "key_ok t a" "key_ok t b" "key_ok t d" using Cons.prems s by auto
  have o3: "o1 \<le> 0 \<and> o2 \<le> 0 \<longrightarrow> o3 \<le> 0 \<and> (o3 = 0 \<longrightarrow> o1 = 0 \<and> o2 = 0)"
  proof (cases "sk_desc s")
    case True
    then have "o1 = Order lib b a" "o2 = Order lib d b" "o3 = Order lib d a"
      using Order_key [OF k(1,2), of lib] Order_key [OF k(2,3), of lib] Order_key [OF k(1,3), of lib]
      by (simp_all add: o)
    then show ?thesis using Order_key_trans [OF k(3,2,1), of lib] Order_key_mid [OF k(3,2,1), of lib] by simp
  next
    case False
    then show ?thesis using Order_key_trans [OF k, of lib] Order_key_mid [OF k, of lib] by (simp add: o)
  qed
  have c1: "(if o1 \<noteq> 0 then Some o1 else compare_keys lib srt (as' @ x) (bs' @ y)) = Some c1"
    using Cons.prems(5) by (simp only: s append_Cons compare_keys.simps Let_def o)
  have c2: "(if o2 \<noteq> 0 then Some o2 else compare_keys lib srt (bs' @ y) (cs' @ z)) = Some c2"
    using Cons.prems(6) by (simp only: s append_Cons compare_keys.simps Let_def o)
  have r: "compare_keys lib (s # srt) (as @ x) (cs @ z) =
      (if o3 \<noteq> 0 then Some o3 else compare_keys lib srt (as' @ x) (cs' @ z))"
    by (simp only: s append_Cons compare_keys.simps Let_def o)
  have o12: "o1 \<le> 0 \<and> o2 \<le> 0" using c1 c2 Cons.prems by (auto split: if_splits)
  show ?case
  proof (cases "o3 = 0")
    case True
    then show ?thesis using o3 o12 c1 c2 r Cons.IH [of tys' as' bs' cs'] Cons.prems s by auto
  next
    case False
    then show ?thesis using o3 o12 r by auto
  qed
qed simp

lemma cursor_okE:
  assumes "cursor_ok srt tys c"
  obtains ks i where "c = ks @ [VStr i]" "length tys = length srt" "list_all2 key_ok tys ks"
proof -
  have "c = butlast c @ [last c]" using assms by (simp add: cursor_ok_def)
  moreover obtain i where "last c = VStr i" using assms by (auto simp: cursor_ok_def split: gval.splits)
  ultimately show thesis using that assms by (metis cursor_ok_def)
qed

lemma CompareCursors_typed:
  assumes "cursor_ok srt tys a" and "cursor_ok srt tys b"
  shows "\<exists>c. CompareCursors lib a b srt = Some c \<and> CompareCursors lib b a srt = Some (- c)"
proof -
  obtain as i where a: "a = as @ [VStr i]" "length tys = length srt" "list_all2 key_ok tys as"
    using assms(1) by (rule cursor_okE)
  obtain bs j where b: "b = bs @ [VStr j]" "list_all2 key_ok tys bs"
    using assms(2) by (rule cursor_okE)
  obtain c where "compare_keys lib srt a b = Some c" "compare_keys lib srt b a = Some (- c)"
    using compare_keys_typed [OF a(2,3) b(2)] unfolding a(1) b(1) by blast
  then show ?thesis by (auto simp: CompareCursors_def a(1) b(1) id_of_def three_way_def)
qed

lemma CompareCursors_trans:
  assumes "cursor_ok srt tys a" and "cursor_ok srt tys b" and "cursor_ok srt tys c"
    and "CompareCursors lib a b srt = Some x" "x \<le> 0" and "CompareCursors lib b c srt = Some y" "y \<le> 0"
  shows "\<exists>z. CompareCursors lib a c srt = Some z \<and> z \<le> 0"
proof -
  obtain as i where a: "a = as @ [VStr i]" "length tys = length srt" "list_all2 key_ok tys as"
    using assms(1) by (rule cursor_okE)
  obtain bs j where b: "b = bs @ [VStr j]" "list_all2 key_ok tys bs"
    using assms(2) by (rule cursor_okE)
  obtain cs k where c: "c = cs @ [VStr k]" "list_all2 key_ok tys cs"
    using assms(3) by (rule cursor_okE)
  obtain x1 y1 where k: "compare_keys lib srt a b = Some x1" "compare_keys lib srt b c = Some y1"
    using assms(4,6) by (auto simp: CompareCursors_def split: option.splits)
  have xy: "x1 \<le> 0" "y1 \<le> 0" "x1 = 0 \<Longrightarrow> i \<le> j" "y1 = 0 \<Longrightarrow> j \<le> k"
    using assms(4-7) k by (auto simp: CompareCursors_def a(1) b(1) c(1) id_of_def three_way_def split: if_splits)
  obtain z where "compare_keys lib srt a c = Some z" "z \<le> 0" "z = 0 \<longrightarrow> x1 = 0 \<and> y1 = 0"
    using compare_keys_trans [OF a(2,3) b(2) c(2)] k xy(1,2) unfolding a(1) b(1) c(1) by blast
  then show ?thesis using xy by (auto simp: CompareCursors_def a(1) c(1) id_of_def three_way_def)
qed

interpretation rows: row_order "row_cmp lib srt" "row_ok srt tys" for lib srt tys
proof
  show "row_cmp lib srt b a = - row_cmp lib srt a b" if "row_ok srt tys a" "row_ok srt tys b" for a b
    using CompareCursors_typed [of srt tys "rw_cursor a" "rw_cursor b" lib] that
    by (auto simp: row_cmp_def row_ok_def)
  show "row_cmp lib srt a c \<le> 0"
    if "row_ok srt tys a" "row_ok srt tys b" "row_ok srt tys c" "row_cmp lib srt a b \<le> 0" "row_cmp lib srt b c \<le> 0"
    for a b c
    using CompareCursors_typed [of srt tys "rw_cursor a" "rw_cursor b" lib]
      CompareCursors_typed [of srt tys "rw_cursor b" "rw_cursor c" lib]
      CompareCursors_trans [of srt tys "rw_cursor a" "rw_cursor b" "rw_cursor c" lib] that
    by (force simp: row_cmp_def row_ok_def)
qed

section \<open>The exact prefix\<close>

text \<open>Two rows of different aggregates never compare equal.\<close>

lemma row_cmp_zero:
  assumes "row_ok srt tys a" and "row_ok srt tys b" and "row_cmp lib srt a b = 0"
  shows "rw_aggid a = rw_aggid b"
proof -
  obtain c where c: "CompareCursors lib (rw_cursor a) (rw_cursor b) srt = Some c"
    using CompareCursors_typed assms(1,2) unfolding row_ok_def by blast
  then have "c = 0" using assms(3) by (simp add: row_cmp_def)
  then show ?thesis using c assms(1,2)
    by (auto simp: CompareCursors_def row_ok_def id_of_def three_way_def split: option.splits if_splits)
qed

lemma search_loop_spec:
  assumes "\<And>k. k < n \<Longrightarrow> f k = Some (m \<le> k)" and "i \<le> m" and "m \<le> j" and "j \<le> n"
  shows "search_loop f i j = Some m"
  using assms
proof (induction f i j rule: search_loop.induct)
  case (1 f i j)
  show ?case
  proof (cases "i < j")
    case True
    define h where "h = (i + j) div 2"
    have h: "i \<le> h" "h < j" using True by (auto simp: h_def)
    have fh: "f h = Some (m \<le> h)" using "1.prems"(1,4) h by simp
    have "search_loop f i j = (if m \<le> h then search_loop f i h else search_loop f (h + 1) j)"
      using True fh unfolding h_def by (subst search_loop.simps) (simp add: Let_def)
    then show ?thesis using "1.IH" [OF True h_def fh] "1.prems" h by auto
  next
    case False
    then show ?thesis using "1.prems" by (subst search_loop.simps) auto
  qed
qed

lemma insertPos_rank:
  assumes "rows.ascending lib srt tys (w_rows w)" and "row_ok srt tys r" and "lq_sort (w_q w) = srt"
    and "\<forall>x \<in> set (w_rows w). rw_aggid x \<noteq> rw_aggid r"
  shows "insertPos lib w (rw_cursor r) = Some (rows.rank lib srt r (w_rows w))"
proof -
  have ok: "row_ok srt tys x" if "x \<in> set (w_rows w)" for x
    using assms(1) that by (auto simp: rows.ascending_def list_all_iff)
  have "map_option (\<lambda>c. c > 0) (CompareCursors lib (rw_cursor (w_rows w ! k)) (rw_cursor r) srt)
      = Some (rows.rank lib srt r (w_rows w) \<le> k)" if "k < length (w_rows w)" for k
  proof -
    let ?x = "w_rows w ! k"
    have x: "row_ok srt tys ?x" "rw_aggid ?x \<noteq> rw_aggid r" using ok assms(4) that by auto
    obtain c where c: "CompareCursors lib (rw_cursor ?x) (rw_cursor r) srt = Some c"
      using CompareCursors_typed x(1) assms(2) unfolding row_ok_def by blast
    have "c \<noteq> 0" using row_cmp_zero [OF x(1) assms(2), of lib] x(2) c by (auto simp: row_cmp_def)
    moreover have "(c < 0) = (k < rows.rank lib srt r (w_rows w))"
      using rows.ascending_rank [OF assms(1,2) that] c by (simp add: row_cmp_def)
    ultimately show ?thesis using c by auto
  qed
  then show ?thesis
    unfolding insertPos_def assms(3) using rows.rank_le
    by (intro search_loop_spec [where n = "length (w_rows w)"]) auto
qed

text \<open>The rows are a prefix of the result, all of it when the window says so.\<close>

definition exact :: "Window \<Rightarrow> Row list \<Rightarrow> bool" where
  "exact w res =
     (w_rows w = take (length (w_rows w)) res \<and> (w_complete w \<longrightarrow> length (w_rows w) = length res))"

text \<open>The refill port reads the result: the rows after a held one, or from the anchor.\<close>

definition serves :: "Refiller \<Rightarrow> LiveQuery \<Rightarrow> Row list \<Rightarrow> bool" where
  "serves refill q res =
     ((\<forall>k < length res. \<forall>need. refill q (rw_cursor (res ! k)) need = Inr (take (nat need) (drop (k + 1) res)))
      \<and> (\<forall>need. refill q (case lq_cursor q of Some c \<Rightarrow> c | None \<Rightarrow> []) need = Inr (take (nat need) res)))"

text \<open>The result after a change.\<close>

definition result_after :: "golib \<Rightarrow> SortKey list \<Rightarrow> Row list \<Rightarrow> Row \<Rightarrow> bool \<Rightarrow> Row list" where
  "result_after lib srt res r matches =
     (let rest = filter (\<lambda>x. rw_aggid x \<noteq> rw_aggid r) res
      in if matches then ins_at (length (filter (\<lambda>x. row_cmp lib srt x r < 0) rest)) r rest else rest)"

lemma exact_len: "exact w res \<Longrightarrow> length (w_rows w) \<le> length res"
  unfolding exact_def by (metis length_take min.cobounded1)

lemma exact_trim:
  assumes "exact w res" and "0 \<le> w_cap w"
  shows "exact (trimTail w) res"
proof (cases "int (length (w_rows w)) > w_cap w")
  case True
  have "w_rows w = take (length (w_rows w)) res" using assms(1) by (simp add: exact_def)
  then have "take (nat (w_cap w)) (w_rows w) = take (nat (w_cap w)) (take (length (w_rows w)) res)" by (rule arg_cong)
  also have "\<dots> = take (nat (w_cap w)) res" using True by (simp add: min_absorb1)
  finally show ?thesis using True by (simp add: exact_def trimTail_def min_def)
next
  case False
  then show ?thesis using assms(1) by (simp add: trimTail_def)
qed

lemma exact_refill:
  assumes "exact w res" and "serves refill (w_q w) res" and "0 \<le> w_cushion w"
  shows "exact (maybeRefill refill w) res"
proof (cases "w_complete w \<or> int (length (w_rows w)) \<ge> w_n w + w_cushion w div 2")
  case True
  then show ?thesis using assms(1) by (auto simp: maybeRefill_def)
next
  case False
  let ?len = "length (w_rows w)" and ?need = "w_cap w - int (length (w_rows w))"
  define after where "after = (if w_rows w \<noteq> [] then rw_cursor (last (w_rows w))
      else (case lq_cursor (w_q w) of Some c \<Rightarrow> c | None \<Rightarrow> []))"
  have rows: "w_rows w = take ?len res" "?len \<le> length res"
    using assms(1) exact_len by (auto simp: exact_def)
  have "refill (w_q w) after ?need = Inr (take (nat ?need) (drop ?len res))"
  proof (cases "w_rows w = []")
    case True
    then show ?thesis using assms(2) by (simp add: after_def serves_def)
  next
    case ne: False
    then have "last (w_rows w) = take ?len res ! (?len - 1)" using rows(1) last_conv_nth by metis
    then have "last (w_rows w) = res ! (?len - 1)" using ne by simp
    moreover have "?len - 1 < length res" "?len - 1 + 1 = ?len" using ne rows(2) by (cases "w_rows w"; auto)+
    moreover have "refill (w_q w) (rw_cursor (res ! (?len - 1))) ?need
        = Inr (take (nat ?need) (drop (?len - 1 + 1) res))"
      using assms(2) calculation(2) by (simp add: serves_def)
    ultimately show ?thesis using ne by (simp add: after_def)
  qed
  then have m: "maybeRefill refill w = w\<lparr>w_rows := w_rows w @ take (nat ?need) (drop ?len res),
      w_complete := w_complete w \<or> int (length (take (nat ?need) (drop ?len res))) < ?need\<rparr>"
    using False by (simp add: maybeRefill_def after_def [symmetric] Let_def)
  have "w_rows w @ take (nat ?need) (drop ?len res) = take (?len + nat ?need) res"
    by (subst (1) rows(1)) (simp add: take_add)
  moreover have "0 \<le> ?need" using False assms(3) by (simp add: w_cap_def) linarith
  ultimately show ?thesis using False rows(2) by (auto simp: exact_def m min_def)
qed

lemma rest_not_held:
  assumes "exact w res" and "\<forall>x \<in> set (w_rows w). rw_aggid x \<noteq> i"
  defines "rest \<equiv> filter (\<lambda>x. rw_aggid x \<noteq> i) res"
  shows "w_rows w = take (length (w_rows w)) rest" and "w_complete w \<Longrightarrow> length (w_rows w) = length rest"
    and "length (w_rows w) \<le> length rest"
proof -
  define tail where "tail = drop (length (w_rows w)) res"
  have "res = w_rows w @ tail" using assms(1) unfolding exact_def tail_def by (metis append_take_drop_id)
  moreover have "filter (\<lambda>x. rw_aggid x \<noteq> i) (w_rows w) = w_rows w" using assms(2) by (simp add: filter_id_conv)
  ultimately have r: "rest = w_rows w @ filter (\<lambda>x. rw_aggid x \<noteq> i) tail" by (simp add: rest_def)
  then show "w_rows w = take (length (w_rows w)) rest" "length (w_rows w) \<le> length rest" by simp_all
  show "length (w_rows w) = length rest" if "w_complete w"
    using that assms(1) r by (simp add: exact_def tail_def)
qed

lemma filter_del_at:
  assumes "distinct (map rw_aggid res)" and "old < length res" and "rw_aggid (res ! old) = i"
  shows "filter (\<lambda>x. rw_aggid x \<noteq> i) res = del_at old res"
proof -
  have res: "res = take old res @ res ! old # drop (old + 1) res" using assms(2) by (simp add: id_take_nth_drop)
  have "distinct (map rw_aggid (take old res @ res ! old # drop (old + 1) res))" using assms(1) res by simp
  then have "\<forall>x \<in> set (take old res) \<union> set (drop (old + 1) res). rw_aggid x \<noteq> i"
    using assms(3) by (auto simp: image_iff)
  then have "filter (\<lambda>x. rw_aggid x \<noteq> i) (take old res @ res ! old # drop (old + 1) res) = del_at old res"
    using assms(3) by (simp add: del_at_def filter_id_conv)
  then show ?thesis using res by metis
qed

lemma del_at_take: "old < m \<Longrightarrow> m \<le> length res \<Longrightarrow> del_at old (take m res) = take (m - 1) (del_at old res)"
  by (simp add: del_at_def drop_take min_absorb1 min_absorb2)

text \<open>Splicing a row into a window that holds a prefix of the other rows.\<close>

lemma exact_splice:
  assumes "rows.ascending lib srt tys rest" and "row_ok srt tys r"
    and "rs = take (length rs) rest" and "length rs \<le> length rest" and "fin \<Longrightarrow> length rs = length rest"
    and "rows.rank lib srt r rs < length rs \<or> fin"
    and "w_rows v = ins_at (rows.rank lib srt r rs) r rs" and "w_complete v = fin"
  shows "exact v (ins_at (rows.rank lib srt r rest) r rest)"
proof -
  let ?m = "length rs"
  have rk: "rows.rank lib srt r rs = rows.rank lib srt r (take ?m rest)" using assms(3) by simp
  have "ins_at (rows.rank lib srt r (take ?m rest)) r (take ?m rest)
      = take (?m + 1) (ins_at (rows.rank lib srt r rest) r rest)"
    using assms(5,6) rk by (intro rows.insert_prefix [OF assms(1,2,4)]) auto
  then have "w_rows v = take (?m + 1) (ins_at (rows.rank lib srt r rest) r rest)"
    using assms(3,7) rk by metis
  moreover have "length (w_rows v) = ?m + 1"
    using assms(7) rows.rank_le by simp
  ultimately show ?thesis using assms(5,8) rows.rank_le by (auto simp: exact_def)
qed

lemma rank_in_place:
  assumes asc: "rows.ascending lib srt tys res" and r: "row_ok srt tys r" and old: "old < length res"
    and eq: "row_cmp lib srt (res ! old) r = 0" and rest: "rows.ascending lib srt tys (del_at old res)"
  shows "rows.rank lib srt r (del_at old res) = old"
proof -
  have ok: "k < length res \<Longrightarrow> row_ok srt tys (res ! k)" for k
    using asc by (auto simp: rows.ascending_def list_all_iff)
  have lt: "j < k \<Longrightarrow> k < length res \<Longrightarrow> row_cmp lib srt (res ! j) (res ! k) < 0" for j k
    using asc by (auto simp: rows.ascending_def sorted_wrt_iff_nth_less)
  have iff: "(k < rows.rank lib srt r (del_at old res)) = (k < old)" if k: "k < length res - 1" for k
  proof (cases "k < old")
    case True
    then have "row_cmp lib srt (res ! k) r < 0"
      using rows.less_trans [OF ok ok r lt, of k old] old eq by simp
    then show ?thesis using True rows.ascending_rank [OF rest r, of k] old k
      by (simp add: del_at_def nth_append)
  next
    case False
    have nth: "del_at old res ! k = res ! (k + 1)" using False old k by (simp add: del_at_def nth_append)
    have "\<not> row_cmp lib srt (res ! (k + 1)) r < 0"
    proof
      assume a: "row_cmp lib srt (res ! (k + 1)) r < 0"
      have "row_cmp lib srt r (res ! old) \<le> 0" using rows.anti [OF ok [OF old] r] eq by simp
      then have "row_cmp lib srt (res ! (k + 1)) (res ! old) < 0"
        using rows.less_trans [OF ok r ok a, of old] k old by simp
      then show False using rows.anti [of srt tys "res ! old" "res ! (k + 1)" lib] ok lt [of old "k + 1"] False old
          less_diff_conv [THEN iffD1, OF k] by simp
    qed
    then show ?thesis using False rows.ascending_rank [OF rest r, of k] nth old k by simp
  qed
  have "rows.rank lib srt r (del_at old res) \<le> length res - 1"
    using rows.rank_le [of lib srt r "del_at old res"] old by simp
  then show ?thesis
    using iff [of old] iff [of "rows.rank lib srt r (del_at old res)"] old by linarith
qed

text \<open>
  The row lands before a held row, or the window holds the whole result; or it stays in
  place; or it is not held and sorts behind a full window.
\<close>

definition lands_inside :: "golib \<Rightarrow> Window \<Rightarrow> Row \<Rightarrow> bool" where
  "lands_inside lib w r =
     (w_complete w
      \<or> (\<exists>x \<in> set (w_rows w). rw_aggid x \<noteq> rw_aggid r \<and> row_cmp lib (lq_sort (w_q w)) r x < 0)
      \<or> (\<exists>x \<in> set (w_rows w). rw_aggid x = rw_aggid r \<and> row_cmp lib (lq_sort (w_q w)) x r = 0)
      \<or> (rw_aggid r \<notin> rw_aggid ` set (w_rows w) \<and> w_cap w \<le> int (length (w_rows w))))"

lemma rank_inside:
  assumes "rows.ascending lib srt tys rs" and "row_ok srt tys r" and "x \<in> set rs" and "row_cmp lib srt r x < 0"
  shows "rows.rank lib srt r rs < length rs"
proof -
  have "row_ok srt tys x" using assms(1,3) by (auto simp: rows.ascending_def list_all_iff)
  then have "\<not> row_cmp lib srt x r < 0" using rows.anti [OF assms(2)] assms(4) by force
  then show ?thesis using assms(3) unfolding rows.rank_def by (auto intro: length_filter_less)
qed

lemma indexOf_None: "indexOf w i = None \<Longrightarrow> \<forall>x \<in> set (w_rows w). rw_aggid x \<noteq> i"
proof -
  have "find_row rs i k = None \<Longrightarrow> \<forall>x \<in> set rs. rw_aggid x \<noteq> i" for rs k
    by (induction rs arbitrary: k) (auto split: if_splits)
  then show "indexOf w i = None \<Longrightarrow> \<forall>x \<in> set (w_rows w). rw_aggid x \<noteq> i" by (simp add: indexOf_def)
qed

lemma ascending_rest:
  "rows.ascending lib srt tys res \<Longrightarrow> rows.ascending lib srt tys (filter P res)"
  by (auto simp: rows.ascending_def sorted_wrt_filter list_all_iff)

lemma result_after_match:
  "result_after lib srt res r True =
     ins_at (rows.rank lib srt r (filter (\<lambda>x. rw_aggid x \<noteq> rw_aggid r) res)) r
       (filter (\<lambda>x. rw_aggid x \<noteq> rw_aggid r) res)"
  by (simp add: result_after_def Let_def rows.rank_def)

lemma rowFromChange_aggid [simp]: "rw_aggid (rowFromChange w ch) = lc_aggid ch"
  by (simp add: rowFromChange_def)

text \<open>The assumptions on the window, the result and the ports, in one place.\<close>

definition sound_setting ::
  "golib \<Rightarrow> keytype list \<Rightarrow> Refiller \<Rightarrow> Window \<Rightarrow> Row list \<Rightarrow> Row list \<Rightarrow> bool" where
  "sound_setting lib tys refill w res res' =
     (rows.ascending lib (lq_sort (w_q w)) tys res \<and> distinct (map rw_aggid res) \<and> exact w res
      \<and> serves refill (w_q w) res' \<and> 0 < w_n w \<and> 0 \<le> w_cushion w)"

lemma finish_exact:
  assumes "exact v res'" and "serves refill (w_q v) res'" and "0 < w_n v" and "0 \<le> w_cushion v"
  shows "exact (maybeRefill refill (trimTail v)) res'" and "exact (maybeRefill refill v) res'"
proof -
  have "w_q (trimTail v) = w_q v" by (simp add: trimTail_def)
  then show "exact (maybeRefill refill (trimTail v)) res'"
    using exact_refill [OF exact_trim [OF assms(1)]] assms(2-4) by (simp add: w_cap_def)
  show "exact (maybeRefill refill v) res'" using exact_refill [OF assms(1,2,4)] .
qed

lemma insert_exact:
  assumes set: "sound_setting lib tys refill w res (result_after lib (lq_sort (w_q w)) res (rowFromChange w ch) True)"
    and r: "row_ok (lq_sort (w_q w)) tys (rowFromChange w ch)" and "lands_inside lib w (rowFromChange w ch)"
    and new: "\<forall>x \<in> set (w_rows w). rw_aggid x \<noteq> lc_aggid ch"
    and ins: "w_insert lib refill w ch = Some (ds, w')"
  shows "exact w' (result_after lib (lq_sort (w_q w)) res (rowFromChange w ch) True)"
proof -
  let ?srt = "lq_sort (w_q w)" and ?r = "rowFromChange w ch" and ?rs = "w_rows w"
  define rest where "rest = filter (\<lambda>x. rw_aggid x \<noteq> lc_aggid ch) res"
  have asc: "rows.ascending lib ?srt tys rest" and ex: "exact w res"
    using set ascending_rest by (auto simp: sound_setting_def rest_def)
  note pre = rest_not_held [OF ex, of "lc_aggid ch", folded rest_def, OF new]
  have res': "result_after lib ?srt res ?r True = ins_at (rows.rank lib ?srt ?r rest) ?r rest"
    by (simp add: result_after_match rest_def)
  have ascr: "rows.ascending lib ?srt tys ?rs" using rows.ascending_take [OF asc] pre(1) by metis
  define pos where "pos = rows.rank lib ?srt ?r ?rs"
  have ipos: "insertPos lib w (rw_cursor ?r) = Some pos"
    unfolding pos_def using insertPos_rank [OF ascr r refl] new by simp
  show ?thesis
  proof (cases "int pos \<ge> int (length ?rs) \<and> int (length ?rs) \<ge> w_cap w \<and> \<not> w_complete w")
    case True
    then have "w' = w" using ins ipos by (auto simp: w_insert_def Let_def)
    moreover have "take (length ?rs) (ins_at (rows.rank lib ?srt ?r rest) ?r rest) = ?rs"
      using rows.insert_beyond [OF asc r pre(3)] True pre(1) rows.rank_le [of lib ?srt ?r ?rs]
      by (simp add: pos_def)
    ultimately show ?thesis using True by (simp add: exact_def res')
  next
    case False
    have inside: "pos < length ?rs \<or> w_complete w"
      using assms(3) new False rank_inside [OF ascr r] rows.rank_le [of lib ?srt ?r ?rs]
      by (auto simp: lands_inside_def pos_def)
    have w': "w' = maybeRefill refill (trimTail (w\<lparr>w_rows := ins_at pos ?r ?rs\<rparr>))"
      using ins ipos False by (auto simp: w_insert_def Let_def)
    have "exact (w\<lparr>w_rows := ins_at pos ?r ?rs\<rparr>) (result_after lib ?srt res ?r True)"
      unfolding res' using exact_splice [OF asc r pre(1,3,2)] inside by (simp add: pos_def)
    then show ?thesis unfolding w' using set by (intro finish_exact) (simp_all add: sound_setting_def)
  qed
qed

lemma held_rest:
  assumes set: "sound_setting lib tys refill w res res'" and idx: "indexOf w i = Some old"
  shows "old < length (w_rows w)" "length (w_rows w) \<le> length res" "w_rows w ! old = res ! old"
    and "filter (\<lambda>x. rw_aggid x \<noteq> i) res = del_at old res"
    and "del_at old (w_rows w) = take (length (w_rows w) - 1) (del_at old res)"
proof -
  have ex: "exact w res" using set by (simp add: sound_setting_def)
  show old: "old < length (w_rows w)" using indexOf_Some [OF idx] by blast
  show len: "length (w_rows w) \<le> length res" using exact_len [OF ex] .
  have rows: "w_rows w = take (length (w_rows w)) res" using ex by (simp add: exact_def)
  show nth: "w_rows w ! old = res ! old" using old by (subst rows) simp
  show "filter (\<lambda>x. rw_aggid x \<noteq> i) res = del_at old res"
    using filter_del_at [of res old i] indexOf_Some [OF idx] nth old len set by (simp add: sound_setting_def)
  show "del_at old (w_rows w) = take (length (w_rows w) - 1) (del_at old res)"
    using del_at_take [OF old len] by (subst (1) rows)
qed

lemma remove_exact:
  assumes set: "sound_setting lib tys refill w res (result_after lib srt res r False)"
    and idx: "indexOf w (rw_aggid r) = Some old" and rm: "w_remove refill w old = (ds, w')"
  shows "exact w' (result_after lib srt res r False)"
proof -
  note h = held_rest [OF set idx]
  have res': "result_after lib srt res r False = del_at old res" by (simp add: result_after_def h(4))
  have "exact (w\<lparr>w_rows := del_at old (w_rows w)\<rparr>) (del_at old res)"
    using h(1,2,5) set by (auto simp: exact_def sound_setting_def)
  then show ?thesis using rm set unfolding res'
    by (auto simp: w_remove_def Let_def sound_setting_def intro!: finish_exact(2))
qed

lemma reposition_exact:
  assumes set: "sound_setting lib tys refill w res (result_after lib (lq_sort (w_q w)) res (rowFromChange w ch) True)"
    and r: "row_ok (lq_sort (w_q w)) tys (rowFromChange w ch)" and inside: "lands_inside lib w (rowFromChange w ch)"
    and idx: "indexOf w (lc_aggid ch) = Some old"
    and rep: "w_reposition lib refill w old ch = Some (ds, w')"
  shows "exact w' (result_after lib (lq_sort (w_q w)) res (rowFromChange w ch) True)"
proof -
  let ?srt = "lq_sort (w_q w)" and ?r = "rowFromChange w ch" and ?rs = "w_rows w"
  define rest where "rest = del_at old res"
  note h = held_rest [OF set idx]
  have asc0: "rows.ascending lib ?srt tys res" and ex: "exact w res" and n: "0 < w_n w"
    using set by (auto simp: sound_setting_def)
  have asc: "rows.ascending lib ?srt tys rest"
    using ascending_rest [OF asc0] h(4) unfolding rest_def by metis
  have res': "result_after lib ?srt res ?r True = ins_at (rows.rank lib ?srt ?r rest) ?r rest"
    by (simp add: result_after_match h(4) rest_def)
  have other: "x \<in> set rest \<Longrightarrow> rw_aggid x \<noteq> lc_aggid ch" for x
    using h(4) [symmetric] by (simp add: rest_def)
  define rs where "rs = del_at old ?rs"
  have rs: "rs = take (length rs) rest" "length rs = length ?rs - 1" "length rs \<le> length rest"
    using h(1,2,5) by (simp_all add: rs_def rest_def)
  have ascr: "rows.ascending lib ?srt tys rs" using rows.ascending_take [OF asc] rs(1) by metis
  have rs_other: "x \<in> set rs \<Longrightarrow> rw_aggid x \<noteq> lc_aggid ch" for x
    using other rs(1) by (metis in_set_takeD)
  obtain c where c: "CompareCursors lib (rw_cursor (?rs ! old)) (rw_cursor ?r) ?srt = Some c"
    using rep by (auto simp: w_reposition_def Let_def split: option.splits)
  show ?thesis
  proof (cases "c = 0")
    case True
    have "row_cmp lib ?srt (res ! old) ?r = 0" using c True h(3) by (simp add: row_cmp_def)
    then have "rows.rank lib ?srt ?r rest = old"
      using rank_in_place [OF asc0 r] h(1,2) asc by (simp add: rest_def)
    then have "result_after lib ?srt res ?r True = res[old := ?r]"
      using h(1,2) unfolding res' by (simp add: rest_def ins_at_def del_at_def min_absorb1 upd_conv_take_nth_drop)
    moreover have "w_rows w' = ?rs[old := ?r]" "w_complete w' = w_complete w"
      using rep c True by (auto simp: w_reposition_def Let_def)
    moreover have "?rs[old := ?r] = take (length ?rs) (res[old := ?r])"
      using ex by (simp add: exact_def take_update_swap)
    ultimately show ?thesis using ex h(2) by (simp add: exact_def min_absorb2)
  next
    case False
    define v where "v = w\<lparr>w_rows := rs\<rparr>"
    have pos: "insertPos lib v (rw_cursor ?r) = Some (rows.rank lib ?srt ?r rs)"
      using insertPos_rank [of lib ?srt tys v ?r] ascr r rs_other by (simp add: v_def)
    have w': "w' = maybeRefill refill (trimTail (w\<lparr>w_rows := ins_at (rows.rank lib ?srt ?r rs) ?r rs\<rparr>))"
      using rep c False pos by (auto simp: w_reposition_def Let_def rs_def v_def)
    have split: "x \<in> set rs \<or> x = ?rs ! old" if "x \<in> set ?rs" for x
      using that id_take_nth_drop [OF h(1)] unfolding rs_def del_at_def
      by (metis Suc_eq_plus1 Un_iff insert_iff list.simps(15) set_append)
    have held: "rw_aggid (?rs ! old) = lc_aggid ch" using indexOf_Some [OF idx] by blast
    have "row_cmp lib ?srt (?rs ! old) ?r \<noteq> 0" using c False by (simp add: row_cmp_def)
    then have inside': "rows.rank lib ?srt ?r rs < length rs \<or> w_complete w"
      using inside held h(1) split rs_other rank_inside [OF ascr r]
      unfolding lands_inside_def by (metis imageI nth_mem rowFromChange_aggid)
    have fin: "w_complete w \<Longrightarrow> length rs = length rest"
      using ex h(1,2) rs(2) by (simp add: exact_def rest_def)
    have "exact (w\<lparr>w_rows := ins_at (rows.rank lib ?srt ?r rs) ?r rs\<rparr>) (result_after lib ?srt res ?r True)"
      unfolding res' by (rule exact_splice [OF asc r rs(1,3) fin inside']) simp_all
    then show ?thesis unfolding w' using set by (intro finish_exact) (simp_all add: sound_setting_def)
  qed
qed

text \<open>
  C25. The window stays an exact prefix of the query's ordered result: if its rows are the
  first rows of the result and the refill port serves the result after the change, then
  after the change its rows are again the first rows of the result, whenever the changed
  row lands before a held row, stays in place, leaves, or the window holds everything.
\<close>

theorem window_prefix:
  assumes "Apply lib refill w ch = Some (ds, w')"
    and "(if lc_deleted ch then Some False else Eval lib (w_pred w) (nil_vals (lc_vals ch))) = Some m"
    and "sound_setting lib tys refill w res (result_after lib (lq_sort (w_q w)) res (rowFromChange w ch) m)"
    and "m \<longrightarrow> row_ok (lq_sort (w_q w)) tys (rowFromChange w ch) \<and> lands_inside lib w (rowFromChange w ch)"
  shows "exact w' (result_after lib (lq_sort (w_q w)) res (rowFromChange w ch) m)"
proof (cases "indexOf w (lc_aggid ch)")
  case None
  then have new: "\<forall>x \<in> set (w_rows w). rw_aggid x \<noteq> lc_aggid ch" by (rule indexOf_None)
  show ?thesis
  proof (cases m)
    case True
    then show ?thesis using insert_exact [of lib tys refill w res ch ds w'] assms None new by (simp add: Apply_def)
  next
    case False
    have "exact w res" using assms(3) by (simp add: sound_setting_def)
    note pre = rest_not_held [OF this new]
    have "w' = w" using assms(1,2) None False by (simp add: Apply_def)
    then show ?thesis using pre False by (simp add: exact_def result_after_def)
  qed
next
  case (Some old)
  then have s: "(if m then w_reposition lib refill w old ch else Some (w_remove refill w old)) = Some (ds, w')"
    using assms(1,2) by (simp add: Apply_def)
  show ?thesis
  proof (cases m)
    case True
    then show ?thesis using reposition_exact [of lib tys refill w res ch old ds w'] assms(3,4) Some s by simp
  next
    case False
    then show ?thesis
      using remove_exact [of lib tys refill w res "lq_sort (w_q w)" "rowFromChange w ch" old ds w'] assms(3) Some s by simp
  qed
qed

definition ranked_result :: "Row list" where
  "ranked_result = [ranked_row ''a'' 1 1, ranked_row ''b'' 1 2, ranked_row ''c'' 1 3]"

lemmas order_eval = rows.ascending_def row_ok_def cursor_ok_def key_ok_def row_cmp_def CompareCursors_def
  Order_def compare_def toFloat_def three_way_def id_of_def

theorem window_prefix_witness:
  "\<exists>ds w' refill. Apply demo_lib refill ranked_window (ranked_change ''b'' 2 (1 / 2)) = Some (ds, w')
     \<and> exact w' [ranked_row ''b'' 2 (1 / 2), ranked_row ''a'' 1 1, ranked_row ''c'' 1 3]"
proof -
  let ?ch = "ranked_change ''b'' 2 (1 / 2)" and ?srt = "lq_sort (w_q ranked_window)"
  have r: "rowFromChange ranked_window ?ch = ranked_row ''b'' 2 (1 / 2)"
    by (simp add: ranked_defs rowFromChange_def SortKeyOf_def nil_vals_def mget_or_def)
  define res where "res = [ranked_row ''b'' 2 (1 / 2), ranked_row ''a'' 1 1, ranked_row ''c'' 1 3]"
  have res: "result_after demo_lib ?srt ranked_result (rowFromChange ranked_window ?ch) True = res"
    unfolding r by (simp add: result_after_def ranked_result_def ranked_defs order_eval ins_at_def res_def)
  define refill :: Refiller where "refill q after need =
    Inr (take (nat need) (if after = [] then res else drop 1 (dropWhile (\<lambda>x. rw_cursor x \<noteq> after) res)))"
    for q after need
  have srv: "serves refill (w_q ranked_window) res"
    by (auto simp: serves_def refill_def res_def ranked_defs less_Suc_eq)
  obtain ds w' where ap: "Apply demo_lib refill ranked_window ?ch = Some (ds, w')"
    by (simp add: ranked_defs window_eval)
  have "exact w' (result_after demo_lib ?srt ranked_result (rowFromChange ranked_window ?ch) True)"
  proof (rule window_prefix [OF ap, where tys = "[KeyNum]"])
    show "sound_setting demo_lib [KeyNum] refill ranked_window ranked_result
        (result_after demo_lib ?srt ranked_result (rowFromChange ranked_window ?ch) True)"
      unfolding sound_setting_def res using srv
      by (simp add: ranked_result_def ranked_defs order_eval exact_def)
  qed (simp_all add: ranked_defs order_eval rowFromChange_def SortKeyOf_def nil_vals_def mget_or_def
      lands_inside_def Eval_def)
  then show ?thesis using ap res by (auto simp: res_def)
qed

section \<open>A row that lands behind the held ones\<close>

definition tail_query :: LiveQuery where
  "tail_query = ranked_query\<lparr>lq_limit := 1\<rparr>"

definition tail_window :: Window where
  "tail_window = NewWindow tail_query [] [ranked_row ''a'' 1 1, ranked_row ''b'' 1 2] False 2"

definition tail_refill :: "Row list \<Rightarrow> Refiller" where
  "tail_refill res q after need =
     Inr (take (nat need) (if after = [] then res else drop 1 (dropWhile (\<lambda>x. rw_cursor x \<noteq> after) res)))"

definition gone :: "string \<Rightarrow> LChange" where
  "gone i = \<lparr>lc_aggid = i, lc_version = 9, lc_deleted = True, lc_vals = None, lc_raw = RawEmpty,
     lc_stream = [], lc_at = (0, 0)\<rparr>"

text \<open>
  An insert behind the held rows of a window that is neither full nor complete is kept
  although rows outside the window sort before it.  The window below is an exact prefix
  of the result a, b, d; after e is created and a and b are deleted, the result is d, e,
  the refill port serves it, and the window shows e and calls itself complete.
\<close>

theorem tail_insert_hides_rows:
  "exact tail_window [ranked_row ''a'' 1 1, ranked_row ''b'' 1 2, ranked_row ''d'' 1 4]
   \<and> serves (tail_refill [ranked_row ''d'' 1 4, ranked_row ''e'' 1 5]) tail_query
       [ranked_row ''d'' 1 4, ranked_row ''e'' 1 5]
   \<and> (\<exists>ds w'. w_run demo_lib
        [(tail_refill [], ranked_change ''e'' 1 5), (tail_refill [], gone ''a''),
         (tail_refill [ranked_row ''d'' 1 4, ranked_row ''e'' 1 5], gone ''b'')] tail_window = Some (ds, w')
        \<and> w_complete w' \<and> Visible w' = [ranked_row ''e'' 1 5])"
  by (simp add: tail_window_def tail_query_def exact_def serves_def tail_refill_def gone_def ranked_defs
      window_eval Visible_def less_Suc_eq All_less_Suc)

section \<open>Field deltas: facts\<close>

text \<open>Applying a field delta to a column map.\<close>

definition patch :: "vals \<Rightarrow> vals option \<Rightarrow> string \<Rightarrow> gval option" where
  "patch prev changes k =
     (case changes of None \<Rightarrow> mget prev k
      | Some cs \<Rightarrow> (case mget cs k of Some v \<Rightarrow> Some v | None \<Rightarrow> mget prev k))"

lemma mget_filter_wf:
  "wf_map m \<Longrightarrow> mget (filter P m) k = (case mget m k of None \<Rightarrow> None | Some v \<Rightarrow> if P (k, v) then Some v else None)"
proof (induction m)
  case (Cons kv m)
  then show ?case by (cases kv) (auto simp: wf_map_def split: option.splits dest: map_of_SomeD intro: rev_image_eqI)
qed simp

text \<open>
  A client that patches its row with the field delta holds the new row: every column
  of the new row has its new value or one that is deeply equal to it, and every column
  the new row dropped reads null.
\<close>

theorem diffVals_patch:
  assumes "wf_map p" and "wf_map n"
  shows "(case mget n k of
            Some nv \<Rightarrow> (\<exists>v. patch p (diffVals (Some p) (Some n)) k = Some v \<and> (v = nv \<or> DeepEqual v nv))
          | None \<Rightarrow> patch p (diffVals (Some p) (Some n)) k =
                      (if mget p k = None then None else Some VNil))"
proof -
  define changed where
    "changed = filter (\<lambda>(k, nv). \<not> (case mget p k of None \<Rightarrow> False | Some pv \<Rightarrow> DeepEqual pv nv)) n"
  define dropped where "dropped = map (\<lambda>(k, pv). (k, VNil)) (filter (\<lambda>(k, pv). mget n k = None) p)"
  have c: "mget changed k = (case mget n k of None \<Rightarrow> None
      | Some nv \<Rightarrow> if \<not> (case mget p k of None \<Rightarrow> False | Some pv \<Rightarrow> DeepEqual pv nv) then Some nv else None)"
    unfolding changed_def using mget_filter_wf [OF assms(2)] by (simp split: option.split)
  have d: "mget dropped k = (if mget n k = None \<and> mget p k \<noteq> None then Some VNil else None)"
  proof -
    have "mget dropped k = map_option (\<lambda>_. VNil) (mget (filter (\<lambda>(k, pv). mget n k = None) p) k)"
      unfolding dropped_def by (induction p) auto
    then show ?thesis using mget_filter_wf [OF assms(1)] by (auto split: option.split)
  qed
  have "patch p (diffVals (Some p) (Some n)) k =
      (case mget changed k of Some v \<Rightarrow> Some v | None \<Rightarrow> (case mget dropped k of Some v \<Rightarrow> Some v | None \<Rightarrow> mget p k))"
    by (auto simp: patch_def diffVals_def changed_def [symmetric] dropped_def [symmetric] Let_def
        map_add_def split: option.split)
  then show ?thesis using c d by (auto split: option.splits if_splits)
qed

theorem diffVals_patch_witness:
  "diffVals (Some [(''a'', VStr ''x''), (''b'', VBool True)]) (Some [(''a'', VStr ''y''), (''c'', VNil)])
     = Some [(''a'', VStr ''y''), (''c'', VNil), (''b'', VNil)]
   \<and> patch [(''a'', VStr ''x''), (''b'', VBool True)]
       (diffVals (Some [(''a'', VStr ''x''), (''b'', VBool True)]) (Some [(''a'', VStr ''y''), (''c'', VNil)])) ''b''
     = Some VNil"
  using diffVals_patch [of "[(''a'', VStr ''x''), (''b'', VBool True)]" "[(''a'', VStr ''y''), (''c'', VNil)]" "''b''"]
  by (simp add: wf_map_def diffVals_def Let_def)

end
