(* ===== verification/LiveIndex.thy ===== *)
theory LiveIndex
  imports Match
begin

text \<open>
  The candidate selector of the live-query dispatcher (\<^verbatim>\<open>core/livequery/index.go\<close>):
  it indexes the top-level equality conditions of every subscription and counts, per
  changed row, how many of them the row satisfies.  A Go map keyed by \<^verbatim>\<open>any\<close> is a list of
  pairs searched with interface equality, so a NaN key is never found again; using a map
  or a slice as a key panics, which is \<open>None\<close> here.  Sets of identifiers are lists.
\<close>

section \<open>Maps keyed by dynamic values\<close>

fun any_get :: "(gval \<times> 'b) list \<Rightarrow> gval \<Rightarrow> 'b option" where
  "any_get [] k = None"
| "any_get ((a, b) # m) k = (if iface_eq a k = Some True then Some b else any_get m k)"

fun any_put :: "gval \<Rightarrow> 'b \<Rightarrow> (gval \<times> 'b) list \<Rightarrow> (gval \<times> 'b) list" where
  "any_put k v [] = [(k, v)]"
| "any_put k v ((a, b) # m) = (if iface_eq a k = Some True then (a, v) # m else (a, b) # any_put k v m)"

section \<open>The index\<close>

type_synonym byval = "(gval \<times> string list) list"

record predicateIndex =
  ix_by :: "byval gomap"
  ix_want :: "nat gomap"
  ix_residual :: "string list"

definition newPredicateIndex :: predicateIndex where
  "newPredicateIndex = \<lparr>ix_by = [], ix_want = [], ix_residual = []\<rparr>"

definition normVal :: "gval \<Rightarrow> gval" where
  "normVal v = (case v of
     VInt k n \<Rightarrow> (if k = KInt \<or> k = KInt32 \<or> k = KInt64 then VFloat64 (f64_of_int n) else v)
   | VFloat32 f \<Rightarrow> VFloat64 f
   | _ \<Rightarrow> v)"

definition toAnySlice :: "gval \<Rightarrow> gval list" where
  "toAnySlice v = (case v of
     VSlice k xs \<Rightarrow> (if k = SAny \<or> k = SString \<or> k = SInt \<or> k = SInt64 \<or> k = SFloat64 then xs else [])
   | _ \<Rightarrow> [])"

text \<open>\<^verbatim>\<open>out[col] = append(out[col], v)\<close>.\<close>

definition col_append :: "string \<Rightarrow> gval \<Rightarrow> gval list gomap \<Rightarrow> gval list gomap" where
  "col_append col v out = mput col (mget_or [] out col @ [v]) out"

definition eq_column :: "Cond \<Rightarrow> gval list gomap \<Rightarrow> gval list gomap" where
  "eq_column c out =
     (if IsGroup c then out
      else (case fc_op c of
              OpEq \<Rightarrow> col_append (fc_column c) (normVal (fc_value c)) out
            | OpIn \<Rightarrow> fold (\<lambda>v. col_append (fc_column c) (normVal v)) (toAnySlice (fc_value c)) out
            | _ \<Rightarrow> out))"

definition equalityColumns :: "Where \<Rightarrow> gval list gomap" where
  "equalityColumns w = fold eq_column w []"

text \<open>The inner loop of \<^verbatim>\<open>Add\<close>: the accepted values of one column.\<close>

fun add_vals :: "string \<Rightarrow> gval list \<Rightarrow> byval \<Rightarrow> byval option" where
  "add_vals i [] byVal = Some byVal"
| "add_vals i (v # vs) byVal =
     (if \<not> hashable v then None
      else add_vals i vs
             (any_put v (List.insert i (case any_get byVal v of None \<Rightarrow> [] | Some ids \<Rightarrow> ids)) byVal))"

fun add_cols :: "string \<Rightarrow> gval list gomap \<Rightarrow> byval gomap \<Rightarrow> byval gomap option" where
  "add_cols i [] m = Some m"
| "add_cols i ((col, vs) # cols) m =
     (case add_vals i vs (mget_or [] m col) of
        None \<Rightarrow> None
      | Some byVal \<Rightarrow> add_cols i cols (mput col byVal m))"

definition ix_Add :: "predicateIndex \<Rightarrow> string \<Rightarrow> Where \<Rightarrow> predicateIndex option" where
  "ix_Add ix i w =
     (let cols = equalityColumns w
      in if cols = [] then Some (ix\<lparr>ix_residual := List.insert i (ix_residual ix)\<rparr>)
         else map_option (\<lambda>m. ix\<lparr>ix_want := mput i (length cols) (ix_want ix), ix_by := m\<rparr>)
                (add_cols i cols (ix_by ix)))"

text \<open>\<^verbatim>\<open>delete(byVal, v)\<close> does not find a NaN key.\<close>

definition drop_id :: "string \<Rightarrow> byval \<Rightarrow> byval" where
  "drop_id i byVal =
     filter (\<lambda>(v, ids). ids \<noteq> [] \<or> iface_eq v v \<noteq> Some True)
       (map (\<lambda>(v, ids). (v, removeAll i ids)) byVal)"

definition ix_Remove :: "predicateIndex \<Rightarrow> string \<Rightarrow> predicateIndex" where
  "ix_Remove ix i =
     ix\<lparr>ix_residual := removeAll i (ix_residual ix), ix_want := mdel i (ix_want ix),
        ix_by := filter (\<lambda>(col, byVal). byVal \<noteq> []) (map (\<lambda>(col, byVal). (col, drop_id i byVal)) (ix_by ix))\<rparr>"

definition bump :: "string \<Rightarrow> nat gomap \<Rightarrow> nat gomap" where
  "bump i hits = mput i (mget_or 0 hits i + 1) hits"

fun count_hits :: "byval gomap \<Rightarrow> vals \<Rightarrow> nat gomap \<Rightarrow> nat gomap option" where
  "count_hits by [] hits = Some hits"
| "count_hits by ((col, raw) # row) hits =
     (case mget by col of
        None \<Rightarrow> count_hits by row hits
      | Some byVal \<Rightarrow>
          (if \<not> hashable (normVal raw) then None
           else count_hits by row
                  (case any_get byVal (normVal raw) of None \<Rightarrow> hits | Some ids \<Rightarrow> fold bump ids hits)))"

text \<open>A nil row is \<open>None\<close>.\<close>

definition Candidates :: "predicateIndex \<Rightarrow> vals option \<Rightarrow> string list option" where
  "Candidates ix row =
     (case row of
        None \<Rightarrow> Some (ix_residual ix)
      | Some r \<Rightarrow>
          (if ix_want ix = [] then Some (ix_residual ix)
           else map_option
             (\<lambda>hits. fold (\<lambda>(i, n) out. if n \<ge> mget_or 0 (ix_want ix) i then List.insert i out else out)
                       hits (ix_residual ix))
             (count_hits (ix_by ix) r [])))"

section \<open>Maps keyed by dynamic values: facts\<close>

definition nan_key :: "gval \<Rightarrow> bool" where
  "nan_key v = (v = VFloat64 NaN \<or> v = VFloat32 NaN)"

lemma iface_eq_hashable:
  "hashable a \<Longrightarrow> hashable b \<Longrightarrow> iface_eq a b = Some (a = b \<and> \<not> nan_key a)"
  by (cases a; cases b) (auto simp: nan_key_def f64_eq_iff)

definition keys_ok :: "(gval \<times> 'b) list \<Rightarrow> bool" where
  "keys_ok m = list_all (\<lambda>p. hashable (fst p)) m"

lemma any_get_put:
  assumes "hashable k" and "hashable k'" and "keys_ok m"
  shows "any_get (any_put k v m) k' = (if k = k' \<and> \<not> nan_key k then Some v else any_get m k')"
  using assms by (induction k v m rule: any_put.induct) (auto simp: iface_eq_hashable keys_ok_def)

lemma any_put_hashable:
  "hashable k \<Longrightarrow> keys_ok m \<Longrightarrow> keys_ok (any_put k v m)"
  by (induction k v m rule: any_put.induct) (auto simp: keys_ok_def)

section \<open>Membership in the index\<close>

definition wf_by :: "byval gomap \<Rightarrow> bool" where
  "wf_by m = list_all (\<lambda>p. keys_ok (snd p)) m"

definition accepts :: "byval gomap \<Rightarrow> string \<Rightarrow> gval \<Rightarrow> string \<Rightarrow> bool" where
  "accepts m col v i = (\<exists>byVal ids. mget m col = Some byVal \<and> any_get byVal v = Some ids \<and> i \<in> set ids)"

definition val_accepts :: "byval \<Rightarrow> gval \<Rightarrow> string \<Rightarrow> bool" where
  "val_accepts byVal v i = (\<exists>ids. any_get byVal v = Some ids \<and> i \<in> set ids)"

lemma accepts_alt: "accepts m col v i = val_accepts (mget_or [] m col) v i"
  by (auto simp: accepts_def val_accepts_def mget_or_def split: option.splits)

lemma wf_by_mput: "wf_by m \<Longrightarrow> keys_ok b \<Longrightarrow> wf_by (mput col b m)"
  unfolding wf_by_def by (induction m) auto

lemma wf_by_get: "wf_by m \<Longrightarrow> keys_ok (mget_or [] m col)"
  by (induction m) (auto simp: wf_by_def mget_or_def keys_ok_def)

lemma add_vals_accepts:
  assumes "add_vals i vs byVal = Some byVal'" and "keys_ok byVal"
  shows "keys_ok byVal'
    \<and> (\<forall>v j. hashable v \<and> val_accepts byVal v j \<longrightarrow> val_accepts byVal' v j)
    \<and> (\<forall>v \<in> set vs. \<not> nan_key v \<longrightarrow> hashable v \<and> val_accepts byVal' v i)"
  using assms
proof (induction vs arbitrary: byVal)
  case Nil
  then show ?case by simp
next
  case (Cons v vs)
  define ids where "ids = (case any_get byVal v of None \<Rightarrow> [] | Some ids \<Rightarrow> ids)"
  define b1 where "b1 = any_put v (List.insert i ids) byVal"
  have h: "hashable v" and rest: "add_vals i vs b1 = Some byVal'"
    using Cons.prems(1) by (auto simp: b1_def ids_def split: if_splits)
  have b1: "keys_ok b1"
    using any_put_hashable [OF h Cons.prems(2)] by (simp add: b1_def)
  have keep: "hashable x \<and> val_accepts byVal x j \<longrightarrow> val_accepts b1 x j" for x j
    using any_get_put [OF h _ Cons.prems(2)] by (auto simp: val_accepts_def b1_def ids_def)
  have new: "\<not> nan_key v \<longrightarrow> val_accepts b1 v i"
    using any_get_put [OF h h Cons.prems(2)] by (auto simp: val_accepts_def b1_def)
  show ?case using Cons.IH [OF rest b1] keep new h by auto
qed

lemma add_cols_accepts:
  assumes "add_cols i cols m = Some m'" and "wf_by m"
  shows "wf_by m'
    \<and> (\<forall>col v j. hashable v \<and> accepts m col v j \<longrightarrow> accepts m' col v j)
    \<and> (\<forall>(col, vs) \<in> set cols. \<forall>v \<in> set vs. \<not> nan_key v \<longrightarrow> hashable v \<and> accepts m' col v i)"
  using assms
proof (induction i cols m rule: add_cols.induct)
  case (1 i m)
  then show ?case by simp
next
  case (2 i col vs cols m)
  then obtain b where b: "add_vals i vs (mget_or [] m col) = Some b"
      and rest: "add_cols i cols (mput col b m) = Some m'"
    by (auto split: option.splits)
  note vs = add_vals_accepts [OF b wf_by_get [OF "2.prems"(2)]]
  have wf: "wf_by (mput col b m)" using vs wf_by_mput "2.prems"(2) by blast
  have keep: "hashable v \<and> accepts m c v j \<longrightarrow> accepts (mput col b m) c v j" for c v j
    using vs by (auto simp: accepts_alt)
  have new: "\<forall>v \<in> set vs. \<not> nan_key v \<longrightarrow> hashable v \<and> accepts (mput col b m) col v i"
    using vs by (auto simp: accepts_alt)
  show ?case using "2.IH" [OF b rest wf] keep new by (auto; blast)
qed

lemma drop_id_accepts:
  "val_accepts byVal v j \<Longrightarrow> j \<noteq> i \<Longrightarrow> val_accepts (drop_id i byVal) v j"
  by (induction byVal) (auto simp: val_accepts_def drop_id_def removeAll_filter_not_eq filter_empty_conv
      split: if_splits)

lemma mget_filter_map:
  "mget m c = Some b \<Longrightarrow> f b \<noteq> [] \<Longrightarrow>
   mget (filter (\<lambda>(col, b). b \<noteq> []) (map (\<lambda>(col, b). (col, f b)) m)) c = Some (f b)"
  by (induction m) (auto split: if_splits)

lemma ix_Remove_accepts:
  assumes "accepts (ix_by ix) col v j" and "j \<noteq> i"
  shows "accepts (ix_by (ix_Remove ix i)) col v j"
proof -
  obtain b where b: "mget (ix_by ix) col = Some b" "val_accepts b v j"
    using assms(1) by (auto simp: accepts_def val_accepts_def)
  have "val_accepts (drop_id i b) v j" using drop_id_accepts b(2) assms(2) by blast
  then have "drop_id i b \<noteq> []" by (auto simp: val_accepts_def)
  then show ?thesis using mget_filter_map [OF b(1), of "drop_id i"] \<open>val_accepts (drop_id i b) v j\<close>
    by (auto simp: accepts_def val_accepts_def ix_Remove_def)
qed

lemma ix_Remove_wf:
  assumes "wf_by (ix_by ix)"
  shows "wf_by (ix_by (ix_Remove ix i))"
proof -
  have "keys_ok (drop_id i b)" if "keys_ok b" for b
    using that by (auto simp: drop_id_def keys_ok_def list_all_iff)
  then show ?thesis using assms by (auto simp: wf_by_def ix_Remove_def list_all_iff)
qed

section \<open>What a filter contributes\<close>

text \<open>A condition that the index reads: a top-level equality or membership test.\<close>

definition contributes :: "Cond \<Rightarrow> string \<Rightarrow> gval list \<Rightarrow> bool" where
  "contributes c col vs =
     (\<not> IsGroup c \<and> fc_column c = col
      \<and> ((fc_op c = OpEq \<and> vs = [fc_value c])
         \<or> (fc_op c = OpIn \<and> vs = toAnySlice (fc_value c) \<and> vs \<noteq> [])))"

lemma col_append_mget:
  "mget (col_append col v out) c = (if c = col then Some (mget_or [] out col @ [v]) else mget out c)"
  by (auto simp: col_append_def)

lemma fold_col_append_mget:
  "mget (fold (\<lambda>v. col_append col (f v)) vs out) c =
     (if c = col \<and> vs \<noteq> [] then Some (mget_or [] out col @ map f vs) else mget out c)"
proof (induction vs arbitrary: out)
  case (Cons v vs)
  then show ?case by (auto simp: col_append_mget mget_or_def)
qed simp

lemma eq_column_mget:
  "contributes c col us \<Longrightarrow> mget (eq_column c out) col = Some (mget_or [] out col @ map normVal us)"
  "\<nexists>us. contributes c col us \<Longrightarrow> mget (eq_column c out) col = mget out col"
  by (auto simp: contributes_def eq_column_def col_append_mget fold_col_append_mget split: qop.split)

lemma eq_column_cases:
  obtains us where "contributes c col us" "mget (eq_column c out) col = Some (mget_or [] out col @ map normVal us)"
    | "\<nexists>us. contributes c col us" "mget (eq_column c out) col = mget out col"
  using eq_column_mget by blast

lemma eq_columns_keep:
  "mget out col = Some vs0 \<Longrightarrow> \<exists>vs. mget (fold eq_column w out) col = Some vs \<and> set vs0 \<subseteq> set vs"
proof (induction w arbitrary: out vs0)
  case (Cons c w)
  obtain vs1 where "mget (eq_column c out) col = Some vs1" "set vs0 \<subseteq> set vs1"
    using Cons.prems by (cases rule: eq_column_cases [of c col out]) (auto simp: mget_or_def)
  then show ?case using Cons.IH [of "eq_column c out" vs1] by auto
qed simp

lemma eq_columns_contributes:
  assumes "c \<in> set w" and "contributes c col us"
  shows "\<exists>vs. mget (fold eq_column w out) col = Some vs \<and> normVal ` set us \<subseteq> set vs"
proof -
  obtain w1 w2 where w: "w = w1 @ c # w2" using assms(1) by (meson split_list)
  show ?thesis using eq_columns_keep [OF eq_column_mget(1) [OF assms(2), of "fold eq_column w1 out"], of w2]
    by (auto simp: w)
qed

lemma eq_columns_source:
  "mget (fold eq_column w out) col = Some vs \<Longrightarrow>
   (\<exists>vs0. mget out col = Some vs0) \<or> (\<exists>c \<in> set w. \<exists>us. contributes c col us)"
proof (induction w arbitrary: out)
  case (Cons c w)
  then show ?case by (cases rule: eq_column_cases [of c col out]) fastforce+
qed simp

lemma wf_map_col_append: "wf_map m \<Longrightarrow> wf_map (col_append col v m)"
  by (simp add: col_append_def)

lemma eq_column_wf: "wf_map out \<Longrightarrow> wf_map (eq_column c out)"
proof -
  have "wf_map m \<Longrightarrow> wf_map (fold (\<lambda>v. col_append col (normVal v)) vs m)" for col vs m
    by (induction vs arbitrary: m) (auto simp: wf_map_col_append)
  then show "wf_map out \<Longrightarrow> wf_map (eq_column c out)"
    by (auto simp: eq_column_def wf_map_col_append split: qop.split)
qed

lemma equalityColumns_wf: "wf_map (equalityColumns w)"
proof -
  have "wf_map m \<Longrightarrow> wf_map (fold eq_column w m)" for m
    by (induction w arbitrary: m) (auto simp: eq_column_wf)
  then show ?thesis by (simp add: equalityColumns_def)
qed

text \<open>Every indexed column comes from a condition whose values are all accepted.\<close>

lemma equalityColumns_source:
  assumes "(col, vs) \<in> set (equalityColumns w)"
  obtains c us where "c \<in> set w" "contributes c col us" "normVal ` set us \<subseteq> set vs"
proof -
  have get: "mget (fold eq_column w []) col = Some vs"
    using assms equalityColumns_wf [of w] by (simp add: wf_map_def equalityColumns_def)
  then obtain c us where c: "c \<in> set w" "contributes c col us"
    using eq_columns_source [of w "[]" col vs] by auto
  then have "normVal ` set us \<subseteq> set vs" using eq_columns_contributes [OF c, of "[]"] get by auto
  then show thesis using that c by blast
qed

section \<open>Equality of values against equality of index keys\<close>

lemma equal_normVal:
  assumes "equal lib v x = Some True" and "\<And>t l. v \<noteq> VTime t l"
  shows "normVal v = normVal x \<and> \<not> nan_key (normVal v) \<and> hashable (normVal v)"
  using assms
  by (cases v; cases x)
     (auto simp: equal_def toFloat_def normVal_def nan_key_def f64_eq_iff split: if_splits)

lemma any_m_True: "any_m f xs = Some True \<Longrightarrow> \<exists>x \<in> set xs. f x = Some True"
  by (induction xs) (auto split: option.splits if_splits)

lemma all_m_True: "(all_m f xs = Some True) = (\<forall>x \<in> set xs. f x = Some True)"
  by (induction xs) (auto split: option.splits if_splits)

text \<open>A row that satisfies a contributing condition has a cell equal to one of its values.\<close>

lemma evalCond_contributes:
  assumes "contributes c col us" and "evalCond lib c row = Some True"
  shows "\<exists>v x. mget row col = Some v \<and> x \<in> set us \<and> equal lib v x = Some True"
proof -
  obtain op cv where c: "c = Cond col op cv []"
    using assms(1) by (cases c) (auto simp: contributes_def IsGroup_def)
  then have e: "evalLeaf lib op cv (mget row col) = Some True" using assms(2) by simp
  have slice: "toAnySlice w \<noteq> [] \<Longrightarrow> inSlice lib v w = Some True \<Longrightarrow>
      \<exists>x \<in> set (toAnySlice w). equal lib v x = Some True" for v w
    by (cases w) (auto simp: toAnySlice_def inSlice_def split: if_splits dest: any_m_True)
  consider (eq) "op = OpEq" "us = [cv]" | (mem) "op = OpIn" "us = toAnySlice cv" "us \<noteq> []"
    using assms(1) by (auto simp: c contributes_def)
  then show ?thesis
  proof cases
    case eq
    then show ?thesis using e by (cases "mget row col") (auto simp: evalLeaf_def Let_def split: if_splits)
  next
    case mem
    then obtain v where v: "mget row col = Some v" "inSlice lib v cv = Some True"
      using e by (cases "mget row col") (auto simp: evalLeaf_def evalSetString_def Let_def split: if_splits)
    then show ?thesis using slice [of cv v] mem by auto
  qed
qed
section \<open>Counting hits\<close>

definition is_hit :: "byval gomap \<Rightarrow> string \<Rightarrow> string \<times> gval \<Rightarrow> bool" where
  "is_hit by i = (\<lambda>(col, raw). accepts by col (normVal raw) i)"

lemma bump_mget: "mget_or 0 (bump j hits) i = mget_or 0 hits i + (if i = j then 1 else 0)"
  by (auto simp: bump_def mget_or_def)

lemma fold_bump: "mget_or 0 (fold bump ids hits) i \<ge> mget_or 0 hits i + (if i \<in> set ids then 1 else 0)"
proof (induction ids arbitrary: hits)
  case (Cons j ids)
  show ?case using Cons [of "bump j hits"] by (auto simp: bump_mget split: if_splits)
qed simp

lemma count_hits_lower:
  "count_hits by row hits = Some h \<Longrightarrow>
   mget_or 0 h i \<ge> mget_or 0 hits i + length (filter (is_hit by i) row)"
proof (induction "by" row hits rule: count_hits.induct)
  case (2 b col raw row hits)
  show ?case
  proof (cases "mget b col")
    case None
    then show ?thesis using 2 by (auto simp: is_hit_def accepts_def)
  next
    case (Some byVal)
    show ?thesis
    proof (cases "any_get byVal (normVal raw)")
      case None
      then show ?thesis using 2 Some by (auto simp: is_hit_def accepts_def split: if_splits)
    next
      case (Some ids)
      have "mget_or 0 h i \<ge> mget_or 0 (fold bump ids hits) i + length (filter (is_hit b i) row)"
        using 2 \<open>mget b col = Some byVal\<close> Some by (auto split: if_splits)
      then show ?thesis using fold_bump [of hits i ids] Some \<open>mget b col = Some byVal\<close>
        by (auto simp: is_hit_def accepts_def split: if_splits)
    qed
  qed
qed simp

lemma count_hits_returns:
  "\<forall>(col, v) \<in> set row. hashable (normVal v) \<Longrightarrow> \<exists>h. count_hits by row hits = Some h"
  by (induction "by" row hits rule: count_hits.induct) (auto split: option.split)

lemma fold_candidates:
  "set (fold (\<lambda>(i, n) out. if n \<ge> want i then List.insert i out else out) hits out)
   = set out \<union> {i. \<exists>n. (i, n) \<in> set hits \<and> n \<ge> want i}"
  by (induction hits arbitrary: out) (auto split: if_splits)

section \<open>Reachable indexes\<close>

text \<open>The dispatcher adds a view when it has none under that key, and removes views.\<close>

inductive ix_reach :: "predicateIndex \<Rightarrow> (string \<Rightarrow> Where option) \<Rightarrow> bool" where
  new: "ix_reach newPredicateIndex (\<lambda>i. None)"
| add: "ix_reach ix S \<Longrightarrow> S i = None \<Longrightarrow> ix_Add ix i w = Some ix' \<Longrightarrow> ix_reach ix' (S(i := Some w))"
| remove: "ix_reach ix S \<Longrightarrow> ix_reach (ix_Remove ix i) (S(i := None))"

definition indexed :: "predicateIndex \<Rightarrow> string \<Rightarrow> Where \<Rightarrow> bool" where
  "indexed ix i w =
     (if equalityColumns w = [] then i \<in> set (ix_residual ix)
      else mget (ix_want ix) i = Some (length (equalityColumns w))
           \<and> (\<forall>(col, vs) \<in> set (equalityColumns w). \<forall>v \<in> set vs.
                \<not> nan_key v \<longrightarrow> hashable v \<and> accepts (ix_by ix) col v i))"

lemma ix_Add_indexed:
  assumes "ix_Add ix i w = Some ix'" and "wf_by (ix_by ix)"
  shows "wf_by (ix_by ix') \<and> indexed ix' i w \<and> (\<forall>j w'. j \<noteq> i \<and> indexed ix j w' \<longrightarrow> indexed ix' j w')"
proof (cases "equalityColumns w = []")
  case True
  then show ?thesis using assms by (auto simp: ix_Add_def indexed_def)
next
  case False
  then obtain m where m: "add_cols i (equalityColumns w) (ix_by ix) = Some m"
      and ix': "ix' = ix\<lparr>ix_want := mput i (length (equalityColumns w)) (ix_want ix), ix_by := m\<rparr>"
    using assms(1) by (auto simp: ix_Add_def Let_def)
  note acc = add_cols_accepts [OF m assms(2)]
  have "indexed ix' j w'" if "j \<noteq> i" "indexed ix j w'" for j w'
    using that acc by (auto simp: indexed_def ix' split: if_splits)
  moreover have "indexed ix' i w" using acc False by (auto simp: indexed_def ix')
  ultimately show ?thesis using acc by (auto simp: ix')
qed

lemma ix_Remove_indexed: "indexed ix j w \<Longrightarrow> j \<noteq> i \<Longrightarrow> indexed (ix_Remove ix i) j w"
  using ix_Remove_accepts by (fastforce simp: indexed_def ix_Remove_def split: if_splits)

lemma ix_reach_indexed:
  "ix_reach ix S \<Longrightarrow> wf_by (ix_by ix) \<and> (\<forall>i w. S i = Some w \<longrightarrow> indexed ix i w)"
proof (induction rule: ix_reach.induct)
  case new
  then show ?case by (simp add: wf_by_def newPredicateIndex_def)
next
  case (add ix S i w ix')
  then show ?case using ix_Add_indexed by auto
next
  case (remove ix S i)
  then show ?case using ix_Remove_indexed ix_Remove_wf by auto
qed

text \<open>A matching row hits every indexed column.\<close>

lemma indexed_hits:
  assumes "indexed ix i w" and "Eval lib w row = Some True"
    and "\<forall>(col, v) \<in> set row. \<forall>t l. v \<noteq> VTime t l" and "equalityColumns w \<noteq> []"
  shows "length (equalityColumns w) \<le> length (filter (is_hit (ix_by ix) i) row)"
proof -
  have "col \<in> fst ` set (filter (is_hit (ix_by ix) i) row)" if e: "(col, vs) \<in> set (equalityColumns w)" for col vs
  proof -
    obtain c us where c: "c \<in> set w" "contributes c col us" "normVal ` set us \<subseteq> set vs"
      using equalityColumns_source [OF e] by blast
    have "evalCond lib c row = Some True" using assms(2) c(1) by (auto simp: Eval_def all_m_True)
    then obtain v x where v: "mget row col = Some v" "x \<in> set us" "equal lib v x = Some True"
      using evalCond_contributes [OF c(2)] by blast
    have mem: "(col, v) \<in> set row" using v(1) by (rule map_of_SomeD)
    have "normVal v = normVal x" "\<not> nan_key (normVal v)"
      using equal_normVal [OF v(3)] assms(3) mem by auto
    moreover have "normVal x \<in> set vs" using c(3) v(2) by auto
    ultimately have "accepts (ix_by ix) col (normVal v) i"
      using assms(1,4) e by (auto simp: indexed_def)
    then show ?thesis using mem by (force simp: is_hit_def)
  qed
  then have "fst ` set (equalityColumns w) \<subseteq> fst ` set (filter (is_hit (ix_by ix) i) row)" by auto
  then have "card (fst ` set (equalityColumns w)) \<le> card (fst ` set (filter (is_hit (ix_by ix) i) row))"
    by (intro card_mono) auto
  also have "\<dots> \<le> length (filter (is_hit (ix_by ix) i) row)"
    by (metis card_length length_map set_map)
  finally show ?thesis using equalityColumns_wf [of w] distinct_card [of "map fst (equalityColumns w)"]
    by (simp add: wf_map_def)
qed

lemma Candidates_sound_aux:
  assumes "ix_reach ix S" and "S i = Some w" and "Eval lib w row = Some True"
    and "\<forall>(col, v) \<in> set row. hashable v \<and> (\<forall>t l. v \<noteq> VTime t l)"
  shows "\<exists>cs. Candidates ix (Some row) = Some cs \<and> i \<in> set cs"
proof -
  have ind: "indexed ix i w" using ix_reach_indexed assms(1,2) by blast
  have "\<forall>(col, v) \<in> set row. hashable (normVal v)"
    using assms(4) by (auto simp: normVal_def split: gval.splits)
  then obtain h where h: "count_hits (ix_by ix) row [] = Some h" using count_hits_returns by blast
  show ?thesis
  proof (cases "equalityColumns w = []")
    case True
    then show ?thesis using ind h by (auto simp: Candidates_def indexed_def fold_candidates)
  next
    case False
    then have want: "mget (ix_want ix) i = Some (length (equalityColumns w))"
      using ind by (simp add: indexed_def)
    have "length (equalityColumns w) \<le> mget_or 0 h i"
      using indexed_hits [OF ind assms(3) _ False] count_hits_lower [OF h, of i] assms(4)
      by (fastforce simp: mget_or_def)
    moreover from this have "(i, mget_or 0 h i) \<in> set h"
      using False by (auto simp: mget_or_def map_of_SomeD split: option.splits)
    moreover have "mget_or 0 (ix_want ix) i = length (equalityColumns w)" "ix_want ix \<noteq> []"
      using want by (auto simp: mget_or_def)
    ultimately show ?thesis using h by (auto simp: Candidates_def fold_candidates)
  qed
qed


definition widget_index :: predicateIndex where
  "widget_index =
     \<lparr>ix_by = [(''kind'', [(VStr ''pump'', [''s1'']), (VStr ''fan'', [''s1''])]),
               (''hours'', [(VFloat64 (Fin 9), [''s1''])])],
      ix_want = [(''s1'', 2)], ix_residual = []\<rparr>"

definition widget_where :: Where where
  "widget_where = [In ''kind'' (VSlice SString [VStr ''pump'', VStr ''fan'']), Eq ''hours'' (VInt KInt 9)]"

lemma widget_index_reach: "ix_reach widget_index [''s1'' \<mapsto> widget_where]"
proof -
  have "ix_Add newPredicateIndex ''s1'' widget_where = Some widget_index"
    by (simp add: ix_Add_def widget_where_def widget_index_def newPredicateIndex_def equalityColumns_def
        eq_column_def In_def Eq_def IsGroup_def toAnySlice_def normVal_def col_append_def mget_or_def
        f64_of_int_small)
  then show ?thesis using ix_reach.add [OF ix_reach.new] by fastforce
qed


text \<open>
  A filter value that is a list or an object passes the validator and the compiler,
  and then panics the dispatcher when it is indexed.
\<close>

theorem filter_value_panics:
  "(ValidateConds [Eq col (VSlice k xs)] has = None) = (col \<noteq> [] \<and> has col)
   \<and> Compile [Eq col (VSlice k xs)] = Inr [Eq col (VSlice k xs)]
   \<and> ix_Add ix i [Eq col (VSlice k xs)] = None"
  by (auto simp: Eq_def ValidateConds_def leaf_validate_def IsSet_def fail_if_def Compile_def ix_Add_def
      equalityColumns_def eq_column_def IsGroup_def col_append_def normVal_def Let_def mget_or_def)

text \<open>
  One subscription with an equality on a column is enough for a row that holds a
  list or an object there to panic the dispatcher of every subscription.
\<close>

theorem row_value_panics:
  assumes "ix_Add newPredicateIndex i [Eq col (VStr s)] = Some ix"
  shows "Candidates ix (Some [(col, VObj kvs)]) = None \<and> Candidates ix (Some [(col, VSlice k xs)]) = None"
  using assms
  by (auto simp: Eq_def ix_Add_def newPredicateIndex_def equalityColumns_def eq_column_def IsGroup_def
      col_append_def normVal_def Let_def Candidates_def mget_or_def)

theorem row_value_panics_witness:
  "\<exists>ix. ix_Add newPredicateIndex ''s1'' [Eq ''tags'' (VStr ''x'')] = Some ix
     \<and> Candidates ix (Some [(''tags'', VSlice SAny [VStr ''x''])]) = None"
proof -
  obtain ix where ix: "ix_Add newPredicateIndex ''s1'' [Eq ''tags'' (VStr ''x'')] = Some ix"
    by (auto simp: Eq_def ix_Add_def newPredicateIndex_def equalityColumns_def eq_column_def IsGroup_def
        col_append_def normVal_def Let_def mget_or_def)
  then show ?thesis using row_value_panics [OF ix] by blast
qed

end
