(* ===== verification/LiveEngine.thy ===== *)
theory LiveEngine
  imports LivePrefix LiveIndex
begin

text \<open>
  The live-query engine (\<^verbatim>\<open>core/livequery/dispatcher.go\<close>, \<^verbatim>\<open>engine.go\<close>): views
  shared by subscribers of one query shape, the partition that routes the changes of one
  tenant and entity to them, attaching, seeding, detaching and drift repair.  Every
  closure the code runs on the partition's goroutine is one function on the partition, so
  an interleaving is a sequence of these functions.  A delta channel is a capacity and
  the deltas not yet received; whether a slow subscriber receives one between the two
  sends of a full channel is an argument.  A panic is \<open>None\<close>.
\<close>

section \<open>Views\<close>

type_synonym chan = "nat \<times> LiveDelta list"

record view =
  v_id :: string
  v_q :: LiveQuery
  v_pred :: Predicate
  v_mode :: Mode
  v_win :: "Window option"
  v_stream :: "string list"
  v_svals :: "vals option gomap option"
  v_page :: "Row list"
  v_seen :: "int gomap"
  v_members :: "string list"
  v_ready :: bool
  v_pending :: "LChange list"
  v_subs :: "(nat \<times> chan) list"

text \<open>The shape of a query as JSON: mode, limit, sort, filter and anchor.\<close>

fun cond_json :: "golib \<Rightarrow> Cond \<Rightarrow> json option" where
  "cond_json lib (Cond col op v ors) =
     (case (json_marshal (time_format lib) v, those (map (cond_json lib) ors)) of
        (Some jv, Some js) \<Rightarrow>
          Some (JObj [(''Column'', JStr col), (''Op'', JStr (qop_string op)), (''Value'', jv),
                      (''Or'', if js = [] then JNull else JArr js)])
      | _ \<Rightarrow> None)"

definition mode_int :: "Mode \<Rightarrow> int" where
  "mode_int m = (case m of ModeMaintained \<Rightarrow> 0 | ModeStreamed \<Rightarrow> 1 | ModeOther n \<Rightarrow> n)"

definition json_list :: "json list \<Rightarrow> json" where
  "json_list js = (if js = [] then JNull else JArr js)"

definition shape_json :: "golib \<Rightarrow> LiveQuery \<Rightarrow> json option" where
  "shape_json lib q =
     (case (those (map (cond_json lib) (lq_where q)),
            (case lq_cursor q of
               None \<Rightarrow> Some JNull
             | Some c \<Rightarrow> map_option (\<lambda>js. JObj [(''values'', json_list js)])
                           (those (map (json_marshal (time_format lib)) c)))) of
        (Some w, Some c) \<Rightarrow>
          Some (JObj [(''m'', JInt (mode_int (lq_mode q))), (''l'', JInt (lq_limit q)),
            (''s'', json_list (map (\<lambda>s. JObj [(''Column'', JStr (sk_column s)), (''Desc'', JBool (sk_desc s))])
                      (lq_sort q))),
            (''w'', json_list w), (''c'', c)])
      | _ \<Rightarrow> None)"

text \<open>A marshalling error leaves the key empty.\<close>

definition shapeKey :: "golib \<Rightarrow> LiveQuery \<Rightarrow> string" where
  "shapeKey lib q = (case shape_json lib q of None \<Rightarrow> [] | Some j \<Rightarrow> json_text lib j)"

definition newView :: "string \<Rightarrow> LiveQuery \<Rightarrow> Predicate \<Rightarrow> view" where
  "newView i q pred =
     \<lparr>v_id = i, v_q = q, v_pred = pred, v_mode = lq_mode q, v_win = None, v_stream = [],
      v_svals = (if lq_mode q = ModeStreamed \<and> lq_fielddeltas q then Some [] else None),
      v_page = [], v_seen = [], v_members = [], v_ready = False, v_pending = [], v_subs = []\<rparr>"

definition reset_delta :: "int \<times> nat \<Rightarrow> LiveDelta" where
  "reset_delta when = \<lparr>ld_op = OpReset, ld_aggid = [], ld_version = 0, ld_row = RawEmpty, ld_old = 0,
     ld_new = 0, ld_cursor = [], ld_stream = [], ld_at = when, ld_changes = None\<rparr>"

definition chan_send :: "bool \<Rightarrow> LiveDelta \<Rightarrow> chan \<Rightarrow> chan" where
  "chan_send took d c =
     (case c of (cap, buf) \<Rightarrow>
        if length buf < cap then (cap, buf @ [d])
        else if took \<and> buf \<noteq> [] then (cap, tl buf @ [reset_delta (ld_at d)])
        else (cap, buf))"

definition v_send :: "(LiveDelta \<Rightarrow> nat \<Rightarrow> bool) \<Rightarrow> LiveDelta \<Rightarrow> view \<Rightarrow> view" where
  "v_send took d v = v\<lparr>v_subs := map (\<lambda>(i, c). (i, chan_send (took d i) d c)) (v_subs v)\<rparr>"

definition v_contains :: "view \<Rightarrow> string \<Rightarrow> bool" where
  "v_contains v aggID =
     (if v_mode v = ModeStreamed then aggID \<in> set (v_stream v)
      else (case v_win v of None \<Rightarrow> False | Some w \<Rightarrow> Contains w aggID))"

definition v_fieldChanges :: "view \<Rightarrow> LChange \<Rightarrow> vals option" where
  "v_fieldChanges v ch =
     (case v_svals v of None \<Rightarrow> None
      | Some m \<Rightarrow> diffVals (mget_or None m (lc_aggid ch)) (lc_vals ch))"

definition rememberVals :: "view \<Rightarrow> LChange \<Rightarrow> view" where
  "rememberVals v ch = v\<lparr>v_svals := map_option (mput (lc_aggid ch) (lc_vals ch)) (v_svals v)\<rparr>"

definition stream_delta :: "DeltaOp \<Rightarrow> LChange \<Rightarrow> rawmsg \<Rightarrow> Cursor \<Rightarrow> vals option \<Rightarrow> LiveDelta" where
  "stream_delta op ch raw cur changes =
     \<lparr>ld_op = op, ld_aggid = lc_aggid ch, ld_version = lc_version ch, ld_row = raw, ld_old = 0, ld_new = 0,
      ld_cursor = cur, ld_stream = [], ld_at = (0, 0), ld_changes = changes\<rparr>"

definition applyStreamed :: "golib \<Rightarrow> view \<Rightarrow> LChange \<Rightarrow> (LiveDelta list \<times> view) option" where
  "applyStreamed lib v ch =
     (case (if lc_deleted ch then Some False else Eval lib (v_pred v) (nil_vals (lc_vals ch))) of
        None \<Rightarrow> None
      | Some matches \<Rightarrow>
          (let was = (lc_aggid ch \<in> set (v_stream v));
               cur = SortKeyOf (nil_vals (lc_vals ch)) (lq_sort (v_q v)) (lc_aggid ch)
           in if matches \<and> \<not> was
              then Some ([stream_delta OpMatch ch (lc_raw ch) cur None],
                         rememberVals (v\<lparr>v_stream := List.insert (lc_aggid ch) (v_stream v)\<rparr>) ch)
              else if \<not> matches \<and> was
              then Some ([stream_delta OpUnmatch ch RawEmpty [] None],
                         v\<lparr>v_stream := removeAll (lc_aggid ch) (v_stream v),
                           v_svals := map_option (mdel (lc_aggid ch)) (v_svals v)\<rparr>)
              else if matches \<and> was
              then Some ([stream_delta OpUpdate ch (lc_raw ch) cur (v_fieldChanges v ch)], rememberVals v ch)
              else Some ([], v)))"

definition v_snapshot :: "view \<Rightarrow> Row list" where
  "v_snapshot v =
     (if v_mode v = ModeStreamed then v_page v
      else (case v_win v of None \<Rightarrow> [] | Some w \<Rightarrow> Visible w))"

section \<open>Partitions\<close>

record partition =
  p_index :: predicateIndex
  p_views :: "view gomap"
  p_memberOf :: "string list gomap"
  p_subView :: "(nat \<times> string) list"

definition newPartition :: partition where
  "newPartition = \<lparr>p_index = newPredicateIndex, p_views = [], p_memberOf = [], p_subView = []\<rparr>"

text \<open>The view is updated in place: here, under its key.\<close>

definition put_view :: "view \<Rightarrow> partition \<Rightarrow> partition" where
  "put_view v p = p\<lparr>p_views := mput (v_id v) v (p_views p)\<rparr>"

text \<open>Removing a view from the reverse index of one aggregate.\<close>

definition drop_member :: "string \<Rightarrow> string \<Rightarrow> string list gomap \<Rightarrow> string list gomap" where
  "drop_member vid aggID m =
     (case mget m aggID of
        None \<Rightarrow> m
      | Some ids \<Rightarrow>
          (let ids' = removeAll vid ids in if ids' = [] then mdel aggID m else mput aggID ids' m))"

definition setMember :: "view \<Rightarrow> string \<Rightarrow> bool \<Rightarrow> partition \<Rightarrow> view \<times> partition" where
  "setMember v aggID member p =
     (if member
      then (v\<lparr>v_members := List.insert aggID (v_members v)\<rparr>,
            p\<lparr>p_memberOf := mput aggID (List.insert (v_id v) (mget_or [] (p_memberOf p) aggID)) (p_memberOf p)\<rparr>)
      else (v\<lparr>v_members := removeAll aggID (v_members v)\<rparr>,
            p\<lparr>p_memberOf := drop_member (v_id v) aggID (p_memberOf p)\<rparr>))"

definition seedMembers :: "view \<Rightarrow> partition \<Rightarrow> view \<times> partition" where
  "seedMembers v p =
     fold (\<lambda>aggID (v, p). setMember v aggID True p)
       (if v_mode v = ModeStreamed then v_stream v
        else (case v_win v of None \<Rightarrow> [] | Some w \<Rightarrow> map rw_aggid (w_rows w)))
       (v, p)"

definition stamp_delta :: "LChange \<Rightarrow> LiveDelta \<Rightarrow> LiveDelta" where
  "stamp_delta ch d = d\<lparr>ld_stream := lc_stream ch, ld_at := lc_at ch\<rparr>"

definition view_step :: "golib \<Rightarrow> Refiller \<Rightarrow> view \<Rightarrow> LChange \<Rightarrow> (LiveDelta list \<times> view) option" where
  "view_step lib refill v ch =
     (if v_mode v = ModeStreamed then applyStreamed lib v ch
      else (case v_win v of
              None \<Rightarrow> None
            | Some w \<Rightarrow> map_option (\<lambda>(ds, w'). (ds, v\<lparr>v_win := Some w'\<rparr>)) (Apply lib refill w ch)))"

definition applyReady ::
  "golib \<Rightarrow> Refiller \<Rightarrow> (LiveDelta \<Rightarrow> nat \<Rightarrow> bool) \<Rightarrow> view \<Rightarrow> LChange \<Rightarrow> partition \<Rightarrow> (view \<times> partition) option" where
  "applyReady lib refill took v ch p =
     (if (case mget (v_seen v) (lc_aggid ch) of None \<Rightarrow> False | Some s \<Rightarrow> lc_version ch \<le> s) then Some (v, p)
      else
        (let v1 = v\<lparr>v_seen := mput (lc_aggid ch) (lc_version ch) (v_seen v)\<rparr>;
             before = v_contains v1 (lc_aggid ch)
         in case view_step lib refill v1 ch of
              None \<Rightarrow> None
            | Some (ds, v2) \<Rightarrow>
                (let after = v_contains v2 (lc_aggid ch);
                     (v3, p3) = (if after \<noteq> before then setMember v2 (lc_aggid ch) after p else (v2, p))
                 in Some (fold (\<lambda>d. v_send took (stamp_delta ch d)) ds v3, p3))))"

definition v_apply ::
  "golib \<Rightarrow> Refiller \<Rightarrow> (LiveDelta \<Rightarrow> nat \<Rightarrow> bool) \<Rightarrow> view \<Rightarrow> LChange \<Rightarrow> partition \<Rightarrow> (view \<times> partition) option" where
  "v_apply lib refill took v ch p =
     (if \<not> v_ready v then Some (v\<lparr>v_pending := v_pending v @ [ch]\<rparr>, p)
      else applyReady lib refill took v ch p)"

fun dispatch_to ::
  "golib \<Rightarrow> Refiller \<Rightarrow> (LiveDelta \<Rightarrow> nat \<Rightarrow> bool) \<Rightarrow> string list \<Rightarrow> LChange \<Rightarrow> partition \<Rightarrow> partition option" where
  "dispatch_to lib refill took [] ch p = Some p"
| "dispatch_to lib refill took (i # ids) ch p =
     (case mget (p_views p) i of
        None \<Rightarrow> dispatch_to lib refill took ids ch p
      | Some v \<Rightarrow>
          (case v_apply lib refill took v ch p of
             None \<Rightarrow> None
           | Some (v', p') \<Rightarrow> dispatch_to lib refill took ids ch (put_view v' p')))"

definition dispatch ::
  "golib \<Rightarrow> Refiller \<Rightarrow> (LiveDelta \<Rightarrow> nat \<Rightarrow> bool) \<Rightarrow> LChange \<Rightarrow> partition \<Rightarrow> partition option" where
  "dispatch lib refill took ch p =
     (case Candidates (p_index p) (lc_vals ch) of
        None \<Rightarrow> None
      | Some cands \<Rightarrow>
          dispatch_to lib refill took (remdups (cands @ mget_or [] (p_memberOf p) (lc_aggid ch))) ch p)"

section \<open>Attaching and detaching\<close>

text \<open>The first closure of \<^verbatim>\<open>attach\<close>: find the view of the shape, or create it.\<close>

definition attach_view :: "golib \<Rightarrow> LiveQuery \<Rightarrow> partition \<Rightarrow> (gerr + bool \<times> partition) option" where
  "attach_view lib q p =
     (let sk = shapeKey lib q
      in case mget (p_views p) sk of
           Some v \<Rightarrow> Some (Inr (False, p))
         | None \<Rightarrow>
             (case Compile (lq_where q) of
                Inl e \<Rightarrow> Some (Inl e)
              | Inr pred \<Rightarrow>
                  map_option
                    (\<lambda>ix. Inr (True, (put_view (newView sk q pred) p)\<lparr>p_index := ix\<rparr>))
                    (ix_Add (p_index p) sk (lq_where q))))"

definition note_seen :: "Row list \<Rightarrow> int gomap \<Rightarrow> int gomap" where
  "note_seen rs seen =
     fold (\<lambda>r s. if rw_version r > mget_or 0 s (rw_aggid r) then mput (rw_aggid r) (rw_version r) s else s) rs seen"

fun drain ::
  "golib \<Rightarrow> Refiller \<Rightarrow> (LiveDelta \<Rightarrow> nat \<Rightarrow> bool) \<Rightarrow> LChange list \<Rightarrow> view \<Rightarrow> partition \<Rightarrow> (view \<times> partition) option" where
  "drain lib refill took [] v p = Some (v, p)"
| "drain lib refill took (ch # chs) v p =
     (case applyReady lib refill took v ch p of
        None \<Rightarrow> None
      | Some (v', p') \<Rightarrow> drain lib refill took chs v' p')"

text \<open>The closure that activates a seeded view and drains what was buffered meanwhile.\<close>

definition activate ::
  "golib \<Rightarrow> Refiller \<Rightarrow> (LiveDelta \<Rightarrow> nat \<Rightarrow> bool) \<Rightarrow> view \<Rightarrow> partition \<Rightarrow> partition option" where
  "activate lib refill took v p =
     (case seedMembers v p of (v1, p1) \<Rightarrow>
        map_option (\<lambda>(v2, p2). put_view v2 p2)
          (drain lib refill took (v_pending v1) (v1\<lparr>v_ready := True, v_pending := []\<rparr>) p1))"

definition seed_maintained ::
  "golib \<Rightarrow> Refiller \<Rightarrow> (LiveDelta \<Rightarrow> nat \<Rightarrow> bool) \<Rightarrow> int \<Rightarrow> Row list \<Rightarrow> view \<Rightarrow> partition \<Rightarrow> partition option" where
  "seed_maintained lib refill took cushion seed v p =
     (let limit = lq_limit (v_q v) + cushion;
          win = NewWindow (v_q v) (v_pred v) seed (int (length seed) < limit) cushion
      in activate lib refill took (v\<lparr>v_win := Some win, v_seen := note_seen seed (v_seen v)\<rparr>) p)"

definition seed_streamed ::
  "golib \<Rightarrow> Refiller \<Rightarrow> (LiveDelta \<Rightarrow> nat \<Rightarrow> bool) \<Rightarrow> string list \<Rightarrow> Row list \<Rightarrow> view \<Rightarrow> partition \<Rightarrow> partition option" where
  "seed_streamed lib refill took ids page v p =
     activate lib refill took
       (v\<lparr>v_stream := fold List.insert ids (v_stream v), v_seen := note_seen page (v_seen v), v_page := page\<rparr>) p"

text \<open>The member lister is optional; without it the page is the membership.\<close>

definition memberIDs :: "(LiveQuery \<Rightarrow> gerr + string list) option \<Rightarrow> LiveQuery \<Rightarrow> Row list \<Rightarrow> gerr + string list" where
  "memberIDs members q page =
     (case members of Some f \<Rightarrow> f q | None \<Rightarrow> Inr (map rw_aggid page))"

text \<open>
  The cleanup of a failed seed, and the last closure of \<^verbatim>\<open>attach\<close>: it joins the
  subscriber's channel, a new one for \<^verbatim>\<open>Subscribe\<close>, the one it already has for
  \<^verbatim>\<open>Reanchor\<close>.
\<close>

definition abandon_view :: "string \<Rightarrow> partition \<Rightarrow> partition" where
  "abandon_view sk p =
     (case mget (p_views p) sk of
        None \<Rightarrow> p
      | Some v \<Rightarrow>
          if v_subs v = [] then p\<lparr>p_index := ix_Remove (p_index p) sk, p_views := mdel sk (p_views p)\<rparr> else p)"

definition join_view :: "string \<Rightarrow> nat \<Rightarrow> chan \<Rightarrow> partition \<Rightarrow> (Row list \<times> partition) option" where
  "join_view sk subID out p =
     (case mget (p_views p) sk of
        None \<Rightarrow> None
      | Some v \<Rightarrow>
          if \<not> v_ready v then None
          else Some (v_snapshot v,
                     (put_view (v\<lparr>v_subs := mput subID out (v_subs v)\<rparr>) p)
                       \<lparr>p_subView := mput subID sk (p_subView p)\<rparr>))"

definition detach :: "nat \<Rightarrow> partition \<Rightarrow> partition" where
  "detach subID p =
     (case mget (p_subView p) subID of
        None \<Rightarrow> p
      | Some sk \<Rightarrow>
          (let p1 = p\<lparr>p_subView := mdel subID (p_subView p)\<rparr>
           in case mget (p_views p1) sk of
                None \<Rightarrow> p1
              | Some v \<Rightarrow>
                  (let v1 = v\<lparr>v_subs := mdel subID (v_subs v)\<rparr>
                   in if v_subs v1 = []
                      then p1\<lparr>p_index := ix_Remove (p_index p1) sk,
                              p_memberOf := fold (drop_member sk) (v_members v1) (p_memberOf p1),
                              p_views := mdel sk (p_views p1)\<rparr>
                      else put_view v1 p1)))"

section \<open>Drift repair\<close>

definition windowDrift :: "Window \<Rightarrow> Row list \<Rightarrow> int \<Rightarrow> bool" where
  "windowDrift win truth n =
     (let vis = Visible win; tr = (if int (length truth) > n then take (nat n) truth else truth)
      in length vis \<noteq> length tr
         \<or> list_ex (\<lambda>(a, b). rw_aggid a \<noteq> rw_aggid b \<or> rw_version a \<noteq> rw_version b) (zip vis tr))"

definition repair_view ::
  "(LiveDelta \<Rightarrow> nat \<Rightarrow> bool) \<Rightarrow> int \<Rightarrow> string \<Rightarrow> LiveQuery \<Rightarrow> Row list \<Rightarrow> partition \<Rightarrow> bool \<times> partition" where
  "repair_view took cushion vid q seed p =
     (case mget (p_views p) vid of
        None \<Rightarrow> (False, p)
      | Some v \<Rightarrow>
          (case v_win v of
             None \<Rightarrow> (False, p)
           | Some win \<Rightarrow>
               if \<not> windowDrift win seed (lq_limit q) then (False, p)
               else
                 (let p1 = p\<lparr>p_memberOf := fold (drop_member vid) (v_members v) (p_memberOf p)\<rparr>;
                      nw = NewWindow q (v_pred v) seed (int (length seed) < lq_limit q + cushion) cushion;
                      v1 = v\<lparr>v_members := [], v_win := Some nw, v_seen := note_seen seed []\<rparr>;
                      (v2, p2) = seedMembers v1 p1
                  in (True, put_view (v_send took (reset_delta (0, 0)) v2) p2))))"

definition reconcile_jobs :: "partition \<Rightarrow> (string \<times> LiveQuery) list" where
  "reconcile_jobs p =
     map (\<lambda>(vid, v). (vid, v_q v)) (filter (\<lambda>(vid, v). v_ready v \<and> v_mode v = ModeMaintained) (p_views p))"

text \<open>The loop over the jobs of a partition; the snapshot port answers per query and limit.\<close>

fun reconcile_views ::
  "(LiveDelta \<Rightarrow> nat \<Rightarrow> bool) \<Rightarrow> int \<Rightarrow> (LiveQuery \<Rightarrow> int \<Rightarrow> gerr + Row list) \<Rightarrow> (string \<times> LiveQuery) list
     \<Rightarrow> partition \<Rightarrow> nat \<times> gerr option \<times> partition" where
  "reconcile_views took cushion snap [] p = (0, None, p)"
| "reconcile_views took cushion snap ((vid, q) # jobs) p =
     (case snap q (lq_limit q + cushion) of
        Inl e \<Rightarrow> (0, Some e, p)
      | Inr seed \<Rightarrow>
          (case repair_view took cushion vid q seed p of (drifted, p1) \<Rightarrow>
             (case reconcile_views took cushion snap jobs p1 of (n, e, p2) \<Rightarrow>
                (if drifted then n + 1 else n, e, p2))))"

section \<open>The feed\<close>

definition isDeleted :: "string \<Rightarrow> bool" where
  "isDeleted eventType = (drop (length eventType - length ''.deleted'') eventType = ''.deleted'')"

text \<open>
  What the feed makes of a delta of the tailed channel: nothing for another entity; the
  columns only of an event that is not a deletion and whose payload is an object.
\<close>

definition feed_change :: "LiveQuery \<Rightarrow> Delta \<Rightarrow> LChange option" where
  "feed_change q d =
     (if dl_aggregate d \<noteq> lq_entity q then None
      else
        Some \<lparr>lc_aggid = dl_aggid d, lc_version = dl_version d, lc_deleted = isDeleted (dl_type d),
              lc_vals = (if isDeleted (dl_type d) then None
                         else (case dl_payload d of
                                 RawJson (JObj kvs) \<Rightarrow> Some (go_map_of (map (\<lambda>(k, v). (k, json_any v)) kvs))
                               | _ \<Rightarrow> None)),
              lc_raw = dl_payload d, lc_stream = dl_stream d, lc_at = dl_at d\<rparr>)"

section \<open>The engine\<close>

text \<open>The query of a subscription that moves to another anchor.\<close>

definition reanchor_query :: "Cursor option \<Rightarrow> int \<Rightarrow> LiveQuery \<Rightarrow> LiveQuery" where
  "reanchor_query cursor limit q =
     (let q2 = q\<lparr>lq_cursor := cursor\<rparr> in if limit > 0 then q2\<lparr>lq_limit := limit\<rparr> else q2)"

definition partition_key :: "gctx \<Rightarrow> LiveQuery \<Rightarrow> string" where
  "partition_key ctx q = (case FromContext ctx of Inl _ \<Rightarrow> [] | Inr t \<Rightarrow> t) @ ''|'' @ lq_entity q"

text \<open>Partitions with their reference counts; \<open>feed\<close> is the outcome of opening the feed.\<close>

definition partitionFor :: "gerr option \<Rightarrow> string \<Rightarrow> (partition \<times> int) gomap \<Rightarrow> gerr + (partition \<times> int) gomap" where
  "partitionFor feed key parts =
     (case mget parts key of
        Some (p, refs) \<Rightarrow> Inr (mput key (p, refs + 1) parts)
      | None \<Rightarrow> (case feed of Some e \<Rightarrow> Inl e | None \<Rightarrow> Inr (mput key (newPartition, 1) parts)))"

definition release :: "string \<Rightarrow> (partition \<times> int) gomap \<Rightarrow> (partition \<times> int) gomap" where
  "release key parts =
     (case mget parts key of
        None \<Rightarrow> parts
      | Some (p, refs) \<Rightarrow> if refs - 1 \<le> 0 then mdel key parts else mput key (p, refs - 1) parts)"

end
