(* ===== verification/LiveRouting.thy ===== *)
theory LiveRouting
  imports LiveEngine
begin

text \<open>
  Correctness of the live-query dispatcher: the index routes every change to the views it
  affects, redelivery is harmless, partitions separate tenants and entities, and what a
  full channel and a shared shape do to a subscriber.
\<close>

section \<open>Routing\<close>

text \<open>What a view does with a change whose aggregate it does not hold and that does not match.\<close>

lemma Apply_unaffected:
  assumes "(if lc_deleted ch then Some False else Eval lib (w_pred w) (nil_vals (lc_vals ch))) = Some False"
    and "\<not> Contains w (lc_aggid ch)"
  shows "Apply lib refill w ch = Some ([], w)"
  using assms by (simp add: Apply_def Contains_def)

text \<open>A missing row satisfies no equality, so only residual filters accept it.\<close>

lemma Eval_nil_residual:
  assumes "Eval lib w [] = Some True"
  shows "equalityColumns w = []"
proof (rule ccontr)
  assume "equalityColumns w \<noteq> []"
  then obtain col vs where "(col, vs) \<in> set (equalityColumns w)" by (cases "equalityColumns w") auto
  then obtain c us where "c \<in> set w" "contributes c col us" by (rule equalityColumns_source)
  moreover have "evalCond lib c [] = Some True" using assms \<open>c \<in> set w\<close> by (simp add: Eval_def all_m_True)
  ultimately show False using evalCond_contributes [of c col us lib "[]"] by simp
qed

text \<open>
  Routing through the index loses nothing: a view that is neither a candidate of the
  changed row nor holds its aggregate would not have changed, nor emitted a delta, had
  the change been applied to it.
\<close>

theorem routing_skips_unaffected:
  assumes "ix_reach (p_index p) S" and "S (v_id v) = Some (v_pred v)"
    and "Candidates (p_index p) (lc_vals ch) = Some cands" and "v_id v \<notin> set cands"
    and "\<not> v_contains v (lc_aggid ch)"
    and "v_mode v = ModeStreamed \<or> (\<exists>w. v_win v = Some w \<and> w_pred w = v_pred v)"
    and "Eval lib (v_pred v) (nil_vals (lc_vals ch)) \<noteq> None"
    and "\<forall>(col, x) \<in> set (nil_vals (lc_vals ch)). hashable x \<and> (\<forall>t l. x \<noteq> VTime t l)"
  shows "view_step lib refill v ch = Some ([], v)"
proof -
  have "Eval lib (v_pred v) (nil_vals (lc_vals ch)) \<noteq> Some True"
  proof
    assume t: "Eval lib (v_pred v) (nil_vals (lc_vals ch)) = Some True"
    show False
    proof (cases "lc_vals ch")
      case None
      then have "equalityColumns (v_pred v) = []" using t Eval_nil_residual by (simp add: nil_vals_def)
      then have "v_id v \<in> set (ix_residual (p_index p))"
        using ix_reach_indexed [OF assms(1)] assms(2) by (auto simp: indexed_def)
      then show False using assms(3,4) None by (auto simp: Candidates_def)
    next
      case (Some row)
      then show False
        using Candidates_sound_aux [OF assms(1,2), of lib row] t assms(3,4,8) by (simp add: nil_vals_def)
    qed
  qed
  then have m: "Eval lib (v_pred v) (nil_vals (lc_vals ch)) = Some False"
    using assms(7) by auto
  show ?thesis
  proof (cases "v_mode v = ModeStreamed")
    case True
    then show ?thesis using m assms(5) by (auto simp: view_step_def applyStreamed_def v_contains_def Let_def)
  next
    case False
    then obtain w where "v_win v = Some w" "w_pred w = v_pred v" using assms(6) by blast
    moreover from this have "Apply lib refill w ch = Some ([], w)"
      using m assms(5) False by (intro Apply_unaffected) (simp_all add: v_contains_def)
    moreover have "v\<lparr>v_win := Some w\<rparr> = v" using \<open>v_win v = Some w\<close> by (cases v) simp
    ultimately show ?thesis using False by (simp add: view_step_def)
  qed
qed

definition widget_view :: view where
  "widget_view = (newView ''s1'' (ranked_query\<lparr>lq_where := widget_where, lq_mode := ModeStreamed\<rparr>) widget_where)
     \<lparr>v_ready := True\<rparr>"

theorem routing_skips_unaffected_witness:
  "view_step demo_lib no_more widget_view (ranked_change ''a'' 1 1) = Some ([], widget_view)"
  by (rule routing_skips_unaffected [where p = "newPartition\<lparr>p_index := widget_index\<rparr>" and cands = "[]"
        and S = "[''s1'' \<mapsto> widget_where]"])
     (use widget_index_reach in \<open>simp_all add: widget_view_def newView_def newPartition_def widget_index_def
        ranked_change_def ranked_vals_def Candidates_def v_contains_def widget_where_def Eval_def In_def
        evalLeaf_def evalSetString_def inSlice_def mget_or_def nil_vals_def Eq_def equal_def toFloat_def toTime_def\<close>)

lemma v_send_frame [simp]:
  "v_seen (v_send took d v) = v_seen v" "v_id (v_send took d v) = v_id v"
  "v_members (v_send took d v) = v_members v" "v_ready (v_send took d v) = v_ready v"
  "v_q (v_send took d v) = v_q v" "v_mode (v_send took d v) = v_mode v" "v_win (v_send took d v) = v_win v"
  by (simp_all add: v_send_def)

lemma fold_send_frame [simp]:
  "v_seen (fold (\<lambda>d. v_send took (f d)) ds v) = v_seen v"
  "v_id (fold (\<lambda>d. v_send took (f d)) ds v) = v_id v"
  "v_members (fold (\<lambda>d. v_send took (f d)) ds v) = v_members v"
  "v_ready (fold (\<lambda>d. v_send took (f d)) ds v) = v_ready v"
  "v_q (fold (\<lambda>d. v_send took (f d)) ds v) = v_q v"
  by (induction ds arbitrary: v) simp_all

lemma view_step_frame:
  assumes "view_step lib refill v ch = Some (ds, v')"
  shows "v_seen v' = v_seen v \<and> v_id v' = v_id v \<and> v_members v' = v_members v \<and> v_ready v' = v_ready v \<and> v_q v' = v_q v"
  using assms
  by (auto simp: view_step_def applyStreamed_def rememberVals_def Let_def split: if_splits option.splits)

lemma setMember_frame:
  assumes "setMember v a b p = (v', p')"
  shows "v_seen v' = v_seen v \<and> v_id v' = v_id v \<and> v_ready v' = v_ready v \<and> v_q v' = v_q v
    \<and> p_views p' = p_views p \<and> p_index p' = p_index p \<and> p_subView p' = p_subView p"
  using assms by (auto simp: setMember_def split: if_splits)

lemma applyReady_cases:
  assumes "applyReady lib refill took v ch p = Some (v', p')"
  obtains (stale) s where "mget (v_seen v) (lc_aggid ch) = Some s" "lc_version ch \<le> s" "v' = v" "p' = p"
  | (step) ds v2 v3 where
      "view_step lib refill (v\<lparr>v_seen := mput (lc_aggid ch) (lc_version ch) (v_seen v)\<rparr>) ch = Some (ds, v2)"
      "(v3, p') = (v2, p) \<or> (\<exists>b. (v3, p') = setMember v2 (lc_aggid ch) b p)"
      "v' = fold (\<lambda>d. v_send took (stamp_delta ch d)) ds v3"
proof (cases "case mget (v_seen v) (lc_aggid ch) of None \<Rightarrow> False | Some s \<Rightarrow> lc_version ch \<le> s")
  case True
  then obtain s where s: "mget (v_seen v) (lc_aggid ch) = Some s" "lc_version ch \<le> s"
    by (cases "mget (v_seen v) (lc_aggid ch)") simp_all
  then have "v' = v" "p' = p" using assms by (simp_all add: applyReady_def)
  then show thesis using stale s by blast
next
  case False
  define v1 where "v1 = v\<lparr>v_seen := mput (lc_aggid ch) (lc_version ch) (v_seen v)\<rparr>"
  obtain ds v2 where s: "view_step lib refill v1 ch = Some (ds, v2)"
    using assms False by (cases "view_step lib refill v1 ch") (auto simp: applyReady_def v1_def [symmetric] Let_def)
  obtain v3 p3 where e: "(if v_contains v2 (lc_aggid ch) \<noteq> v_contains v1 (lc_aggid ch)
        then setMember v2 (lc_aggid ch) (v_contains v2 (lc_aggid ch)) p else (v2, p)) = (v3, p3)" by (rule prod.exhaust)
  have "v' = fold (\<lambda>d. v_send took (stamp_delta ch d)) ds v3" "p' = p3"
    using assms False s e by (simp_all add: applyReady_def v1_def [symmetric] Let_def)
  moreover have "(v3, p3) = (v2, p) \<or> (\<exists>b. (v3, p3) = setMember v2 (lc_aggid ch) b p)"
    using e [symmetric] by (metis (full_types))
  ultimately show thesis using step [of ds v2 v3] s unfolding v1_def by blast
qed

lemma applyReady_seen:
  assumes "applyReady lib refill took v ch p = Some (v', p')"
  shows "\<exists>s. mget (v_seen v') (lc_aggid ch) = Some s \<and> lc_version ch \<le> s"
  using assms
proof (cases rule: applyReady_cases)
  case (step ds v2 v3)
  have "v_seen v3 = v_seen v2" using step(2) setMember_frame by (metis prod.inject)
  then show ?thesis using step(3) view_step_frame [OF step(1)] by simp
qed auto

text \<open>
  Redelivery is harmless: applying a change to a ready view a second time changes
  neither the view, nor the partition, nor any subscriber's channel.
\<close>

theorem redelivery_idempotent:
  assumes "applyReady lib refill took v ch p = Some (v', p')"
  shows "applyReady lib refill' took' v' ch p' = Some (v', p')"
proof -
  have "\<exists>s. mget (v_seen v') (lc_aggid ch) = Some s \<and> lc_version ch \<le> s"
    using applyReady_seen [OF assms] .
  then show ?thesis by (auto simp: applyReady_def)
qed

theorem redelivery_idempotent_witness:
  "\<exists>v' p'. applyReady demo_lib no_more (\<lambda>d i. True) widget_view (ranked_change ''a'' 1 1) newPartition = Some (v', p')
     \<and> applyReady demo_lib no_more (\<lambda>d i. True) v' (ranked_change ''a'' 1 1) p' = Some (v', p')"
proof -
  obtain v' p' where
    r: "applyReady demo_lib no_more (\<lambda>d i. True) widget_view (ranked_change ''a'' 1 1) newPartition = Some (v', p')"
    by (simp add: applyReady_def widget_view_def newView_def view_step_def applyStreamed_def
        ranked_change_def ranked_vals_def v_contains_def widget_where_def Eval_def In_def
        evalLeaf_def evalSetString_def inSlice_def mget_or_def nil_vals_def Eq_def Let_def)
  then show ?thesis using redelivery_idempotent [OF r] by blast
qed

section \<open>Isolation\<close>

text \<open>
  Subscriptions of different tenants, or to different entities, never share a
  partition.
\<close>

theorem partitions_isolated:
  assumes "WithTenant c1 t1 = Inr ctx1" and "WithTenant c2 t2 = Inr ctx2"
    and "partition_key ctx1 q1 = partition_key ctx2 q2"
  shows "t1 = t2 \<and> lq_entity q1 = lq_entity q2"
proof -
  have v: "Valid t1" "Valid t2" "FromContext ctx1 = Inr t1" "FromContext ctx2 = Inr t2"
    using assms(1,2) WithTenant_Require [OF assms(1)] WithTenant_Require [OF assms(2)]
    by (auto simp: WithTenant_def Require_def split: if_splits)
  have "CHR ''|'' \<notin> set t1" "CHR ''|'' \<notin> set t2"
    using v(1,2) by (auto simp: Valid_def list_all_iff id_char_def is_lower_def is_upper_def is_digit_def)
  moreover have "t1 @ CHR ''|'' # lq_entity q1 = t2 @ CHR ''|'' # lq_entity q2"
    using assms(3) v(3,4) by (simp add: partition_key_def)
  ultimately show ?thesis by (rule sep_append_inj)
qed

theorem partitions_isolated_witness:
  "\<exists>ctx. WithTenant background ''acme'' = Inr ctx
     \<and> partition_key ctx ranked_query = ''acme|widget''
     \<and> ''acme'' = ''acme'' \<and> lq_entity ranked_query = lq_entity ranked_query"
proof -
  obtain ctx where c: "WithTenant background ''acme'' = Inr ctx" "partition_key ctx ranked_query = ''acme|widget''"
    by (simp add: WithTenant_def Valid_def id_char_def is_lower_def background_def partition_key_def
        FromContext_def ranked_query_def)
  then show ?thesis using partitions_isolated [OF c(1) c(1) refl] by blast
qed

section \<open>Channels and shapes\<close>

text \<open>
  A subscriber that falls behind is not told so: while nothing is received, the
  channel keeps the first deltas up to its capacity, and everything after them is dropped
  together with the reset that should have replaced it.
\<close>

theorem full_channel_drops_silently:
  assumes "length buf \<le> cap"
  shows "fold (chan_send False) ds (cap, buf) = (cap, take cap (buf @ ds))"
  using assms by (induction ds arbitrary: buf) (auto simp: chan_send_def take_Cons' Suc_diff_Suc)

theorem full_channel_drops_silently_witness:
  "fold (chan_send False) [reset_delta (1, 0), reset_delta (2, 0)] (1, []) = (1, [reset_delta (1, 0)])"
  using full_channel_drops_silently [of "[]" 1 "[reset_delta (1, 0), reset_delta (2, 0)]"] by simp

text \<open>
  Subscribers of one shape share a view, and the shape leaves out whether field deltas
  were asked for: a second subscriber that asks for them joins the view of a first that
  did not, and its updates carry no field changes.
\<close>

theorem shape_ignores_fielddeltas:
  assumes "attach_view lib q p = Some (Inr (True, p'))" and "\<not> lq_fielddeltas q"
  shows "attach_view lib (q\<lparr>lq_fielddeltas := True\<rparr>) p' = Some (Inr (False, p'))
    \<and> (\<exists>v. mget (p_views p') (shapeKey lib (q\<lparr>lq_fielddeltas := True\<rparr>)) = Some v \<and> v_fieldChanges v ch = None)"
proof -
  have sk: "shapeKey lib (q\<lparr>lq_fielddeltas := True\<rparr>) = shapeKey lib q"
    by (simp add: shapeKey_def shape_json_def split: option.split)
  obtain pred where "mget (p_views p') (shapeKey lib q) = Some (newView (shapeKey lib q) q pred)"
    using assms(1) by (auto simp: attach_view_def Let_def put_view_def newView_def split: option.splits sum.splits)
  then show ?thesis using assms(2) by (simp add: attach_view_def sk newView_def v_fieldChanges_def)
qed

theorem shape_ignores_fielddeltas_witness:
  "\<exists>p'. attach_view demo_lib (ranked_query\<lparr>lq_fielddeltas := True\<rparr>) p' = Some (Inr (False, p'))
    \<and> (\<exists>v. mget (p_views p') (shapeKey demo_lib (ranked_query\<lparr>lq_fielddeltas := True\<rparr>)) = Some v
         \<and> v_fieldChanges v (ranked_change ''a'' 1 1) = None)"
proof -
  let ?q = "ranked_query\<lparr>lq_fielddeltas := False\<rparr>"
  obtain p' where "attach_view demo_lib ?q newPartition = Some (Inr (True, p'))"
    by (simp add: attach_view_def newPartition_def ranked_query_def Compile_def ix_Add_def equalityColumns_def
        newPredicateIndex_def Let_def)
  from shape_ignores_fielddeltas [OF this, of "ranked_change ''a'' 1 1"] show ?thesis by auto
qed

end
