(* ===== verification/LiveReach.thy ===== *)
theory LiveReach
  imports LiveRouting
begin

text \<open>
  The partitions the engine can reach: an inductive relation with one rule per closure
  that runs on the partition's goroutine, in any order, and the invariant every one of
  them keeps.  From it follow the exact membership of streamed views after a dispatched
  change, and what a change dispatched during a snapshot does.
\<close>

section \<open>The reverse index\<close>

definition members_of :: "string list gomap \<Rightarrow> string \<Rightarrow> string set" where
  "members_of m a = set (mget_or [] m a)"

lemma members_of_put [simp]: "members_of (mput a ids m) b = (if b = a then set ids else members_of m b)"
  by (simp add: members_of_def)

lemma members_of_drop [simp]:
  "members_of (drop_member i a m) b = members_of m b - (if b = a then {i} else {})"
  by (auto simp: drop_member_def members_of_def mget_or_def Let_def removeAll_filter_not_eq filter_empty_conv split: option.splits)

lemma members_of_drop_all [simp]:
  "members_of (fold (drop_member i) as m) b = members_of m b - (if b \<in> set as then {i} else {})"
  by (induction as arbitrary: m) auto

definition no_empty :: "string list gomap \<Rightarrow> bool" where
  "no_empty m = (\<forall>a. mget m a \<noteq> Some [])"

lemma no_empty_drop [simp]: "no_empty m \<Longrightarrow> no_empty (drop_member i a m)"
  by (auto simp: no_empty_def drop_member_def Let_def split: option.splits)

lemma no_empty_drop_all [simp]: "no_empty m \<Longrightarrow> no_empty (fold (drop_member i) as m)"
  by (induction as arbitrary: m) simp_all

lemma no_empty_insert [simp]: "no_empty m \<Longrightarrow> no_empty (mput a (List.insert i ids) m)"
  by (auto simp: no_empty_def List.insert_def)

lemma no_empty_no_members: "no_empty m \<Longrightarrow> (\<And>a. members_of m a = {}) \<Longrightarrow> mget m a = None"
  by (cases "mget m a") (auto simp: no_empty_def members_of_def mget_or_def, metis list.set_intros(1) neq_Nil_conv option.simps(5) empty_iff)

section \<open>The invariant\<close>

text \<open>
  The reverse index lists a view under an aggregate exactly when the view holds it, the
  subscriber table is exact, and the predicate index is one the views' filters build.
\<close>

definition subs_of :: "view \<Rightarrow> nat set" where
  "subs_of v = dom (mget (v_subs v))"

lemma subs_of_upd [simp]:
  "subs_of (v\<lparr>v_members := x\<rparr>) = subs_of v" "subs_of (v\<lparr>v_seen := y\<rparr>) = subs_of v"
  "subs_of (v\<lparr>v_win := w\<rparr>) = subs_of v" "subs_of (v\<lparr>v_stream := x\<rparr>) = subs_of v"
  "subs_of (v\<lparr>v_svals := z\<rparr>) = subs_of v" "subs_of (v\<lparr>v_page := pg\<rparr>) = subs_of v"
  "subs_of (v\<lparr>v_ready := b\<rparr>) = subs_of v" "subs_of (v\<lparr>v_pending := chs\<rparr>) = subs_of v"
  by (simp_all add: subs_of_def)

lemma subs_of_send [simp]: "subs_of (v_send took d v) = subs_of v"
  by (simp add: subs_of_def v_send_def dom_map_of_conv_image_fst image_image split_beta)

definition links ::
  "(string \<Rightarrow> view option) \<Rightarrow> string list gomap \<Rightarrow> (nat \<Rightarrow> string option) \<Rightarrow> predicateIndex \<Rightarrow> bool" where
  "links V M S ix =
     ((\<forall>i v. V i = Some v \<longrightarrow> v_id v = i)
      \<and> (\<forall>i a. i \<in> members_of M a \<longleftrightarrow> (\<exists>v. V i = Some v \<and> a \<in> set (v_members v)))
      \<and> no_empty M
      \<and> (\<forall>s i. S s = Some i \<longleftrightarrow> (\<exists>v. V i = Some v \<and> s \<in> subs_of v))
      \<and> ix_reach ix (map_option v_pred \<circ> V))"

lemma linksI:
  assumes "\<And>i v. V i = Some v \<Longrightarrow> v_id v = i"
    and "\<And>i a. i \<in> members_of M a \<longleftrightarrow> (\<exists>v. V i = Some v \<and> a \<in> set (v_members v))"
    and "no_empty M" and "\<And>s i. S s = Some i \<longleftrightarrow> (\<exists>v. V i = Some v \<and> s \<in> subs_of v)"
    and "ix_reach ix (map_option v_pred \<circ> V)"
  shows "links V M S ix"
  using assms by (simp add: links_def)

lemma linksD:
  assumes "links V M S ix"
  shows "V i = Some v \<Longrightarrow> v_id v = i"
    and "i \<in> members_of M a \<longleftrightarrow> (\<exists>v. V i = Some v \<and> a \<in> set (v_members v))"
    and "no_empty M" and "S s = Some i \<longleftrightarrow> (\<exists>v. V i = Some v \<and> s \<in> subs_of v)"
    and "ix_reach ix (map_option v_pred \<circ> V)"
  using assms unfolding links_def by blast+

definition linked :: "partition \<Rightarrow> bool" where
  "linked p = links (mget (p_views p)) (p_memberOf p) (mget (p_subView p)) (p_index p)"

text \<open>
  A view that is not ready holds nothing yet; a ready streamed view holds its stream.
\<close>

definition settled :: "view \<Rightarrow> bool" where
  "settled v =
     ((\<not> v_ready v \<longrightarrow> v_members v = [] \<and> v_stream v = [] \<and> v_win v = None \<and> v_subs v = [])
      \<and> (v_ready v \<and> v_mode v = ModeStreamed \<longrightarrow> set (v_members v) = set (v_stream v)))"

definition pinv :: "partition \<Rightarrow> bool" where
  "pinv p = (linked p \<and> (\<forall>i v. mget (p_views p) i = Some v \<longrightarrow> settled v))"

text \<open>What the invariant sees of a view besides its members.\<close>

definition same_links :: "view \<Rightarrow> view \<Rightarrow> bool" where
  "same_links v v' = (v_id v' = v_id v \<and> v_pred v' = v_pred v \<and> subs_of v' = subs_of v)"

definition same_view :: "view \<Rightarrow> view \<Rightarrow> bool" where
  "same_view v v' = (same_links v v' \<and> v_mode v' = v_mode v \<and> v_ready v' = v_ready v)"

lemma same_view_links [simp]: "same_view v v' \<Longrightarrow> same_links v v'"
  by (simp add: same_view_def)

lemma same_view_refl [simp]: "same_view v v"
  by (simp add: same_view_def same_links_def)

lemma same_view_trans: "same_view u v \<Longrightarrow> same_view v w \<Longrightarrow> same_view u w"
  by (simp add: same_view_def same_links_def)

lemma mget_mput_fun: "mget (mput k v m) = (mget m)(k \<mapsto> v)"
  by (rule ext) simp

lemma mget_mdel_fun: "mget (mdel k m) = (mget m)(k := None)"
  by (rule ext) simp

text \<open>A partition whose view \<open>v\<close> is being worked on.\<close>

definition linked_at :: "view \<Rightarrow> partition \<Rightarrow> bool" where
  "linked_at v p = links ((mget (p_views p))(v_id v \<mapsto> v)) (p_memberOf p) (mget (p_subView p)) (p_index p)"

lemma linked_put [simp]: "linked (put_view v p) = linked_at v p"
  unfolding linked_def linked_at_def put_view_def by (simp add: mget_mput_fun del: mget_mput)

lemma linked_at_self:
  assumes "linked p" and "mget (p_views p) i = Some v"
  shows "linked_at v p" "v_id v = i"
proof -
  show i: "v_id v = i" using assms by (simp add: linked_def links_def)
  then have "(mget (p_views p))(v_id v \<mapsto> v) = mget (p_views p)" using assms(2) by (auto simp: fun_upd_idem)
  then show "linked_at v p" using assms(1) by (simp add: linked_at_def linked_def)
qed

lemma map_pred_upd:
  "same_links v v' \<Longrightarrow> map_option v_pred \<circ> V(k \<mapsto> v') = map_option v_pred \<circ> V(k \<mapsto> v)"
  by (auto simp: fun_eq_iff same_links_def)

lemma subs_upd:
  "same_links v v' \<Longrightarrow> (\<exists>u. (V(k \<mapsto> v')) i = Some u \<and> s \<in> subs_of u) = (\<exists>u. (V(k \<mapsto> v)) i = Some u \<and> s \<in> subs_of u)"
  by (simp add: same_links_def)

lemma links_upd:
  assumes l: "links (V(v_id v \<mapsto> v)) M S ix" and "same_links v v'" and "no_empty M'"
    and m: "\<And>i b. i \<in> members_of M' b \<longleftrightarrow> (\<exists>u. (V(v_id v \<mapsto> v')) i = Some u \<and> b \<in> set (v_members u))"
  shows "links (V(v_id v \<mapsto> v')) M' S ix"
proof (rule linksI)
  fix i u
  assume a: "(V(v_id v \<mapsto> v')) i = Some u"
  show "v_id u = i"
  proof (cases "i = v_id v")
    case True
    then show ?thesis using a assms(2) by (simp add: same_links_def)
  next
    case False
    then have "(V(v_id v \<mapsto> v)) i = Some u" using a by simp
    then show ?thesis by (rule linksD(1) [OF l])
  qed
next
  fix s i
  have "(S s = Some i) = (\<exists>u. (V(v_id v \<mapsto> v)) i = Some u \<and> s \<in> subs_of u)" by (rule linksD(4) [OF l])
  then show "(S s = Some i) = (\<exists>u. (V(v_id v \<mapsto> v')) i = Some u \<and> s \<in> subs_of u)"
    using subs_upd [OF assms(2), of V "v_id v" i s] by blast
next
  have "ix_reach ix (map_option v_pred \<circ> V(v_id v \<mapsto> v))" by (rule linksD(5) [OF l])
  then show "ix_reach ix (map_option v_pred \<circ> V(v_id v \<mapsto> v'))"
    by (simp only: map_pred_upd [OF assms(2)])
qed (rule m, rule assms(3))

lemma links_same:
  assumes l: "links (V(v_id v \<mapsto> v)) M S ix" and "same_links v v'" and "set (v_members v') = set (v_members v)"
  shows "links (V(v_id v \<mapsto> v')) M S ix"
proof (rule links_upd [OF l assms(2) linksD(3) [OF l]])
  show "(i \<in> members_of M b) = (\<exists>u. (V(v_id v \<mapsto> v')) i = Some u \<and> b \<in> set (v_members u))" for i b
    using linksD(2) [OF l, of i b] assms(3) by auto
qed

lemma linked_at_same:
  "linked_at v p \<Longrightarrow> same_links v v' \<Longrightarrow> set (v_members v') = set (v_members v) \<Longrightarrow> linked_at v' p"
  using links_same [of "mget (p_views p)" v "p_memberOf p" "mget (p_subView p)" "p_index p" v']
  by (simp add: linked_at_def same_links_def)

text \<open>Adding or dropping one aggregate on both sides.\<close>

lemma links_set:
  assumes l: "links (V(v_id v \<mapsto> v)) M S ix" and "same_links v v'" and "no_empty M'"
    and m: "\<And>b. members_of M' b = (if b = a then (if member then insert (v_id v) (members_of M b) else members_of M b - {v_id v})
               else members_of M b)"
    and "set (v_members v') = (if member then insert a (set (v_members v)) else set (v_members v) - {a})"
  shows "links (V(v_id v \<mapsto> v')) M' S ix"
proof (rule links_upd [OF l assms(2,3)])
  show "(i \<in> members_of M' b) = (\<exists>u. (V(v_id v \<mapsto> v')) i = Some u \<and> b \<in> set (v_members u))" for i b
    using linksD(2) [OF l, of i b] m [of b] assms(5) by (cases "i = v_id v"; cases "b = a") auto
qed

lemma linked_at_setMember:
  assumes "linked_at v p" and "setMember v a b p = (v', p')"
  shows "linked_at v' p' \<and> same_view v v'
    \<and> set (v_members v') = (if b then insert a (set (v_members v)) else set (v_members v) - {a})
    \<and> v_stream v' = v_stream v \<and> p_views p' = p_views p"
proof -
  have f: "same_view v v'" "p_views p' = p_views p" "p_subView p' = p_subView p" "p_index p' = p_index p"
      "v_stream v' = v_stream v"
      "set (v_members v') = (if b then insert a (set (v_members v)) else set (v_members v) - {a})"
    using assms(2) by (auto simp: setMember_def same_view_def same_links_def split: if_splits)
  have "no_empty (p_memberOf p)" using assms(1) by (simp add: linked_at_def links_def)
  then have n: "no_empty (p_memberOf p')" using assms(2) by (auto simp: setMember_def split: if_splits)
  have "members_of (p_memberOf p') c = (if c = a then (if b then insert (v_id v) (members_of (p_memberOf p) c)
      else members_of (p_memberOf p) c - {v_id v}) else members_of (p_memberOf p) c)" for c
    using assms(2) by (auto simp: setMember_def split: if_splits) (auto simp: members_of_def)
  from links_set [OF assms(1) [unfolded linked_at_def] same_view_links [OF f(1)] n this f(6)]
  have "linked_at v' p'" using f by (simp add: linked_at_def same_view_def same_links_def)
  then show ?thesis using f by blast
qed

section \<open>Every operation keeps it\<close>

lemma same_view_send [simp]: "same_view v (fold (\<lambda>d. v_send took (f d)) ds v)"
proof (induction ds arbitrary: v)
  case (Cons d ds)
  have "same_view v (v_send took (f d) v)" by (simp add: same_view_def same_links_def) (simp add: v_send_def)
  then show ?case using Cons same_view_trans by fastforce
qed simp

lemma stream_send [simp]: "v_stream (fold (\<lambda>d. v_send took (f d)) ds v) = v_stream v"
  by (induction ds arbitrary: v) (simp_all add: v_send_def)

lemma same_view_step: "view_step lib refill v ch = Some (ds, v') \<Longrightarrow> same_view v v'"
  by (auto simp: view_step_def applyStreamed_def rememberVals_def same_view_def same_links_def Let_def
      split: if_splits option.splits)

text \<open>What a streamed view holds after a step.\<close>

definition verdict :: "golib \<Rightarrow> view \<Rightarrow> LChange \<Rightarrow> bool option" where
  "verdict lib v ch = (if lc_deleted ch then Some False else Eval lib (v_pred v) (nil_vals (lc_vals ch)))"

lemma verdict_seen [simp]: "verdict lib (v\<lparr>v_seen := x\<rparr>) ch = verdict lib v ch"
  by (cases "lc_deleted ch") (simp_all add: verdict_def)

lemma stream_step:
  assumes "view_step lib refill v ch = Some (ds, v')" and "v_mode v = ModeStreamed"
  shows "\<exists>b. verdict lib v ch = Some b
    \<and> set (v_stream v') = (if b then insert (lc_aggid ch) (set (v_stream v)) else set (v_stream v) - {lc_aggid ch})"
proof -
  have s: "applyStreamed lib v ch = Some (ds, v')" using assms by (simp add: view_step_def)
  then obtain b where b: "verdict lib v ch = Some b"
    by (cases "verdict lib v ch") (simp_all add: applyStreamed_def verdict_def [symmetric])
  have "set (v_stream v') = (if b then insert (lc_aggid ch) (set (v_stream v)) else set (v_stream v) - {lc_aggid ch})"
    using s b by (cases b; cases "lc_aggid ch \<in> set (v_stream v)")
      (auto simp: applyStreamed_def verdict_def [symmetric] rememberVals_def Let_def)
  then show ?thesis using b by blast
qed

text \<open>The version of the aggregate the view has already seen decides.\<close>

definition fresh_for :: "view \<Rightarrow> LChange \<Rightarrow> bool" where
  "fresh_for v ch = (case mget (v_seen v) (lc_aggid ch) of None \<Rightarrow> True | Some s \<Rightarrow> s < lc_version ch)"

lemma applyReady_fresh:
  assumes "applyReady lib refill took v ch p = Some (v', p')" and "fresh_for v ch"
  obtains ds v2 v3 where
    "view_step lib refill (v\<lparr>v_seen := mput (lc_aggid ch) (lc_version ch) (v_seen v)\<rparr>) ch = Some (ds, v2)"
    "(if v_contains v2 (lc_aggid ch) \<noteq> v_contains v (lc_aggid ch)
      then setMember v2 (lc_aggid ch) (v_contains v2 (lc_aggid ch)) p else (v2, p)) = (v3, p')"
    "v' = fold (\<lambda>d. v_send took (stamp_delta ch d)) ds v3"
proof -
  define v1 where "v1 = v\<lparr>v_seen := mput (lc_aggid ch) (lc_version ch) (v_seen v)\<rparr>"
  have n: "\<not> (case mget (v_seen v) (lc_aggid ch) of None \<Rightarrow> False | Some s \<Rightarrow> lc_version ch \<le> s)"
    using assms(2) by (auto simp: fresh_for_def split: option.splits)
  have c: "v_contains v1 a = v_contains v a" for a by (simp add: v1_def v_contains_def)
  obtain ds v2 where s: "view_step lib refill v1 ch = Some (ds, v2)"
    using assms(1) n by (cases "view_step lib refill v1 ch") (auto simp: applyReady_def v1_def [symmetric] Let_def)
  obtain v3 p3 where e: "(if v_contains v2 (lc_aggid ch) \<noteq> v_contains v (lc_aggid ch)
        then setMember v2 (lc_aggid ch) (v_contains v2 (lc_aggid ch)) p else (v2, p)) = (v3, p3)" by (rule prod.exhaust)
  have "v' = fold (\<lambda>d. v_send took (stamp_delta ch d)) ds v3" "p' = p3"
    using assms(1) n s e by (simp_all add: applyReady_def v1_def [symmetric] c Let_def)
  then show thesis using that s e unfolding v1_def by blast
qed

lemma applyReady_stale:
  "applyReady lib refill took v ch p = Some (v', p') \<Longrightarrow> \<not> fresh_for v ch \<Longrightarrow> v' = v \<and> p' = p"
  by (auto simp: applyReady_def fresh_for_def split: option.splits)

lemma applyReady_stream:
  assumes "applyReady lib refill took v ch p = Some (v', p')" and "fresh_for v ch" and "v_mode v = ModeStreamed"
  shows "\<exists>b. verdict lib v ch = Some b
    \<and> set (v_stream v') = (if b then insert (lc_aggid ch) (set (v_stream v)) else set (v_stream v) - {lc_aggid ch})"
proof -
  from applyReady_fresh [OF assms(1,2)] obtain ds v2 v3 where
    s: "view_step lib refill (v\<lparr>v_seen := mput (lc_aggid ch) (lc_version ch) (v_seen v)\<rparr>) ch = Some (ds, v2)"
    and e: "(if v_contains v2 (lc_aggid ch) \<noteq> v_contains v (lc_aggid ch)
      then setMember v2 (lc_aggid ch) (v_contains v2 (lc_aggid ch)) p else (v2, p)) = (v3, p')"
    and v': "v' = fold (\<lambda>d. v_send took (stamp_delta ch d)) ds v3" by blast
  let ?v1 = "v\<lparr>v_seen := mput (lc_aggid ch) (lc_version ch) (v_seen v)\<rparr>"
  have "v_stream v3 = v_stream v2" using e by (auto simp: setMember_def split: if_splits)
  then have st: "v_stream v' = v_stream v2" by (simp add: v')
  have "v_mode ?v1 = ModeStreamed" using assms(3) by simp
  from stream_step [OF s this] obtain b where b: "verdict lib ?v1 ch = Some b"
      "set (v_stream v2) = (if b then insert (lc_aggid ch) (set (v_stream ?v1)) else set (v_stream ?v1) - {lc_aggid ch})"
    by blast
  have "verdict lib v ch = Some b" using b(1) by simp
  then show ?thesis using b(2) st by (intro exI [of _ b]) (cases b; simp)
qed

text \<open>Applying a change to a ready view.\<close>

lemma applyReady_keeps:
  assumes "linked_at v p" and "settled v" and "v_ready v" and "applyReady lib refill took v ch p = Some (v', p')"
  shows "linked_at v' p' \<and> settled v' \<and> same_view v v' \<and> p_views p' = p_views p"
proof (cases "fresh_for v ch")
  case True
  from applyReady_fresh [OF assms(4) True] obtain ds v2 v3 where
    s: "view_step lib refill (v\<lparr>v_seen := mput (lc_aggid ch) (lc_version ch) (v_seen v)\<rparr>) ch = Some (ds, v2)"
    and e: "(if v_contains v2 (lc_aggid ch) \<noteq> v_contains v (lc_aggid ch)
      then setMember v2 (lc_aggid ch) (v_contains v2 (lc_aggid ch)) p else (v2, p)) = (v3, p')"
    and v': "v' = fold (\<lambda>d. v_send took (stamp_delta ch d)) ds v3" by blast
  let ?v1 = "v\<lparr>v_seen := mput (lc_aggid ch) (lc_version ch) (v_seen v)\<rparr>"
  have "same_view v ?v1" by (simp add: same_view_def same_links_def)
  then have sv: "same_view v v2" using same_view_step [OF s] same_view_trans by blast
  have mem: "v_members v2 = v_members v" using view_step_frame [OF s] by simp
  have l2: "linked_at v2 p" using linked_at_same [OF assms(1) same_view_links [OF sv]] mem by simp
  have "linked_at v3 p' \<and> same_view v2 v3 \<and> p_views p' = p_views p \<and> v_stream v3 = v_stream v2
      \<and> set (v_members v3) = (if v_contains v2 (lc_aggid ch) \<noteq> v_contains v (lc_aggid ch)
          then if v_contains v2 (lc_aggid ch) then insert (lc_aggid ch) (set (v_members v2))
               else set (v_members v2) - {lc_aggid ch}
          else set (v_members v2))"
    using e l2 linked_at_setMember [OF l2] by (auto split: if_splits)
  then have v3: "linked_at v3 p'" "same_view v v3" "p_views p' = p_views p" "v_stream v3 = v_stream v2"
      "set (v_members v3) = (if v_contains v2 (lc_aggid ch) \<noteq> v_contains v (lc_aggid ch)
          then if v_contains v2 (lc_aggid ch) then insert (lc_aggid ch) (set (v_members v))
               else set (v_members v) - {lc_aggid ch}
          else set (v_members v))"
    using sv same_view_trans mem by auto
  have "set (v_members v3) = set (v_stream v3)" if m: "v_mode v = ModeStreamed"
  proof -
    have "set (v_members v) = set (v_stream v)" using m assms(2,3) by (simp add: settled_def)
    moreover have "v_mode v2 = ModeStreamed" using sv m by (simp add: same_view_def)
    moreover have "v_mode ?v1 = ModeStreamed" using m by simp
    from stream_step [OF s this] obtain b where
      "set (v_stream v2) = (if b then insert (lc_aggid ch) (set (v_stream ?v1)) else set (v_stream ?v1) - {lc_aggid ch})"
      by blast
    ultimately show ?thesis using v3(4,5) m by (cases b) (simp_all add: v_contains_def insert_absorb)
  qed
  moreover have sv3: "same_view v3 v'" by (simp add: v')
  have mv: "v_members v' = v_members v3" "v_stream v' = v_stream v3" by (simp_all add: v')
  have sv': "same_view v v'" using same_view_trans [OF v3(2) sv3] .
  ultimately have "settled v'" using mv assms(3) by (simp add: settled_def same_view_def)
  moreover have "linked_at v' p'" using linked_at_same [OF v3(1) same_view_links [OF sv3]] mv by simp
  ultimately show ?thesis using sv' v3(3) by blast
next
  case False
  then show ?thesis using applyReady_stale [OF assms(4)] assms by simp
qed

lemma drain_keeps:
  assumes "linked_at v p" and "settled v" and "v_ready v" and "drain lib refill took chs v p = Some (v', p')"
  shows "linked_at v' p' \<and> settled v' \<and> same_view v v' \<and> p_views p' = p_views p"
  using assms
proof (induction chs arbitrary: v p)
  case (Cons ch chs)
  then obtain v1 p1 where a: "applyReady lib refill took v ch p = Some (v1, p1)"
      and d: "drain lib refill took chs v1 p1 = Some (v', p')"
    by (auto split: option.splits)
  note k = applyReady_keeps [OF Cons.prems(1,2,3) a]
  then have "v_ready v1" using Cons.prems(3) by (simp add: same_view_def)
  then show ?case using Cons.IH [of v1 p1] d k same_view_trans by (metis (no_types, lifting))
qed simp

text \<open>Putting a view back.\<close>

lemma pinvD: "pinv p \<Longrightarrow> mget (p_views p) i = Some v \<Longrightarrow> linked_at v p \<and> settled v \<and> v_id v = i"
  unfolding pinv_def using linked_at_self by blast

lemma pinv_put:
  assumes "linked_at v p" and "settled v" and "\<And>i u. mget (p_views p) i = Some u \<Longrightarrow> settled u"
  shows "pinv (put_view v p)"
  using assms by (auto simp: pinv_def put_view_def linked_put [unfolded put_view_def] split: if_splits)

lemma v_apply_keeps:
  assumes "pinv p" and "mget (p_views p) i = Some v" and "v_apply lib refill took v ch p = Some (v', p')"
  shows "pinv (put_view v' p') \<and> v_id v' = i \<and> p_views p' = p_views p \<and> same_view v v'"
proof -
  have v: "linked_at v p" "settled v" "v_id v = i" using pinvD [OF assms(1,2)] by blast+
  have "linked_at v' p' \<and> settled v' \<and> same_view v v' \<and> p_views p' = p_views p"
  proof (cases "v_ready v")
    case True
    then show ?thesis using applyReady_keeps [OF v(1,2)] assms(3) by (simp add: v_apply_def)
  next
    case False
    then have e: "v' = v\<lparr>v_pending := v_pending v @ [ch]\<rparr>" "p' = p" using assms(3) by (simp_all add: v_apply_def)
    then have sv: "same_view v v'" by (simp add: same_view_def same_links_def)
    then show ?thesis using linked_at_same [OF v(1) same_view_links [OF sv]] v(2) e by (simp add: settled_def)
  qed
  then show ?thesis
    using pinv_put [of v' p'] assms(1) v(3) by (auto simp: pinv_def same_view_def same_links_def)
qed

lemma dispatch_to_keeps:
  "pinv p \<Longrightarrow> dispatch_to lib refill took ids ch p = Some p' \<Longrightarrow> pinv p'"
proof (induction ids arbitrary: p)
  case (Cons i ids)
  show ?case
  proof (cases "mget (p_views p) i")
    case None
    then show ?thesis using Cons by simp
  next
    case (Some v)
    then obtain v' p1 where "v_apply lib refill took v ch p = Some (v', p1)"
        and "dispatch_to lib refill took ids ch (put_view v' p1) = Some p'"
      using Cons.prems(2) by (auto split: option.splits)
    then show ?thesis using Cons.IH v_apply_keeps [OF Cons.prems(1) Some] by blast
  qed
qed simp

lemma fold_setMember:
  assumes "linked_at v p" and "fold (\<lambda>a (v, p). setMember v a True p) as (v, p) = (v', p')"
  shows "linked_at v' p' \<and> same_view v v' \<and> set (v_members v') = set (v_members v) \<union> set as
    \<and> v_stream v' = v_stream v \<and> p_views p' = p_views p"
  using assms
proof (induction as arbitrary: v p)
  case (Cons a as)
  obtain v1 p1 where s: "setMember v a True p = (v1, p1)" by (rule prod.exhaust)
  note k = linked_at_setMember [OF Cons.prems(1) s]
  have "fold (\<lambda>a (v, p). setMember v a True p) as (v1, p1) = (v', p')" using Cons.prems(2) s by simp
  from Cons.IH [OF _ this] k show ?case using same_view_trans by auto
qed simp

lemma activate_keeps:
  assumes "linked_at v p" and "v_members v = []" and "\<And>i u. mget (p_views p) i = Some u \<Longrightarrow> settled u"
    and "activate lib refill took v p = Some p'"
  shows "pinv p'"
proof -
  obtain v1 p1 where s: "seedMembers v p = (v1, p1)" by (rule prod.exhaust)
  note k = fold_setMember [OF assms(1) s [unfolded seedMembers_def]]
  let ?v = "v1\<lparr>v_ready := True, v_pending := []\<rparr>"
  obtain v2 p2 where d: "drain lib refill took (v_pending v1) ?v p1 = Some (v2, p2)" and p': "p' = put_view v2 p2"
    using assms(4) s by (auto simp: activate_def)
  have "same_links v1 ?v" by (simp add: same_links_def)
  then have "linked_at ?v p1" using linked_at_same [of v1 p1 ?v] k by simp
  moreover have "settled ?v" using k assms(2) by (auto simp: settled_def same_view_def)
  ultimately have "linked_at v2 p2 \<and> settled v2 \<and> p_views p2 = p_views p1"
    using drain_keeps [OF _ _ _ d] by simp
  then show ?thesis using pinv_put [of v2 p2] assms(3) k p' by auto
qed

lemma Compile_id: "Compile w = Inr pred \<Longrightarrow> pred = w"
  by (auto simp: Compile_def split: option.splits)

lemma attach_keeps:
  assumes "pinv p" and "attach_view lib q p = Some (Inr (b, p'))"
  shows "pinv p'"
proof (cases "mget (p_views p) (shapeKey lib q)")
  case None
  let ?i = "shapeKey lib q"
  let ?v = "newView ?i q (lq_where q)"
  let ?V = "mget (p_views p)"
  have l: "links ?V (p_memberOf p) (mget (p_subView p)) (p_index p)"
    using assms(1) by (simp add: pinv_def linked_def)
  obtain ix where ix: "ix_Add (p_index p) ?i (lq_where q) = Some ix"
      and p': "p' = (put_view ?v p)\<lparr>p_index := ix\<rparr>"
    using assms(2) None Compile_id by (auto simp: attach_view_def Let_def split: sum.splits)
  have v: "v_members ?v = []" "v_id ?v = ?i" "v_pred ?v = lq_where q" "subs_of ?v = {}" "settled ?v"
    by (simp_all add: newView_def settled_def subs_of_def)
  have "links (?V(?i \<mapsto> ?v)) (p_memberOf p) (mget (p_subView p)) ix"
  proof (rule linksI)
    show "ix_reach ix (map_option v_pred \<circ> ?V(?i \<mapsto> ?v))"
      using ix_reach.add [OF linksD(5) [OF l] _ ix] None v(3) by (simp add: fun_upd_comp)
  qed (use linksD [OF l] None v in \<open>auto split: if_splits\<close>)
  then have "linked p'"
    unfolding linked_def p' put_view_def using v(2) by (simp add: mget_mput_fun del: mget_mput)
  then show ?thesis using v(2,5) assms(1) by (auto simp: pinv_def p' put_view_def split: if_splits)
qed (use assms in \<open>auto simp: attach_view_def Let_def\<close>)

lemma seed_keeps:
  assumes "pinv p" and "mget (p_views p) i = Some v" and "\<not> v_ready v"
  shows "seed_maintained lib refill took cushion seed v p = Some p' \<Longrightarrow> pinv p'"
    and "seed_streamed lib refill took ids page v p = Some p' \<Longrightarrow> pinv p'"
proof -
  have v: "linked_at v p" "v_members v = []" using pinvD [OF assms(1,2)] assms(3) by (auto simp: settled_def)
  have o: "\<And>j u. mget (p_views p) j = Some u \<Longrightarrow> settled u" using assms(1) by (auto simp: pinv_def)
  have s: "linked_at v' p" if "same_links v v'" "v_members v' = []" for v'
    using linked_at_same [OF v(1) that(1)] that(2) v(2) by simp
  show "seed_maintained lib refill took cushion seed v p = Some p' \<Longrightarrow> pinv p'"
    unfolding seed_maintained_def Let_def
    by (erule activate_keeps [OF s _ o, rotated -1]) (simp_all add: same_links_def v(2))
  show "seed_streamed lib refill took ids page v p = Some p' \<Longrightarrow> pinv p'"
    unfolding seed_streamed_def
    by (erule activate_keeps [OF s _ o, rotated -1]) (simp_all add: same_links_def v(2))
qed

lemma links_del:
  assumes l: "links V M S ix" and "no_empty M'" and "\<And>a. members_of M' a = members_of M a - {i}"
    and S': "\<And>s j. (S' s = Some j) = (S s = Some j \<and> j \<noteq> i)"
  shows "links (V(i := None)) M' S' (ix_Remove ix i)"
proof (rule linksI)
  show "ix_reach (ix_Remove ix i) (map_option v_pred \<circ> V(i := None))"
    using ix_reach.remove [OF linksD(5) [OF l]] by (simp add: fun_upd_comp)
qed (use linksD [OF l] assms(2,3) S' in \<open>auto split: if_splits\<close>)

lemma pinv_del:
  assumes "pinv p" and "links ((mget (p_views p))(i := None)) M (mget S) ix"
  shows "pinv (p\<lparr>p_subView := S, p_index := ix, p_memberOf := M, p_views := mdel i (p_views p)\<rparr>)"
proof -
  have "linked (p\<lparr>p_subView := S, p_index := ix, p_memberOf := M, p_views := mdel i (p_views p)\<rparr>)"
    unfolding linked_def using assms(2) by (simp add: mget_mdel_fun del: mget_mdel)
  then show ?thesis using assms(1) by (auto simp: pinv_def split: if_splits)
qed

lemma abandon_keeps:
  assumes "pinv p" and "mget (p_views p) i = Some v" and "\<not> v_ready v"
  shows "pinv (abandon_view i p)"
proof -
  have l: "links (mget (p_views p)) (p_memberOf p) (mget (p_subView p)) (p_index p)"
    using assms(1) by (simp add: pinv_def linked_def)
  have v: "v_members v = []" "v_subs v = []" using pinvD [OF assms(1,2)] assms(3) by (auto simp: settled_def)
  have m: "i \<notin> members_of (p_memberOf p) a" for a using linksD(2) [OF l, of i a] assms(2) v(1) by simp
  have "links ((mget (p_views p))(i := None)) (p_memberOf p) (mget (p_subView p)) (ix_Remove (p_index p) i)"
    by (rule links_del [OF l linksD(3) [OF l]])
       (use m linksD(4) [OF l] assms(2) v(2) in \<open>auto simp: subs_of_def\<close>)
  from pinv_del [OF assms(1) this] have "pinv (p\<lparr>p_index := ix_Remove (p_index p) i, p_views := mdel i (p_views p)\<rparr>)"
    by (cases p) simp
  then show ?thesis using assms(2) v(2) by (simp add: abandon_view_def)
qed

lemma links_subs:
  assumes l: "links V M S ix" and "V i = Some v" and "v_id v' = i" "v_pred v' = v_pred v" "v_members v' = v_members v"
    and "\<And>t. (S' t = Some i) = (t \<in> subs_of v')" and "\<And>t j. j \<noteq> i \<Longrightarrow> (S' t = Some j) = (S t = Some j)"
  shows "links (V(i \<mapsto> v')) M S' ix"
proof (rule linksI)
  have "map_option v_pred \<circ> V(i \<mapsto> v') = map_option v_pred \<circ> V"
    using assms(2,4) by (auto simp: fun_eq_iff)
  then show "ix_reach ix (map_option v_pred \<circ> V(i \<mapsto> v'))" using linksD(5) [OF l] by simp
qed (use linksD [OF l] assms in \<open>auto split: if_splits\<close>)

lemma pinv_resub:
  assumes "pinv p" and "links ((mget (p_views p))(v_id v \<mapsto> v)) (p_memberOf p) (mget S) (p_index p)" and "settled v"
  shows "pinv ((put_view v p)\<lparr>p_subView := S\<rparr>)"
proof -
  have "linked ((put_view v p)\<lparr>p_subView := S\<rparr>)"
    unfolding linked_def put_view_def using assms(2) by (simp add: mget_mput_fun del: mget_mput)
  then show ?thesis using assms(1,3) by (auto simp: pinv_def put_view_def split: if_splits)
qed

lemma subs_of_mput [simp]: "subs_of (v\<lparr>v_subs := mput s c (v_subs v)\<rparr>) = insert s (subs_of v)"
  by (auto simp: subs_of_def dom_def)

lemma subs_of_mdel [simp]: "subs_of (v\<lparr>v_subs := mdel s (v_subs v)\<rparr>) = subs_of v - {s}"
  by (auto simp: subs_of_def dom_def)

lemma pinv_links: "pinv p \<Longrightarrow> links (mget (p_views p)) (p_memberOf p) (mget (p_subView p)) (p_index p)"
  by (simp add: pinv_def linked_def)

lemma join_keeps:
  assumes "pinv p" and "mget (p_subView p) s = None" and "join_view i s out p = Some (rows, p')"
  shows "pinv p'"
proof -
  note l = pinv_links [OF assms(1)]
  obtain v where v: "mget (p_views p) i = Some v" "v_ready v"
      and p': "p' = (put_view (v\<lparr>v_subs := mput s out (v_subs v)\<rparr>) p)\<lparr>p_subView := mput s i (p_subView p)\<rparr>"
    using assms(3) by (auto simp: join_view_def split: option.splits if_splits)
  let ?v = "v\<lparr>v_subs := mput s out (v_subs v)\<rparr>"
  have "settled v" "v_id ?v = i" using pinvD [OF assms(1) v(1)] by auto
  moreover have "settled ?v" using \<open>settled v\<close> v(2) by (simp add: settled_def)
  moreover have "links ((mget (p_views p))(i \<mapsto> ?v)) (p_memberOf p) (mget (mput s i (p_subView p))) (p_index p)"
  proof (rule links_subs [OF l v(1)])
    show "(mget (mput s i (p_subView p)) t = Some i) = (t \<in> subs_of ?v)" for t
      using linksD(4) [OF l, of t i] v(1) by simp
    show "(mget (mput s i (p_subView p)) t = Some j) = (mget (p_subView p) t = Some j)" if "j \<noteq> i" for t j
      using that assms(2) by auto
  qed (use \<open>v_id ?v = i\<close> in simp_all)
  ultimately show ?thesis unfolding p' by (intro pinv_resub [OF assms(1)]) simp_all
qed

lemma detach_keeps:
  assumes "pinv p"
  shows "pinv (detach s p)"
proof (cases "mget (p_subView p) s")
  case (Some i)
  note l = pinv_links [OF assms]
  obtain v where v: "mget (p_views p) i = Some v" "s \<in> subs_of v" using linksD(4) [OF l] Some by blast
  then have sv: "settled v" "v_id v = i" using pinvD [OF assms] by auto
  let ?v = "v\<lparr>v_subs := mdel s (v_subs v)\<rparr>" and ?S = "mdel s (p_subView p)"
  have subs: "(mget ?S t = Some i) = (t \<in> subs_of ?v)" for t
    using linksD(4) [OF l, of t i] v(1) by auto
  have others: "(mget ?S t = Some j) = (mget (p_subView p) t = Some j)" if "j \<noteq> i" for t j
    using that Some by auto
  have ready: "v_ready v" using sv(1) v(2) by (auto simp: settled_def subs_of_def)
  show ?thesis
  proof (cases "v_subs ?v = []")
    case True
    have i: "members_of (fold (drop_member i) (v_members v) (p_memberOf p)) a = members_of (p_memberOf p) a - {i}" for a
      using linksD(2) [OF l, of i a] v(1) by auto
    have "(mget ?S t = Some j) = (mget (p_subView p) t = Some j \<and> j \<noteq> i)" for t j
      using subs [of t] others [of j t] True by (cases "j = i") (auto simp: subs_of_def)
    from pinv_del [OF assms links_del [OF l no_empty_drop_all [OF linksD(3) [OF l]] i this]]
    show ?thesis using Some v(1) True by (simp add: detach_def Let_def)
  next
    case False
    have "links ((mget (p_views p))(i \<mapsto> ?v)) (p_memberOf p) (mget ?S) (p_index p)"
      by (rule links_subs [OF l v(1)]) (use sv(2) subs others in simp_all)
    moreover have "settled ?v" using sv(1) ready by (simp add: settled_def)
    ultimately have "pinv ((put_view ?v p)\<lparr>p_subView := ?S\<rparr>)" using pinv_resub [OF assms, of ?v ?S] sv(2) by simp
    moreover have "(put_view ?v p)\<lparr>p_subView := ?S\<rparr> = put_view ?v (p\<lparr>p_subView := ?S\<rparr>)"
      by (cases p) (simp add: put_view_def)
    ultimately show ?thesis using Some v(1) False by (simp add: detach_def Let_def)
  qed
qed (use assms in \<open>simp add: detach_def\<close>)

lemma repair_keeps:
  assumes "pinv p" and "repair_view took cushion i q seed p = (b, p')"
  shows "pinv p'"
proof (cases "\<exists>v w. mget (p_views p) i = Some v \<and> v_win v = Some w \<and> windowDrift w seed (lq_limit q)")
  case True
  then obtain v w where v: "mget (p_views p) i = Some v" "v_win v = Some w" "windowDrift w seed (lq_limit q)" by blast
  have sv: "linked_at v p" "settled v" "v_id v = i" using pinvD [OF assms(1) v(1)] by auto
  define p1 where "p1 = p\<lparr>p_memberOf := fold (drop_member i) (v_members v) (p_memberOf p)\<rparr>"
  define v1 where "v1 = v\<lparr>v_members := [], v_win := Some (NewWindow q (v_pred v) seed
      (int (length seed) < lq_limit q + cushion) cushion), v_seen := note_seen seed []\<rparr>"
  obtain v2 p2 where s: "seedMembers v1 p1 = (v2, p2)" by (rule prod.exhaust)
  have p': "p' = put_view (v_send took (reset_delta (0, 0)) v2) p2"
    using assms(2) v s by (simp add: repair_view_def Let_def p1_def [symmetric] v1_def [symmetric])
  have sl: "same_links v v1" by (simp add: v1_def same_links_def)
  have "linked_at v1 p1"
  proof -
    have "links ((mget (p_views p))(v_id v \<mapsto> v1)) (p_memberOf p1) (mget (p_subView p)) (p_index p)"
    proof (rule links_upd [OF sv(1) [unfolded linked_at_def] sl])
      show "no_empty (p_memberOf p1)" using linksD(3) [OF sv(1) [unfolded linked_at_def]] by (simp add: p1_def)
      show "(j \<in> members_of (p_memberOf p1) a)
          = (\<exists>u. ((mget (p_views p))(v_id v \<mapsto> v1)) j = Some u \<and> a \<in> set (v_members u))" for j a
        using linksD(2) [OF sv(1) [unfolded linked_at_def], of j a] sv(3) by (auto simp: p1_def v1_def)
    qed
    then show ?thesis by (simp add: linked_at_def p1_def v1_def)
  qed
  note k = fold_setMember [OF this s [unfolded seedMembers_def]]
  let ?v = "v_send took (reset_delta (0, 0)) v2"
  have sv2: "same_view v2 ?v" using same_view_send [of v2 took "\<lambda>d. d" "[reset_delta (0, 0)]"] by simp
  have "linked_at ?v p2" using linked_at_same [OF _ same_view_links [OF sv2]] k by simp
  moreover have "v_ready v2" using sv(2) v(2) k by (auto simp: settled_def same_view_def v1_def)
  then have "settled ?v"
    using k sv2 by (simp add: settled_def same_view_def) (simp add: v_send_def v1_def)
  moreover have "\<And>j u. mget (p_views p2) j = Some u \<Longrightarrow> settled u"
    using assms(1) k by (simp add: pinv_def p1_def)
  ultimately show ?thesis unfolding p' by (rule pinv_put)
next
  case False
  then have "p' = p" using assms(2) by (auto simp: repair_view_def split: option.splits if_splits)
  then show ?thesis using assms(1) by simp
qed

section \<open>Reachable partitions\<close>

text \<open>
  One rule per closure.  The snapshot rows, the refiller and which slow subscribers
  received in between are arbitrary at every step; a subscriber joins under an identifier
  that is attached nowhere, a view is seeded or abandoned by its creator before it is ready.
\<close>

inductive p_reach :: "partition \<Rightarrow> bool" where
  start: "p_reach newPartition"
| attach: "p_reach p \<Longrightarrow> attach_view lib q p = Some (Inr (b, p')) \<Longrightarrow> p_reach p'"
| seed: "p_reach p \<Longrightarrow> mget (p_views p) i = Some v \<Longrightarrow> \<not> v_ready v
    \<Longrightarrow> seed_maintained lib refill took cushion rows v p = Some p' \<Longrightarrow> p_reach p'"
| seed_stream: "p_reach p \<Longrightarrow> mget (p_views p) i = Some v \<Longrightarrow> \<not> v_ready v
    \<Longrightarrow> seed_streamed lib refill took ids rows v p = Some p' \<Longrightarrow> p_reach p'"
| abandon: "p_reach p \<Longrightarrow> mget (p_views p) i = Some v \<Longrightarrow> \<not> v_ready v \<Longrightarrow> p_reach (abandon_view i p)"
| join: "p_reach p \<Longrightarrow> mget (p_subView p) s = None \<Longrightarrow> join_view i s out p = Some (rows, p') \<Longrightarrow> p_reach p'"
| change: "p_reach p \<Longrightarrow> dispatch lib refill took ch p = Some p' \<Longrightarrow> p_reach p'"
| leave: "p_reach p \<Longrightarrow> p_reach (detach s p)"
| repair: "p_reach p \<Longrightarrow> repair_view took cushion i q rows p = (b, p') \<Longrightarrow> p_reach p'"

lemma pinv_new: "pinv newPartition"
proof -
  have "map_option v_pred \<circ> (\<lambda>i. None) = (\<lambda>i. None)" by auto
  then have "links (\<lambda>i. None) [] (\<lambda>i. None) newPredicateIndex"
    using ix_reach.new by (intro linksI) (simp_all add: members_of_def mget_or_def no_empty_def)
  then show ?thesis by (simp add: pinv_def linked_def newPartition_def)
qed

lemma p_reach_pinv: "p_reach p \<Longrightarrow> pinv p"
  by (induction rule: p_reach.induct)
     (auto intro: pinv_new attach_keeps seed_keeps abandon_keeps join_keeps detach_keeps repair_keeps
        dispatch_to_keeps simp: dispatch_def split: option.splits)


section \<open>Dispatching a change\<close>

lemma put_view_get [simp]: "mget (p_views (put_view v p)) i = (if i = v_id v then Some v else mget (p_views p) i)"
  by (simp add: put_view_def)

lemma dispatch_to_skip:
  assumes "pinv p" and "dispatch_to lib refill took ids ch p = Some p'" and "i \<notin> set ids"
  shows "mget (p_views p') i = mget (p_views p) i"
  using assms
proof (induction ids arbitrary: p)
  case (Cons j ids)
  show ?case
  proof (cases "mget (p_views p) j")
    case None
    then show ?thesis using Cons by simp
  next
    case (Some v)
    then obtain v' p1 where a: "v_apply lib refill took v ch p = Some (v', p1)"
        and d: "dispatch_to lib refill took ids ch (put_view v' p1) = Some p'"
      using Cons.prems(2) by (auto split: option.splits)
    have "mget (p_views p') i = mget (p_views (put_view v' p1)) i"
      using Cons.IH [OF conjunct1 [OF v_apply_keeps [OF Cons.prems(1) Some a]] d] Cons.prems(3) by simp
    then show ?thesis using v_apply_keeps [OF Cons.prems(1) Some a] Cons.prems(3) by simp
  qed
qed simp

lemma dispatch_to_hit:
  assumes "pinv p" and "dispatch_to lib refill took ids ch p = Some p'" and "distinct ids" and "i \<in> set ids"
    and "mget (p_views p) i = Some v"
  shows "\<exists>p1 v' p2. v_apply lib refill took v ch p1 = Some (v', p2) \<and> mget (p_views p') i = Some v'"
  using assms
proof (induction ids arbitrary: p)
  case (Cons j ids)
  show ?case
  proof (cases "mget (p_views p) j")
    case None
    then have "i \<noteq> j" using Cons.prems(5) by auto
    then show ?thesis using Cons None by auto
  next
    case (Some u)
    then obtain u' p1 where a: "v_apply lib refill took u ch p = Some (u', p1)"
        and d: "dispatch_to lib refill took ids ch (put_view u' p1) = Some p'"
      using Cons.prems(2) by (auto split: option.splits)
    note k = v_apply_keeps [OF Cons.prems(1) Some a]
    show ?thesis
    proof (cases "i = j")
      case True
      then have "mget (p_views p') i = Some u'"
        using dispatch_to_skip [OF conjunct1 [OF k] d, of i] Cons.prems(3) k by simp
      then show ?thesis using a True Some Cons.prems(5) by auto
    next
      case False
      then have "mget (p_views (put_view u' p1)) i = Some v" using k Cons.prems(5) by simp
      then show ?thesis using Cons.IH [OF conjunct1 [OF k] d] Cons.prems(3,4) False by simp
    qed
  qed
qed simp

lemma members_hit:
  "pinv p \<Longrightarrow> mget (p_views p) i = Some v \<Longrightarrow> (i \<in> set (mget_or [] (p_memberOf p) a)) = (a \<in> set (v_members v))"
  using linksD(2) [OF pinv_links, of p i a] by (simp add: members_of_def)

lemma pinv_candidate:
  assumes "pinv p" and "mget (p_views p) i = Some v" and "Candidates (p_index p) (lc_vals ch) = Some cands"
    and "Eval lib (v_pred v) (nil_vals (lc_vals ch)) = Some True"
    and "\<forall>(col, x) \<in> set (nil_vals (lc_vals ch)). hashable x \<and> (\<forall>t l. x \<noteq> VTime t l)"
  shows "i \<in> set cands"
proof -
  have r: "ix_reach (p_index p) (map_option v_pred \<circ> mget (p_views p))"
    using linksD(5) [OF pinv_links [OF assms(1)]] .
  have S: "(map_option v_pred \<circ> mget (p_views p)) i = Some (v_pred v)" using assms(2) by simp
  show ?thesis
  proof (cases "lc_vals ch")
    case None
    then have "equalityColumns (v_pred v) = []" using assms(4) Eval_nil_residual by (simp add: nil_vals_def)
    then have "i \<in> set (ix_residual (p_index p))" using ix_reach_indexed [OF r] S by (auto simp: indexed_def)
    then show ?thesis using assms(3) None by (auto simp: Candidates_def)
  next
    case (Some row)
    then show ?thesis using Candidates_sound_aux [OF r S, of lib row] assms(3,4,5) by (simp add: nil_vals_def)
  qed
qed

text \<open>
  C27. A streamed view follows its filter exactly: whatever happened before, after a change
  newer than what the view has seen of the aggregate is dispatched, the view holds the
  aggregate exactly when the change is not a deletion and satisfies the filter, and holds
  every other aggregate as before.
\<close>

theorem streamed_dispatch_exact:
  assumes "p_reach p" and "dispatch lib refill took ch p = Some p'"
    and "mget (p_views p) i = Some v" and "v_ready v" and "v_mode v = ModeStreamed" and "fresh_for v ch"
    and "Eval lib (v_pred v) (nil_vals (lc_vals ch)) = Some b"
    and "\<forall>(col, x) \<in> set (nil_vals (lc_vals ch)). hashable x \<and> (\<forall>t l. x \<noteq> VTime t l)"
  shows "\<exists>v'. mget (p_views p') i = Some v'
    \<and> set (v_stream v') = (if b \<and> \<not> lc_deleted ch then insert (lc_aggid ch) (set (v_stream v))
                            else set (v_stream v) - {lc_aggid ch})"
proof -
  have inv: "pinv p" using p_reach_pinv [OF assms(1)] .
  obtain cands where c: "Candidates (p_index p) (lc_vals ch) = Some cands"
      and d: "dispatch_to lib refill took (remdups (cands @ mget_or [] (p_memberOf p) (lc_aggid ch))) ch p = Some p'"
    using assms(2) by (auto simp: dispatch_def split: option.splits)
  show ?thesis
  proof (cases "i \<in> set cands \<or> lc_aggid ch \<in> set (v_members v)")
    case True
    then have "i \<in> set (remdups (cands @ mget_or [] (p_memberOf p) (lc_aggid ch)))"
      using members_hit [OF inv assms(3)] by auto
    from dispatch_to_hit [OF inv d _ this assms(3)] obtain p1 v' p2
      where a: "applyReady lib refill took v ch p1 = Some (v', p2)" and v': "mget (p_views p') i = Some v'"
      using assms(4) by (auto simp: v_apply_def)
    from applyReady_stream [OF a assms(6,5)] v' assms(7) show ?thesis by (auto simp: verdict_def split: if_splits)
  next
    case False
    then have "lc_aggid ch \<notin> set (v_stream v)"
      using pinvD [OF inv assms(3)] assms(4,5) by (simp add: settled_def)
    moreover have "\<not> b" using pinv_candidate [OF inv assms(3) c _ assms(8)] assms(7) False by (cases b) auto
    moreover have "mget (p_views p') i = Some v"
      using dispatch_to_skip [OF inv d, of i] assms(3) False members_hit [OF inv assms(3)] by auto
    ultimately show ?thesis by simp
  qed
qed

definition stream_query :: LiveQuery where
  "stream_query = ranked_query\<lparr>lq_mode := ModeStreamed, lq_fielddeltas := False\<rparr>"

definition stream_view :: view where
  "stream_view = (newView (shapeKey demo_lib stream_query) stream_query [])
     \<lparr>v_stream := [''a''], v_members := [''a''], v_ready := True\<rparr>"

definition stream_partition :: partition where
  "stream_partition = \<lparr>p_index = \<lparr>ix_by = [], ix_want = [], ix_residual = [shapeKey demo_lib stream_query]\<rparr>,
     p_views = [(shapeKey demo_lib stream_query, stream_view)],
     p_memberOf = [(''a'', [shapeKey demo_lib stream_query])], p_subView = []\<rparr>"

lemma stream_partition_reach: "p_reach stream_partition"
proof -
  let ?k = "shapeKey demo_lib stream_query"
  let ?v = "newView ?k stream_query []"
  define p where "p = newPartition\<lparr>p_index := \<lparr>ix_by = [], ix_want = [], ix_residual = [?k]\<rparr>, p_views := [(?k, ?v)]\<rparr>"
  have "attach_view demo_lib stream_query newPartition = Some (Inr (True, p))"
    by (simp add: attach_view_def newPartition_def stream_query_def ranked_query_def Compile_def ix_Add_def
        equalityColumns_def newPredicateIndex_def Let_def p_def put_view_def newView_def)
  then have "p_reach p" by (rule p_reach.attach [OF p_reach.start])
  moreover have "seed_streamed demo_lib no_more (\<lambda>d i. True) [''a''] [] ?v p = Some stream_partition"
    by (simp add: seed_streamed_def activate_def seedMembers_def setMember_def put_view_def p_def newPartition_def
        newView_def note_seen_def mget_or_def stream_partition_def stream_view_def stream_query_def ranked_query_def)
  moreover have "mget (p_views p) ?k = Some ?v" "\<not> v_ready ?v" by (simp_all add: p_def newView_def)
  ultimately show ?thesis using p_reach.seed_stream by blast
qed


theorem streamed_dispatch_exact_witness:
  "\<exists>p' v'. dispatch demo_lib no_more (\<lambda>d i. True) (ranked_change ''b'' 1 2) stream_partition = Some p'
     \<and> mget (p_views p') (shapeKey demo_lib stream_query) = Some v' \<and> set (v_stream v') = {''a'', ''b''}"
proof -
  obtain p' where d: "dispatch demo_lib no_more (\<lambda>d i. True) (ranked_change ''b'' 1 2) stream_partition = Some p'"
    by (simp add: dispatch_def stream_partition_def stream_view_def newView_def Candidates_def mget_or_def
        ranked_change_def v_apply_def applyReady_def view_step_def applyStreamed_def Eval_def Let_def
        stream_query_def ranked_query_def v_contains_def rememberVals_def setMember_def)
  have "\<exists>v'. mget (p_views p') (shapeKey demo_lib stream_query) = Some v'
      \<and> set (v_stream v') = (if True \<and> \<not> lc_deleted (ranked_change ''b'' 1 2)
            then insert (lc_aggid (ranked_change ''b'' 1 2)) (set (v_stream stream_view))
            else set (v_stream stream_view) - {lc_aggid (ranked_change ''b'' 1 2)})"
    by (rule streamed_dispatch_exact [OF stream_partition_reach d])
       (simp_all add: stream_partition_def stream_view_def newView_def stream_query_def fresh_for_def Eval_def
          ranked_change_def ranked_vals_def nil_vals_def)
  then show ?thesis using d by (auto simp: stream_view_def ranked_change_def)
qed

section \<open>Changes the dispatcher loses\<close>

lemma residual_no_equality:
  "ix_reach ix S \<Longrightarrow> i \<in> set (ix_residual ix) \<Longrightarrow> \<exists>w. S i = Some w \<and> equalityColumns w = []"
proof (induction arbitrary: i rule: ix_reach.induct)
  case new
  then show ?case by (simp add: newPredicateIndex_def)
next
  case (add ix S j w ix')
  then show ?case by (fastforce simp: ix_Add_def Let_def split: if_splits option.splits)
next
  case (remove ix S j)
  then show ?case by (auto simp: ix_Remove_def)
qed

text \<open>
  A deletion that is dispatched while a view with an equality filter takes its first
  snapshot is not buffered for it: the view is neither a candidate, since a deletion
  carries no columns, nor a member, since members are registered with the snapshot.  A
  snapshot that still holds the row therefore shows it from then on.
\<close>

theorem delete_during_snapshot_lost:
  assumes "p_reach p" and "mget (p_views p) i = Some v" and "\<not> v_ready v" and "equalityColumns (v_pred v) \<noteq> []"
    and "lc_vals ch = None" and "dispatch lib refill took ch p = Some p'"
  shows "mget (p_views p') i = Some v"
proof -
  have inv: "pinv p" using p_reach_pinv [OF assms(1)] .
  have "i \<notin> set (ix_residual (p_index p))"
    using residual_no_equality [OF linksD(5) [OF pinv_links [OF inv]], of i] assms(2,4) by auto
  moreover have "i \<notin> set (mget_or [] (p_memberOf p) (lc_aggid ch))"
    using members_hit [OF inv assms(2)] pinvD [OF inv assms(2)] assms(3) by (simp add: settled_def)
  moreover have "dispatch_to lib refill took (remdups (ix_residual (p_index p) @ mget_or [] (p_memberOf p) (lc_aggid ch))) ch p
      = Some p'"
    using assms(5,6) by (simp add: dispatch_def Candidates_def)
  ultimately show ?thesis using dispatch_to_skip [OF inv, of lib refill took _ ch p' i] assms(2) by simp
qed

definition pump_query :: LiveQuery where
  "pump_query = tail_query\<lparr>lq_where := [Eq ''kind'' (VStr ''pump'')]\<rparr>"

definition pump_view :: view where
  "pump_view = newView (shapeKey demo_lib pump_query) pump_query [Eq ''kind'' (VStr ''pump'')]"

definition pump_partition :: partition where
  "pump_partition = \<lparr>p_index = \<lparr>ix_by = [(''kind'', [(VStr ''pump'', [v_id pump_view])])],
     ix_want = [(v_id pump_view, 1)], ix_residual = []\<rparr>,
     p_views = [(v_id pump_view, pump_view)], p_memberOf = [], p_subView = []\<rparr>"

lemma pump_partition_reach: "p_reach pump_partition"
proof -
  have "attach_view demo_lib pump_query newPartition = Some (Inr (True, pump_partition))"
    by (simp add: attach_view_def newPartition_def pump_query_def tail_query_def ranked_query_def Compile_def
        IsSet_def fail_if_def ix_Add_def equalityColumns_def eq_column_def Eq_def IsGroup_def col_append_def normVal_def mget_or_def
        newPredicateIndex_def Let_def pump_partition_def put_view_def pump_view_def newView_def)
  then show ?thesis by (rule p_reach.attach [OF p_reach.start])
qed

theorem delete_during_snapshot_lost_witness:
  "\<exists>p'. dispatch demo_lib no_more (\<lambda>d i. True) (gone ''a'') pump_partition = Some p'
     \<and> mget (p_views p') (v_id pump_view) = Some pump_view"
proof -
  obtain p' where d: "dispatch demo_lib no_more (\<lambda>d i. True) (gone ''a'') pump_partition = Some p'"
    by (simp add: dispatch_def pump_partition_def Candidates_def gone_def mget_or_def)
  have "mget (p_views p') (v_id pump_view) = Some pump_view"
    by (rule delete_during_snapshot_lost [OF pump_partition_reach _ _ _ _ d])
       (simp_all add: pump_partition_def pump_view_def newView_def gone_def equalityColumns_def eq_column_def
          Eq_def IsGroup_def col_append_def)
  then show ?thesis using d by blast
qed

definition after_deletes :: "partition option" where
  "after_deletes =
     (case seed_maintained demo_lib no_more (\<lambda>d i. True) 2
             [ranked_row ''a'' 1 1, ranked_row ''b'' 1 2, ranked_row ''c'' 1 3] pump_view pump_partition of
        None \<Rightarrow> None
      | Some p \<Rightarrow>
          fold (\<lambda>ch st. case st of None \<Rightarrow> None
                 | Some p \<Rightarrow> dispatch demo_lib (tail_refill [ranked_row ''c'' 1 3, ranked_row ''d'' 1 4])
                               (\<lambda>d i. True) ch p)
            [gone ''a'', gone ''b'', gone ''c'', gone ''d''] (Some p))"

text \<open>
  A row that the refill brought into a window is not registered for routing: below,
  the rows a, b and c of the snapshot are deleted one after the other, the refill serves
  d, and when d is deleted as well the view goes on showing it.
\<close>

theorem refilled_row_unrouted:
  "\<exists>p v. after_deletes = Some p \<and> mget (p_views p) (v_id pump_view) = Some v
     \<and> v_snapshot v = [ranked_row ''d'' 1 4]"
  by (simp add: after_deletes_def seed_maintained_def activate_def seedMembers_def setMember_def put_view_def
      pump_partition_def pump_view_def newView_def note_seen_def mget_or_def pump_query_def tail_query_def
      dispatch_def Candidates_def gone_def v_apply_def applyReady_def view_step_def v_contains_def Contains_def
      tail_refill_def ranked_defs window_eval Visible_def drop_member_def v_send_def v_snapshot_def)

end
