(* ===== verification/Subscribe.thy ===== *)
theory Subscribe
  imports QueryFilter "HOL-Library.Product_Lexorder"
begin

text \<open>
  The subscription plane (\<^verbatim>\<open>core/subscribe\<close>): channel resolution behind the
  authorization gate, the channels an event is published to, the per-channel conflation
  buffer, the hub that fans deltas out, and the SSE frames.  A subscriber's channel is its
  capacity and the deltas not yet received.  The hub holds one mutex for every operation,
  so an execution is a sequence of operations; the flush timer is the operation
  \<open>hub_flush\<close> at any later point, and the transport pump is a sequence of \<open>Publish\<close>.
\<close>

section \<open>Channels\<close>

text \<open>The first declared scope of that name decides.\<close>

definition ResolveChannel :: "gctx \<Rightarrow> Registry \<Rightarrow> SubscribeScope \<Rightarrow> gerr + string" where
  "ResolveChannel ctx reg req =
     (case Require ctx of
        Inl e \<Rightarrow> Inl e
      | Inr tenantID \<Rightarrow>
          (case Get reg (sb_entity req) of
             None \<Rightarrow> Inl (Errorf ''unknown entity'')
           | Some ent \<Rightarrow>
               (case find (\<lambda>s. sc_name s = sb_scope req) (es_subscribe (e_spec ent)) of
                  None \<Rightarrow> Inl (Errorf ''entity does not declare subscription scope'')
                | Some s \<Rightarrow>
                    if s = ByTenant then Inr (ChannelName tenantID s tenantID)
                    else if sb_id req = [] then Inl (Errorf ''scope requires an id'')
                    else Inr (ChannelName tenantID s (sb_id req)))))"

text \<open>Unmarshalling the payload into a map: an empty payload and null leave it nil.\<close>

definition payload_map :: "rawmsg \<Rightarrow> gerr + vals" where
  "payload_map raw =
     (case raw of
        RawEmpty \<Rightarrow> Inr []
      | RawJson (JObj kvs) \<Rightarrow> Inr (go_map_of (map (\<lambda>(k, v). (k, json_any v)) kvs))
      | RawJson JNull \<Rightarrow> Inr []
      | _ \<Rightarrow> Inl (WrapErr ''event payload not an object'' (Errorf ''json: cannot unmarshal'')))"

definition scope_channel :: "Envelope \<Rightarrow> vals \<Rightarrow> Scope \<Rightarrow> string list" where
  "scope_channel env payload s =
     (if s = ByID then [ChannelName (ev_tenant env) s (ev_aggid env)]
      else if s = ByTenant then [ChannelName (ev_tenant env) s (ev_tenant env)]
      else (case mget payload (sc_field s) of
              Some (VStr i) \<Rightarrow> if i \<noteq> [] then [ChannelName (ev_tenant env) s i] else []
            | _ \<Rightarrow> []))"

definition ChannelsForEnvelope :: "Registry \<Rightarrow> Envelope \<Rightarrow> gerr + string list" where
  "ChannelsForEnvelope reg env =
     (case Get reg (ev_aggregate env) of
        None \<Rightarrow> Inr []
      | Some ent \<Rightarrow>
          (case payload_map (ev_payload env) of
             Inl e \<Rightarrow> Inl e
           | Inr payload \<Rightarrow> Inr (concat (map (scope_channel env payload) (es_subscribe (e_spec ent))))))"

type_synonym AuthzFunc = "gctx \<Rightarrow> SubscribeScope \<Rightarrow> gerr option"

definition AllowAll :: AuthzFunc where
  "AllowAll ctx req = None"

record Gate =
  g_reg :: Registry
  g_authz :: AuthzFunc

definition NewGate :: "Registry \<Rightarrow> AuthzFunc option \<Rightarrow> Gate" where
  "NewGate reg authz = \<lparr>g_reg = reg, g_authz = (case authz of None \<Rightarrow> AllowAll | Some f \<Rightarrow> f)\<rparr>"

definition Gate_Resolve :: "Gate \<Rightarrow> gctx \<Rightarrow> SubscribeScope \<Rightarrow> gerr + string" where
  "Gate_Resolve g ctx req =
     (case g_authz g ctx req of Some e \<Rightarrow> Inl e | None \<Rightarrow> ResolveChannel ctx (g_reg g) req)"

section \<open>Conflation\<close>

type_synonym conflator = "Delta gomap"

definition conf_key :: "Delta \<Rightarrow> string" where
  "conf_key d = dl_aggregate d @ ''/'' @ dl_aggid d"

text \<open>Buffers the delta; also whether the flush timer needs arming.\<close>

definition offer :: "Delta \<Rightarrow> conflator \<Rightarrow> bool \<times> conflator" where
  "offer d c =
     (c = [],
      case mget c (conf_key d) of
        None \<Rightarrow> mput (conf_key d) d c
      | Some prev \<Rightarrow> if dl_version d \<ge> dl_version prev then mput (conf_key d) d c else c)"

text \<open>
  The survivors by stream position and version.  Deltas that agree in both come in the
  order the map is visited, which is the order of the list.
\<close>

definition conf_drain :: "conflator \<Rightarrow> Delta list \<times> conflator" where
  "conf_drain c = (sort_key (\<lambda>d. (dl_stream d, dl_version d)) (map snd c), [])"

section \<open>The hub\<close>

type_synonym dchan = "nat \<times> Delta list"

record channelState =
  cs_subs :: "(nat \<times> dchan) list"
  cs_next :: nat
  cs_conf :: conflator
  cs_pump :: bool
  cs_raw :: bool

record Hub =
  h_channels :: "channelState gomap"
  h_tailer :: bool
  h_closed :: bool

definition NewHub :: "bool \<Rightarrow> Hub" where
  "NewHub tailer = \<lparr>h_channels = [], h_tailer = tailer, h_closed = False\<rparr>"

text \<open>The subscriber's identifier stands for its channel and its cancel function.\<close>

definition hub_subscribe :: "string \<Rightarrow> int \<Rightarrow> bool \<Rightarrow> Hub \<Rightarrow> gerr + nat \<times> Hub" where
  "hub_subscribe channel buffer raw h =
     (if h_closed h then Inl (Errorf ''hub is closed'')
      else
        (let cap = nat (if buffer \<le> 0 then 64 else buffer)
         in case mget (h_channels h) channel of
              Some cs \<Rightarrow>
                if cs_raw cs \<noteq> raw then Inl (Errorf ''one delivery mode per channel'')
                else Inr (cs_next cs, h\<lparr>h_channels := mput channel
                       (cs\<lparr>cs_next := cs_next cs + 1, cs_subs := mput (cs_next cs) (cap, []) (cs_subs cs)\<rparr>)
                       (h_channels h)\<rparr>)
            | None \<Rightarrow>
                Inr (0, h\<lparr>h_channels := mput channel
                       \<lparr>cs_subs = [(0, (cap, []))], cs_next = 1, cs_conf = [], cs_pump = h_tailer h, cs_raw = raw\<rparr>
                       (h_channels h)\<rparr>)))"

definition hub_cancel :: "string \<Rightarrow> nat \<Rightarrow> Hub \<Rightarrow> Hub" where
  "hub_cancel channel i h =
     (case mget (h_channels h) channel of
        None \<Rightarrow> h
      | Some cs \<Rightarrow>
          (let cs1 = cs\<lparr>cs_subs := mdel i (cs_subs cs)\<rparr>
           in if cs_subs cs1 = []
              then (if cs_conf cs1 = [] then h\<lparr>h_channels := mdel channel (h_channels h)\<rparr>
                    else h\<lparr>h_channels := mput channel (cs1\<lparr>cs_pump := False\<rparr>) (h_channels h)\<rparr>)
              else h\<lparr>h_channels := mput channel cs1 (h_channels h)\<rparr>))"

text \<open>One delta to every subscriber: a full conflated one misses it, a full raw one is closed.\<close>

definition deliver_one :: "bool \<Rightarrow> Delta \<Rightarrow> (nat \<times> dchan) list \<Rightarrow> (nat \<times> dchan) list" where
  "deliver_one raw d subs =
     concat (map (\<lambda>(i, cap, buf).
       if length buf < cap then [(i, cap, buf @ [d])] else if raw then [] else [(i, cap, buf)]) subs)"

definition deliverLocked :: "Delta list \<Rightarrow> channelState \<Rightarrow> channelState" where
  "deliverLocked ds cs = cs\<lparr>cs_subs := fold (deliver_one (cs_raw cs)) ds (cs_subs cs)\<rparr>"

definition Publish :: "string \<Rightarrow> Delta \<Rightarrow> Hub \<Rightarrow> Hub" where
  "Publish channel d h =
     (if h_closed h then h
      else (case mget (h_channels h) channel of
              None \<Rightarrow> h
            | Some cs \<Rightarrow>
                h\<lparr>h_channels := mput channel
                   (if cs_raw cs then deliverLocked [d] cs else cs\<lparr>cs_conf := snd (offer d (cs_conf cs))\<rparr>)
                   (h_channels h)\<rparr>))"

definition PublishRaw :: "string \<Rightarrow> Delta \<Rightarrow> Hub \<Rightarrow> Hub" where
  "PublishRaw channel d h =
     (if h_closed h then h
      else (case mget (h_channels h) channel of
              None \<Rightarrow> h
            | Some cs \<Rightarrow> h\<lparr>h_channels := mput channel (deliverLocked [d] cs) (h_channels h)\<rparr>))"

definition hub_flush :: "string \<Rightarrow> Hub \<Rightarrow> Hub" where
  "hub_flush channel h =
     (case mget (h_channels h) channel of
        None \<Rightarrow> h
      | Some cs \<Rightarrow>
          (case conf_drain (cs_conf cs) of (ds, c) \<Rightarrow>
             (let cs1 = deliverLocked ds (cs\<lparr>cs_conf := c\<rparr>)
              in if cs_subs cs1 = [] \<and> cs_conf cs1 = [] then h\<lparr>h_channels := mdel channel (h_channels h)\<rparr>
                 else h\<lparr>h_channels := mput channel cs1 (h_channels h)\<rparr>)))"

definition Hub_Flush :: "Hub \<Rightarrow> Hub" where
  "Hub_Flush h = fold hub_flush (map fst (h_channels h)) h"

definition ConflationDepth :: "Hub \<Rightarrow> nat" where
  "ConflationDepth h = sum_list (map (\<lambda>(name, cs). length (cs_conf cs)) (h_channels h))"

definition Hub_Close :: "Hub \<Rightarrow> Hub" where
  "Hub_Close h = (if h_closed h then h else h\<lparr>h_closed := True, h_channels := []\<rparr>)"

text \<open>A subscriber takes the next delta of its channel.\<close>

definition hub_receive :: "string \<Rightarrow> nat \<Rightarrow> Hub \<Rightarrow> (Delta \<times> Hub) option" where
  "hub_receive channel i h =
     (case mget (h_channels h) channel of
        None \<Rightarrow> None
      | Some cs \<Rightarrow>
          (case mget (cs_subs cs) i of
             Some (cap, d # buf) \<Rightarrow>
               Some (d, h\<lparr>h_channels := mput channel (cs\<lparr>cs_subs := mput i (cap, buf) (cs_subs cs)\<rparr>) (h_channels h)\<rparr>)
           | _ \<Rightarrow> None))"

text \<open>Executions of the hub.\<close>

datatype hub_op =
    DoSubscribe string int bool
  | DoCancel string nat
  | DoPublish string Delta
  | DoPublishRaw string Delta
  | DoFlush string
  | DoFlushAll
  | DoClose
  | DoReceive string nat

fun hub_step :: "hub_op \<Rightarrow> Hub \<Rightarrow> Hub" where
  "hub_step (DoSubscribe c buffer raw) h =
     (case hub_subscribe c buffer raw h of Inl e \<Rightarrow> h | Inr (i, h') \<Rightarrow> h')"
| "hub_step (DoCancel c i) h = hub_cancel c i h"
| "hub_step (DoPublish c d) h = Publish c d h"
| "hub_step (DoPublishRaw c d) h = PublishRaw c d h"
| "hub_step (DoFlush c) h = hub_flush c h"
| "hub_step DoFlushAll h = Hub_Flush h"
| "hub_step DoClose h = Hub_Close h"
| "hub_step (DoReceive c i) h = (case hub_receive c i h of None \<Rightarrow> h | Some (d, h') \<Rightarrow> h')"

section \<open>Server-sent events\<close>

definition delta_json :: "golib \<Rightarrow> Delta \<Rightarrow> json option" where
  "delta_json lib d =
     map_option
       (\<lambda>pl. JObj [(''stream_id'', JStr (dl_stream d)), (''channel'', JStr (dl_channel d)),
          (''tenant_id'', JStr (dl_tenant d)), (''aggregate'', JStr (dl_aggregate d)),
          (''agg_id'', JStr (dl_aggid d)), (''version'', JInt (dl_version d)), (''type'', JStr (dl_type d)),
          (''at'', JStr (time_format lib (fst (dl_at d)) (snd (dl_at d)))), (''payload'', pl)])
       (case dl_payload d of RawEmpty \<Rightarrow> Some JNull | RawJson j \<Rightarrow> Some j | RawBad _ \<Rightarrow> None)"

text \<open>The writes of one event in order; writing stops at the first that fails.\<close>

definition event_writes :: "string \<Rightarrow> string \<Rightarrow> string \<Rightarrow> string list" where
  "event_writes i eventName raw =
     (if i \<noteq> [] then [''id: '' @ i @ [CHR 0x0A]] else [])
     @ (if eventName \<noteq> [] then [''event: '' @ eventName @ [CHR 0x0A]] else [])
     @ [''data: '' @ raw @ [CHR 0x0A, CHR 0x0A]]"

fun write_all :: "(string \<Rightarrow> 'w \<Rightarrow> gerr option \<times> 'w) \<Rightarrow> string list \<Rightarrow> 'w \<Rightarrow> gerr option \<times> 'w" where
  "write_all write [] w = (None, w)"
| "write_all write (s # ss) w =
     (case write s w of (Some e, w') \<Rightarrow> (Some e, w') | (None, w') \<Rightarrow> write_all write ss w')"

definition WriteEvent ::
  "golib \<Rightarrow> (string \<Rightarrow> 'w \<Rightarrow> gerr option \<times> 'w) \<Rightarrow> ('w \<Rightarrow> 'w) \<Rightarrow> string \<Rightarrow> string \<Rightarrow> json option \<Rightarrow> 'w \<Rightarrow> gerr option \<times> 'w" where
  "WriteEvent lib write flush i eventName data w =
     (case data of
        None \<Rightarrow> (Some (WrapErr ''sse marshal'' (Errorf ''json: error calling MarshalJSON'')), w)
      | Some j \<Rightarrow>
          (case write_all write (event_writes i eventName (json_text lib j)) w of
             (Some e, w') \<Rightarrow> (Some e, w')
           | (None, w') \<Rightarrow> (None, flush w')))"

definition WriteDelta ::
  "golib \<Rightarrow> (string \<Rightarrow> 'w \<Rightarrow> gerr option \<times> 'w) \<Rightarrow> ('w \<Rightarrow> 'w) \<Rightarrow> Delta \<Rightarrow> 'w \<Rightarrow> gerr option \<times> 'w" where
  "WriteDelta lib write flush d w = WriteEvent lib write flush (dl_stream d) (dl_type d) (delta_json lib d) w"

definition Heartbeat :: "(string \<Rightarrow> 'w \<Rightarrow> gerr option \<times> 'w) \<Rightarrow> ('w \<Rightarrow> 'w) \<Rightarrow> 'w \<Rightarrow> gerr option \<times> 'w" where
  "Heartbeat write flush w =
     (case write ('': ping'' @ [CHR 0x0A, CHR 0x0A]) w of (Some e, w') \<Rightarrow> (Some e, w') | (None, w') \<Rightarrow> (None, flush w'))"

section \<open>Channels: who is published to\<close>

text \<open>The scope a request resolves to, and whether an event falls into it.\<close>

definition resolved_scope :: "Registry \<Rightarrow> SubscribeScope \<Rightarrow> Scope option" where
  "resolved_scope reg req =
     (case Get reg (sb_entity req) of None \<Rightarrow> None
      | Some ent \<Rightarrow> find (\<lambda>s. sc_name s = sb_scope req) (es_subscribe (e_spec ent)))"

definition in_scope :: "Scope \<Rightarrow> SubscribeScope \<Rightarrow> Envelope \<Rightarrow> bool" where
  "in_scope s req env =
     (s = ByTenant \<or> s = ByID \<and> ev_aggid env = sb_id req
      \<or> s \<noteq> ByID \<and> (\<exists>pl. payload_map (ev_payload env) = Inr pl \<and> mget pl (sc_field s) = Some (VStr (sb_id req))))"

lemma scope_channel_tenant:
  "ch \<in> set (scope_channel env pl s) \<Longrightarrow> \<exists>i. ch = ChannelName (ev_tenant env) s i"
  by (auto simp: scope_channel_def split: if_splits option.splits gval.splits)

lemma ResolveChannel_Inr:
  assumes "WithTenant c t = Inr ctx" and "ResolveChannel ctx reg req = Inr ch"
  obtains s where "resolved_scope reg req = Some s"
    and "ch = ChannelName t s (if s = ByTenant then t else sb_id req)" and "s = ByTenant \<or> sb_id req \<noteq> []"
  using assms(2) WithTenant_Require [OF assms(1)]
  by (auto simp: ResolveChannel_def resolved_scope_def split: option.splits if_splits)

text \<open>
  C14. Subscriptions and publications agree: a channel resolved for a tenant only ever
  carries events of that tenant, and every event of the tenant and entity that falls into
  the resolved scope is published on it.
\<close>

theorem channel_agreement:
  assumes "WithTenant c t = Inr ctx" and "ResolveChannel ctx reg req = Inr ch"
    and "Valid (ev_tenant env)" and "ChannelsForEnvelope reg env = Inr chs"
  shows "(ch \<in> set chs \<longrightarrow> ev_tenant env = t)
    \<and> (ev_tenant env = t \<and> ev_aggregate env = sb_entity req
         \<and> (\<exists>s. resolved_scope reg req = Some s \<and> in_scope s req env) \<longrightarrow> ch \<in> set chs)"
proof (intro conjI impI)
  obtain s where s: "resolved_scope reg req = Some s"
      and ch: "ch = ChannelName t s (if s = ByTenant then t else sb_id req)" and i: "s = ByTenant \<or> sb_id req \<noteq> []"
    by (rule ResolveChannel_Inr [OF assms(1,2)])
  show "ev_tenant env = t" if "ch \<in> set chs"
  proof -
    have "\<exists>pl s'. ch \<in> set (scope_channel env pl s')"
      using assms(4) that
      by (cases "Get reg (ev_aggregate env)"; cases "payload_map (ev_payload env)")
         (auto simp: ChannelsForEnvelope_def, blast)
    then obtain s' j where "ch = ChannelName (ev_tenant env) s' j"
      using scope_channel_tenant by blast
    moreover have "Valid t" using assms(1) by (simp add: WithTenant_def split: if_splits)
    ultimately show ?thesis using ChannelName_tenant_inj [OF assms(3)] ch by blast
  qed
  show "ch \<in> set chs" if e: "ev_tenant env = t \<and> ev_aggregate env = sb_entity req
      \<and> (\<exists>s. resolved_scope reg req = Some s \<and> in_scope s req env)"
  proof -
    obtain ent where ent: "Get reg (ev_aggregate env) = Some ent" and m: "s \<in> set (es_subscribe (e_spec ent))"
      using s e by (auto simp: resolved_scope_def find_Some_iff split: option.splits)
    then obtain pl where pl: "payload_map (ev_payload env) = Inr pl"
        and chs: "chs = concat (map (scope_channel env pl) (es_subscribe (e_spec ent)))"
      using assms(4) by (auto simp: ChannelsForEnvelope_def split: sum.splits)
    have "ByTenant \<noteq> ByID" by (simp add: ByTenant_def ByID_def)
    then have "ch \<in> set (scope_channel env pl s)"
      using e s i pl by (auto simp: ch in_scope_def scope_channel_def)
    then show ?thesis using m chs by auto
  qed
qed

definition page_reg :: "Binding \<Rightarrow> Registry" where
  "page_reg b = (New [])\<lparr>r_entities := [(''page'',
     \<lparr>e_spec = (zero_spec ''page'')\<lparr>es_subscribe := [ByID, \<lparr>sc_name = ''site'', sc_field = ''site_id''\<rparr>]\<rparr>, e_binding = b\<rparr>)]\<rparr>"

definition page_event :: Envelope where
  "page_event = \<lparr>ev_id = ''e1'', ev_tenant = ''acme'', ev_scope = [], ev_aggregate = ''page'', ev_aggid = ''p1'',
     ev_version = 1, ev_type = ''page.updated'', ev_at = (0, 0), ev_psv = 1,
     ev_payload = RawJson (JObj [(''site_id'', JStr ''s1'')]), ev_trace = []\<rparr>"

theorem channel_agreement_witness:
  "\<forall>b. \<exists>ctx ch. WithTenant background ''acme'' = Inr ctx
     \<and> ResolveChannel ctx (page_reg b) \<lparr>sb_entity = ''page'', sb_scope = ''site'', sb_id = ''s1''\<rparr> = Inr ch
     \<and> (\<exists>chs. ChannelsForEnvelope (page_reg b) page_event = Inr chs \<and> ch \<in> set chs)"
proof
  fix b
  let ?req = "\<lparr>sb_entity = ''page'', sb_scope = ''site'', sb_id = ''s1''\<rparr>"
  obtain ctx where c: "WithTenant background ''acme'' = Inr ctx"
    by (simp add: WithTenant_def Valid_def id_char_def is_lower_def)
  let ?s = "\<lparr>sc_name = ''site'', sc_field = ''site_id''\<rparr>"
  have r: "ResolveChannel ctx (page_reg b) ?req = Inr (ChannelName ''acme'' ?s ''s1'')"
    using WithTenant_Require [OF c]
    by (simp add: ResolveChannel_def Require_def FromContext_def page_reg_def Get_def ByID_def ByTenant_def)
  obtain chs where chs: "ChannelsForEnvelope (page_reg b) page_event = Inr chs"
    by (simp add: ChannelsForEnvelope_def page_reg_def Get_def page_event_def payload_map_def)
  have v: "Valid (ev_tenant page_event)" by (simp add: page_event_def Valid_def id_char_def is_lower_def)
  have "resolved_scope (page_reg b) ?req = Some ?s"
    by (simp add: resolved_scope_def page_reg_def Get_def ByID_def)
  moreover have "in_scope ?s ?req page_event"
    by (simp add: in_scope_def page_event_def payload_map_def go_map_of_def ByID_def ByTenant_def)
  moreover have "ev_tenant page_event = ''acme''" "ev_aggregate page_event = sb_entity ?req"
    by (simp_all add: page_event_def)
  ultimately have "ChannelName ''acme'' ?s ''s1'' \<in> set chs" using channel_agreement [OF c r v chs] by blast
  then show "\<exists>ctx ch. WithTenant background ''acme'' = Inr ctx \<and> ResolveChannel ctx (page_reg b) ?req = Inr ch
     \<and> (\<exists>chs. ChannelsForEnvelope (page_reg b) page_event = Inr chs \<and> ch \<in> set chs)"
    using c r chs by blast
qed

section \<open>Conflation: the latest delta of each aggregate\<close>

text \<open>
  The delta that stands for its aggregate after a sequence of offers: no earlier one is
  newer, every later one is older.
\<close>

definition survives :: "Delta list \<Rightarrow> Delta \<Rightarrow> bool" where
  "survives ds d =
     (\<exists>us vs. ds = us @ d # vs
        \<and> (\<forall>e \<in> set us. conf_key e = conf_key d \<longrightarrow> dl_version e \<le> dl_version d)
        \<and> (\<forall>e \<in> set vs. conf_key e = conf_key d \<longrightarrow> dl_version e < dl_version d))"

definition offer_all :: "Delta list \<Rightarrow> conflator" where
  "offer_all ds = fold (\<lambda>d c. snd (offer d c)) ds []"

lemma offer_all_snoc: "offer_all (ds @ [d]) = snd (offer d (offer_all ds))"
  by (simp add: offer_all_def)

lemma survives_snoc:
  "survives (ds @ [x]) d \<longleftrightarrow>
     (d = x \<and> (\<forall>e \<in> set ds. conf_key e = conf_key x \<longrightarrow> dl_version e \<le> dl_version x))
     \<or> (survives ds d \<and> (conf_key x = conf_key d \<longrightarrow> dl_version x < dl_version d))"
proof
  assume "survives (ds @ [x]) d"
  then obtain us vs where e: "ds @ [x] = us @ d # vs"
      and u: "\<forall>e \<in> set us. conf_key e = conf_key d \<longrightarrow> dl_version e \<le> dl_version d"
      and v: "\<forall>e \<in> set vs. conf_key e = conf_key d \<longrightarrow> dl_version e < dl_version d"
    by (auto simp: survives_def)
  then show "(d = x \<and> (\<forall>e \<in> set ds. conf_key e = conf_key x \<longrightarrow> dl_version e \<le> dl_version x))
     \<or> (survives ds d \<and> (conf_key x = conf_key d \<longrightarrow> dl_version x < dl_version d))"
    by (cases vs rule: rev_cases) (auto simp: survives_def)
next
  assume "(d = x \<and> (\<forall>e \<in> set ds. conf_key e = conf_key x \<longrightarrow> dl_version e \<le> dl_version x))
     \<or> (survives ds d \<and> (conf_key x = conf_key d \<longrightarrow> dl_version x < dl_version d))"
  then show "survives (ds @ [x]) d"
  proof
    assume "d = x \<and> (\<forall>e \<in> set ds. conf_key e = conf_key x \<longrightarrow> dl_version e \<le> dl_version x)"
    then show ?thesis unfolding survives_def by (intro exI [of _ ds] exI [of _ "[]"]) simp
  next
    assume a: "survives ds d \<and> (conf_key x = conf_key d \<longrightarrow> dl_version x < dl_version d)"
    then obtain us vs where "ds = us @ d # vs"
        "\<forall>e \<in> set us. conf_key e = conf_key d \<longrightarrow> dl_version e \<le> dl_version d"
        "\<forall>e \<in> set vs. conf_key e = conf_key d \<longrightarrow> dl_version e < dl_version d"
      by (auto simp: survives_def)
    then show ?thesis using a unfolding survives_def by (intro exI [of _ us] exI [of _ "vs @ [x]"]) auto
  qed
qed

lemma survivor_dominates:
  "survives ds d \<Longrightarrow> e \<in> set ds \<Longrightarrow> conf_key e = conf_key d \<Longrightarrow> dl_version e \<le> dl_version d"
  by (force simp: survives_def)

lemma offer_all_get:
  "(\<forall>d. mget (offer_all ds) k = Some d \<longleftrightarrow> survives ds d \<and> conf_key d = k)
   \<and> (mget (offer_all ds) k = None \<longleftrightarrow> (\<forall>e \<in> set ds. conf_key e \<noteq> k))"
proof (induction ds rule: rev_induct)
  case Nil
  then show ?case by (simp add: offer_all_def survives_def)
next
  case (snoc x ds)
  show ?case
  proof (cases "conf_key x = k")
    case False
    then have "mget (offer_all (ds @ [x])) k = mget (offer_all ds) k"
      by (simp add: offer_all_snoc offer_def split: option.split)
    moreover have "(survives (ds @ [x]) d \<and> conf_key d = k) = (survives ds d \<and> conf_key d = k)" for d
      using False unfolding survives_snoc by blast
    ultimately show ?thesis using snoc False by simp
  next
    case True
    show ?thesis
    proof (cases "mget (offer_all ds) k")
      case None
      then have "mget (offer_all (ds @ [x])) k = Some x" using True by (simp add: offer_all_snoc offer_def)
      moreover have no: "\<forall>e \<in> set ds. conf_key e \<noteq> k" using None snoc by blast
      then have "(survives (ds @ [x]) d \<and> conf_key d = k) = (x = d)" for d
        using True unfolding survives_snoc by (auto simp: survives_def)
      ultimately show ?thesis using True by simp
    next
      case (Some prev)
      then have prev: "survives ds prev" "conf_key prev = k" using snoc by auto
      have uniq: "survives ds d \<and> conf_key d = k \<longleftrightarrow> d = prev" for d using snoc Some by auto
      show ?thesis
      proof (cases "dl_version prev \<le> dl_version x")
        case le: True
        then have "mget (offer_all (ds @ [x])) k = Some x" using Some True by (simp add: offer_all_snoc offer_def)
        moreover have "\<forall>e \<in> set ds. conf_key e = conf_key x \<longrightarrow> dl_version e \<le> dl_version x"
          using survivor_dominates [OF prev(1)] prev(2) True le by fastforce
        then have "(survives (ds @ [x]) d \<and> conf_key d = k) = (x = d)" for d
          using uniq [of d] le True unfolding survives_snoc by auto
        ultimately show ?thesis using True by simp
      next
        case False
        then have r: "mget (offer_all (ds @ [x])) k = Some prev" using Some True by (simp add: offer_all_snoc offer_def)
        have "prev \<in> set ds" using prev(1) by (auto simp: survives_def)
        then have n: "\<not> (\<forall>e \<in> set ds. conf_key e = conf_key x \<longrightarrow> dl_version e \<le> dl_version x)"
          using False True prev(2) by blast
        moreover have "dl_version x < dl_version prev" using False by simp
        ultimately have "(survives (ds @ [x]) d \<and> conf_key d = k) = (prev = d)" for d
          using uniq [of d] prev unfolding survives_snoc by blast
        then show ?thesis using r True by simp
      qed
    qed
  qed
qed

lemma offer_all_wf: "wf_map (offer_all ds)"
  by (induction ds rule: rev_induct) (auto simp: offer_all_snoc offer_def split: option.split, simp add: offer_all_def)


section \<open>The hub\<close>

text \<open>
  What every hub keeps: subscribers under distinct identifiers below the next one, and no
  channel once it is closed.
\<close>

definition hub_wf :: "Hub \<Rightarrow> bool" where
  "hub_wf h = ((\<forall>c cs. mget (h_channels h) c = Some cs
        \<longrightarrow> wf_map (cs_subs cs) \<and> (\<forall>i. cs_next cs \<le> i \<longrightarrow> mget (cs_subs cs) i = None))
     \<and> (h_closed h \<longrightarrow> (\<forall>c. mget (h_channels h) c = None)))"

lemma deliver_one_simps [simp]:
  "deliver_one raw d [] = []"
  "deliver_one raw d ((i, cap, buf) # subs) =
     (if length buf < cap then [(i, cap, buf @ [d])] else if raw then [] else [(i, cap, buf)]) @ deliver_one raw d subs"
  by (simp_all add: deliver_one_def)

lemma deliver_one_sub: "fst ` set (deliver_one raw d subs) \<subseteq> fst ` set subs"
proof (induction subs)
  case (Cons s subs)
  obtain i cap buf where "s = (i, cap, buf)" by (cases s) auto
  then show ?case using Cons by (cases raw) (simp_all add: subset_insertI2)
qed simp

lemma deliver_one_wf: "wf_map subs \<Longrightarrow> wf_map (deliver_one raw d subs)"
proof (induction subs)
  case (Cons s subs)
  obtain i cap buf where s: "s = (i, cap, buf)" by (cases s) auto
  have "i \<notin> fst ` set (deliver_one raw d subs)" using Cons.prems deliver_one_sub [of raw d subs] by (auto simp: s wf_map_def)
  then show ?case using Cons by (cases raw) (simp_all add: s wf_map_def)
qed simp

lemma deliver_one_get:
  "wf_map subs \<Longrightarrow> mget (deliver_one raw d subs) i =
     (case mget subs i of None \<Rightarrow> None
      | Some (cap, buf) \<Rightarrow> if length buf < cap then Some (cap, buf @ [d]) else if raw then None else Some (cap, buf))"
proof (induction subs)
  case (Cons s subs)
  obtain j cap buf where s: "s = (j, cap, buf)" by (cases s) auto
  have "mget (deliver_one raw d subs) j = None"
    using Cons.prems deliver_one_sub [of raw d subs] by (auto simp: s wf_map_def map_of_eq_None_iff)
  moreover have "wf_map subs" using Cons.prems by (simp add: wf_map_def)
  ultimately show ?case using Cons.IH by (cases raw) (simp_all add: s)
qed simp

lemma deliver_wf: "wf_map subs \<Longrightarrow> wf_map (fold (deliver_one raw) ds subs)"
  by (induction ds arbitrary: subs) (simp_all add: deliver_one_wf)

lemma deliver_one_None: "wf_map subs \<Longrightarrow> mget subs i = None \<Longrightarrow> mget (deliver_one raw d subs) i = None"
  by (simp add: deliver_one_get)

lemma deliver_None: "wf_map subs \<Longrightarrow> mget subs i = None \<Longrightarrow> mget (fold (deliver_one raw) ds subs) i = None"
  by (induction ds arbitrary: subs) (simp_all add: deliver_one_wf deliver_one_None)

lemma deliverLocked_sel [simp]:
  "cs_raw (deliverLocked ds cs) = cs_raw cs" "cs_next (deliverLocked ds cs) = cs_next cs" "cs_conf (deliverLocked ds cs) = cs_conf cs"
  "cs_subs (deliverLocked ds cs) = fold (deliver_one (cs_raw cs)) ds (cs_subs cs)"
  by (simp_all add: deliverLocked_def)

lemma wf_map_single: "wf_map [(k, v)]"
  by (simp add: wf_map_def)

lemma hub_flush_wf: "hub_wf h \<Longrightarrow> hub_wf (hub_flush c h)"
  by (auto simp: hub_wf_def hub_flush_def conf_drain_def Let_def deliver_wf deliver_None split: option.splits if_splits)

lemma hub_step_wf:
  assumes "hub_wf h"
  shows "hub_wf (hub_step op h)"
proof (cases op)
  case (DoSubscribe c buffer raw)
  then show ?thesis using assms
    by (auto simp: hub_wf_def hub_subscribe_def Let_def wf_map_single split: option.splits if_splits sum.splits)
next
  case (DoCancel c i)
  then show ?thesis using assms by (auto simp: hub_wf_def hub_cancel_def Let_def split: option.splits if_splits)
next
  case (DoPublish c d)
  then show ?thesis using assms by (auto simp: hub_wf_def Publish_def deliver_one_wf deliver_one_None split: option.splits if_splits)
next
  case (DoPublishRaw c d)
  then show ?thesis using assms by (auto simp: hub_wf_def PublishRaw_def deliver_one_wf deliver_one_None split: option.splits if_splits)
next
  case (DoFlush c)
  then show ?thesis using assms hub_flush_wf by simp
next
  case DoFlushAll
  have "hub_wf (fold hub_flush cs h)" for cs using assms by (induction cs arbitrary: h) (simp_all add: hub_flush_wf)
  then show ?thesis using DoFlushAll by (simp add: Hub_Flush_def)
next
  case DoClose
  then show ?thesis using assms by (simp add: hub_wf_def Hub_Close_def)
next
  case (DoReceive c i)
  then show ?thesis using assms
    by (auto simp: hub_wf_def hub_receive_def split: option.splits if_splits list.splits)
qed

definition hub_run :: "hub_op list \<Rightarrow> Hub \<Rightarrow> Hub" where
  "hub_run ops h = fold hub_step ops h"

lemma hub_run_wf: "hub_wf (hub_run ops (NewHub tailer))"
proof -
  have "hub_wf (NewHub tailer)" by (simp add: hub_wf_def NewHub_def)
  then have "hub_wf (fold hub_step ops h)" if "hub_wf h" for h
    using that by (induction ops arbitrary: h) (simp_all add: hub_step_wf)
  then show ?thesis using \<open>hub_wf (NewHub tailer)\<close> by (simp add: hub_run_def)
qed

text \<open>The buffer of a subscriber while it is attached to a raw channel.\<close>

definition raw_buffer :: "string \<Rightarrow> nat \<Rightarrow> Hub \<Rightarrow> Delta list option" where
  "raw_buffer c i h =
     (case mget (h_channels h) c of None \<Rightarrow> None
      | Some cs \<Rightarrow> if cs_raw cs then map_option snd (mget (cs_subs cs) i) else None)"

text \<open>What an operation sends to the channel, and what the subscriber receives in it.\<close>

definition sent :: "string \<Rightarrow> hub_op \<Rightarrow> Delta list" where
  "sent c op = (case op of DoPublish c' d \<Rightarrow> if c' = c then [d] else []
     | DoPublishRaw c' d \<Rightarrow> if c' = c then [d] else [] | _ \<Rightarrow> [])"

definition received :: "string \<Rightarrow> nat \<Rightarrow> hub_op \<Rightarrow> Hub \<Rightarrow> Delta list" where
  "received c i op h =
     (if op = DoReceive c i then (case hub_receive c i h of None \<Rightarrow> [] | Some (d, _) \<Rightarrow> [d]) else [])"

text \<open>
  Following one subscriber through an execution for as long as it stays attached: the
  deltas it received and the hub reached.
\<close>

fun follow :: "string \<Rightarrow> nat \<Rightarrow> hub_op list \<Rightarrow> Hub \<Rightarrow> (Delta list \<times> Hub) option" where
  "follow c i [] h = Some ([], h)"
| "follow c i (op # ops) h =
     (if raw_buffer c i (hub_step op h) = None then None
      else map_option (\<lambda>(got, h'). (received c i op h @ got, h')) (follow c i ops (hub_step op h)))"

text \<open>A raw channel has nothing to conflate, so a flush does not touch its subscribers.\<close>

definition raw_unconflated :: "string \<Rightarrow> Hub \<Rightarrow> bool" where
  "raw_unconflated c h = (\<forall>cs. mget (h_channels h) c = Some cs \<and> cs_raw cs \<longrightarrow> cs_conf cs = [])"

lemma raw_flush:
  assumes "hub_wf h" and "raw_unconflated c h" and "raw_buffer c i h = Some buf"
  shows "raw_buffer c i (hub_flush c' h) = Some buf \<and> raw_unconflated c (hub_flush c' h)"
  using assms
  by (auto simp: raw_buffer_def raw_unconflated_def hub_flush_def conf_drain_def Let_def
      split: option.splits if_splits)

lemma raw_unconflated_step: "raw_unconflated c h \<Longrightarrow> raw_unconflated c (hub_step op h)"
proof (cases op)
  case DoFlushAll
  assume u: "raw_unconflated c h"
  have "raw_unconflated c (hub_flush n h)" if "raw_unconflated c h" for n h
    using that by (auto simp: raw_unconflated_def hub_flush_def conf_drain_def Let_def split: option.splits if_splits)
  then have "raw_unconflated c (fold hub_flush ns h)" for ns using u by (induction ns arbitrary: h) simp_all
  then show ?thesis using DoFlushAll by (simp add: Hub_Flush_def)
qed (auto simp: raw_unconflated_def hub_flush_def conf_drain_def hub_subscribe_def hub_cancel_def Publish_def
      PublishRaw_def hub_receive_def Hub_Close_def Let_def split: option.splits if_splits sum.splits list.splits)

lemma fold_raw_unconflated: "raw_unconflated c h \<Longrightarrow> raw_unconflated c (fold hub_step ops h)"
  by (induction ops arbitrary: h) (simp_all add: raw_unconflated_step)

fun touches :: "hub_op \<Rightarrow> string option" where
  "touches (DoSubscribe c b r) = Some c"
| "touches (DoCancel c i) = Some c"
| "touches (DoPublish c d) = Some c"
| "touches (DoPublishRaw c d) = Some c"
| "touches (DoReceive c i) = Some c"
| "touches _ = None"

lemma other_channel:
  assumes "touches op = Some c'" and "c' \<noteq> c"
  shows "mget (h_channels (hub_step op h)) c = mget (h_channels h) c \<and> received c i op h = [] \<and> sent c op = []"
  using assms
  by (cases op)
     (simp_all add: hub_subscribe_def hub_cancel_def Publish_def PublishRaw_def hub_receive_def Let_def
       received_def sent_def split: option.split sum.split list.split)

lemma raw_step:
  assumes "hub_wf h" and "raw_unconflated c h" and "raw_buffer c i h = Some buf"
    and "raw_buffer c i (hub_step op h) = Some buf'"
  shows "received c i op h @ buf' = buf @ sent c op \<and> raw_unconflated c (hub_step op h)"
proof -
  obtain cs cap where cs: "mget (h_channels h) c = Some cs" "cs_raw cs" "mget (cs_subs cs) i = Some (cap, buf)"
    using assms(3) by (auto simp: raw_buffer_def split: option.splits if_splits)
  then have conf: "cs_conf cs = []" and wf: "wf_map (cs_subs cs)" "i < cs_next cs"
    using assms(1,2) by (auto simp: raw_unconflated_def hub_wf_def not_le [symmetric])
  have same: ?thesis if "mget (h_channels (hub_step op h)) c = mget (h_channels h) c \<and> received c i op h = [] \<and> sent c op = []"
    using that assms(2-4) by (simp add: raw_buffer_def raw_unconflated_def)
  have other: ?thesis if "touches op = Some c'" "c' \<noteq> c" for c' using same other_channel [OF that] by blast
  show ?thesis
  proof (cases op)
    case DoFlushAll
    have "raw_buffer c i (fold hub_flush ns h) = Some buf \<and> raw_unconflated c (fold hub_flush ns h)" for ns
      using assms(1-3)
    proof (induction ns arbitrary: h)
      case (Cons a ns)
      then show ?case using raw_flush [OF Cons.prems, of a] hub_flush_wf by simp
    qed simp
    then show ?thesis using assms(4) DoFlushAll by (simp add: Hub_Flush_def received_def sent_def)
  next
    case (DoFlush c')
    then show ?thesis using raw_flush [OF assms(1-3), of c'] assms(4) by (simp add: received_def sent_def)
  next
    case DoClose
    then show ?thesis using same assms(4) by (simp add: raw_buffer_def Hub_Close_def received_def sent_def split: if_splits)
  next
    case (DoSubscribe c' b r)
    show ?thesis
    proof (cases "c' = c")
      case True
      then show ?thesis using assms(4) DoSubscribe cs conf wf
        by (simp add: raw_buffer_def raw_unconflated_def hub_subscribe_def Let_def received_def sent_def split: if_splits)
    qed (rule other [of c'], simp_all add: DoSubscribe)
  next
    case (DoCancel c' j)
    show ?thesis
    proof (cases "c' = c")
      case True
      then show ?thesis using assms(4) DoCancel cs conf wf
        by (simp add: raw_buffer_def raw_unconflated_def hub_cancel_def Let_def received_def sent_def split: if_splits)
    qed (rule other [of c'], simp_all add: DoCancel)
  next
    case (DoPublish c' d)
    show ?thesis
    proof (cases "c' = c")
      case True
      have "\<not> h_closed h" using assms(1) cs(1) by (auto simp: hub_wf_def)
      then show ?thesis using True assms(4) DoPublish cs conf wf
        by (simp add: raw_buffer_def raw_unconflated_def Publish_def deliver_one_get received_def sent_def split: if_splits)
    qed (rule other [of c'], simp_all add: DoPublish)
  next
    case (DoPublishRaw c' d)
    show ?thesis
    proof (cases "c' = c")
      case True
      have "\<not> h_closed h" using assms(1) cs(1) by (auto simp: hub_wf_def)
      then show ?thesis using True assms(4) DoPublishRaw cs conf wf
        by (simp add: raw_buffer_def raw_unconflated_def PublishRaw_def deliver_one_get received_def sent_def split: if_splits)
    qed (rule other [of c'], simp_all add: DoPublishRaw)
  next
    case (DoReceive c' j)
    show ?thesis
    proof (cases "c' = c")
      case True
      then show ?thesis using assms(4) DoReceive cs conf
        by (cases "mget (cs_subs cs) j"; cases buf)
           (auto simp: raw_buffer_def raw_unconflated_def hub_receive_def received_def sent_def split: if_splits list.splits)
    qed (rule other [of c'], simp_all add: DoReceive)
  qed
qed

text \<open>
  C16. A raw subscriber sees every frame, in order, or is closed: in every execution of a
  hub, for as long as a subscriber of a raw channel stays attached, what it received
  followed by what is still buffered for it is what was buffered at first followed by
  every frame published to the channel since.
\<close>

theorem raw_complete_or_closed:
  assumes "raw_buffer c i (hub_run ops0 (NewHub tailer)) = Some buf"
    and "follow c i ops (hub_run ops0 (NewHub tailer)) = Some (got, h')"
  shows "\<exists>buf'. raw_buffer c i h' = Some buf' \<and> got @ buf' = buf @ concat (map (sent c) ops)"
proof -
  have u: "raw_unconflated c (hub_run ops0 (NewHub tailer))"
    unfolding hub_run_def by (rule fold_raw_unconflated) (simp add: NewHub_def raw_unconflated_def)
  have "\<exists>buf'. raw_buffer c i h' = Some buf' \<and> got @ buf' = buf @ concat (map (sent c) ops)"
    if "hub_wf h" "raw_unconflated c h" "raw_buffer c i h = Some buf" "follow c i ops h = Some (got, h')" for h got buf
    using that
  proof (induction ops arbitrary: h got buf)
    case (Cons op ops)
    then obtain buf1 got1 where b: "raw_buffer c i (hub_step op h) = Some buf1"
        and f: "follow c i ops (hub_step op h) = Some (got1, h')" and g: "got = received c i op h @ got1"
      by (auto split: if_splits)
    note st = raw_step [OF Cons.prems(1-3) b]
    from Cons.IH [OF hub_step_wf [OF Cons.prems(1)] conjunct2 [OF st] b f]
    obtain buf' where "raw_buffer c i h' = Some buf'" "got1 @ buf' = buf1 @ concat (map (sent c) ops)" by blast
    then show ?case using st g by (metis append.assoc concat.simps(2) list.simps(9))
  qed simp
  then show ?thesis using hub_run_wf u assms by blast
qed

definition frame :: "string \<Rightarrow> int \<Rightarrow> Delta" where
  "frame s v = \<lparr>dl_stream = s, dl_channel = ''doc'', dl_tenant = ''acme'', dl_aggregate = ''page'', dl_aggid = ''p1'',
     dl_version = v, dl_type = ''page.updated'', dl_at = (0, 0), dl_payload = RawEmpty\<rparr>"

lemmas hub_eval = hub_subscribe_def hub_cancel_def Publish_def deliverLocked_def deliver_one_def hub_receive_def
  raw_buffer_def hub_run_def NewHub_def received_def sent_def

theorem raw_complete_or_closed_witness:
  "\<exists>h'. follow ''doc'' 0 [DoPublish ''doc'' (frame ''1'' 1), DoReceive ''doc'' 0, DoPublish ''doc'' (frame ''2'' 2)]
          (hub_run [DoSubscribe ''doc'' 2 True] (NewHub False)) = Some ([frame ''1'' 1], h')
     \<and> raw_buffer ''doc'' 0 h' = Some [frame ''2'' 2]"
proof -
  let ?ops = "[DoPublish ''doc'' (frame ''1'' 1), DoReceive ''doc'' 0, DoPublish ''doc'' (frame ''2'' 2)]"
  obtain h' where f: "follow ''doc'' 0 ?ops (hub_run [DoSubscribe ''doc'' 2 True] (NewHub False)) = Some ([frame ''1'' 1], h')"
    by (simp add: hub_eval)
  have "raw_buffer ''doc'' 0 (hub_run [DoSubscribe ''doc'' 2 True] (NewHub False)) = Some []" by (simp add: hub_eval)
  from raw_complete_or_closed [OF this f] show ?thesis using f by (auto simp: sent_def)
qed

text \<open>
  A late cancel detaches somebody else: subscriber identifiers restart when a channel
  is recreated.  Below a raw subscriber overflows and is closed by the hub, the second
  subscriber leaves, so the channel is removed, and a third one subscribes; when the first
  one's cancel function runs at last, the third one is closed.
\<close>

theorem stale_cancel_detaches_other:
  "raw_buffer c 0 (hub_run [DoSubscribe c 1 True, DoPublish c d, DoSubscribe c 1 True, DoPublish c d,
      DoCancel c 1, DoSubscribe c 1 True] (NewHub tailer)) = Some []
   \<and> raw_buffer c 0 (hub_run [DoSubscribe c 1 True, DoPublish c d, DoSubscribe c 1 True, DoPublish c d,
      DoCancel c 1, DoSubscribe c 1 True, DoCancel c 0] (NewHub tailer)) = None"
  by (simp add: hub_eval)

text \<open>
  Stream positions are compared as strings, so the tenth entry of a millisecond is
  delivered before the ninth.
\<close>

lemma drain_order_is_lexicographic:
  "fst (conf_drain (offer_all [frame ''5-9'' 1, (frame ''5-10'' 1)\<lparr>dl_aggid := ''p2''\<rparr>]))
     = [(frame ''5-10'' 1)\<lparr>dl_aggid := ''p2''\<rparr>, frame ''5-9'' 1]"
  by (simp add: conf_drain_def offer_all_def offer_def conf_key_def frame_def less_char_def less_eq_char_def)


end
