(* ===== verification/Cluster.thy ===== *)
theory Cluster
  imports LiveEngine "HOL-Library.Word"
begin

unbundle bit_operations_syntax

text \<open>
  The sharded live-query tier (\<^verbatim>\<open>core/livequery/cluster\<close>): partitions by FNV-1a hash
  at 64 bits, owners by rendezvous hashing, the gateway and the shard.  Ports (membership,
  control bus, delta bus, subscription registry) are given by what they answer; what is
  sent is returned as a list.  The engine's answer to a subscription is an argument of the
  operations that subscribe (the engine itself is \<^verbatim>\<open>LiveEngine\<close>).
\<close>

section \<open>Partitions and owners\<close>

text \<open>FNV-1a of the standard library, offset and prime.\<close>

abbreviation fnv_offset64 :: "64 word" where
  "fnv_offset64 \<equiv> 14695981039346656037"

abbreviation fnv_prime64 :: "64 word" where
  "fnv_prime64 \<equiv> 1099511628211"

definition fnv64a_write :: "string \<Rightarrow> 64 word \<Rightarrow> 64 word" where
  "fnv64a_write s h = fold (\<lambda>c h. (h XOR of_char c) * fnv_prime64) s h"

definition Partitions :: nat where
  "Partitions = 256"

definition PartitionOf :: "string \<Rightarrow> string \<Rightarrow> nat" where
  "PartitionOf tenantID entity =
     unat (fnv64a_write entity (fnv64a_write [CHR 0x00] (fnv64a_write tenantID fnv_offset64))) mod Partitions"

text \<open>The eight bytes of a partition number, least significant first.\<close>

definition le_bytes :: "nat \<Rightarrow> string" where
  "le_bytes p = map (\<lambda>i. char_of (p div 256 ^ i mod 256)) [0..<8]"

definition weight :: "string \<Rightarrow> nat \<Rightarrow> 64 word" where
  "weight shardID p = fnv64a_write (le_bytes p) (fnv64a_write [CHR 0x00] (fnv64a_write shardID fnv_offset64))"

definition owner_step :: "nat \<Rightarrow> string \<Rightarrow> string \<times> 64 word \<Rightarrow> string \<times> 64 word" where
  "owner_step p s b =
     (case b of (best, bestW) \<Rightarrow>
        let w = weight s p
        in if best = [] \<or> w > bestW \<or> w = bestW \<and> s < best then (s, w) else (best, bestW))"

definition Owner :: "nat \<Rightarrow> string list \<Rightarrow> string" where
  "Owner p live = fst (fold (owner_step p) live ([], 0))"

definition Owns :: "string \<Rightarrow> nat \<Rightarrow> string list \<Rightarrow> bool" where
  "Owns self p live = (Owner p live = self)"

section \<open>Messages\<close>

datatype ControlOp = OpSubscribe | OpUnsubscribe | OpReanchor | OpUnknown string

record Control =
  ct_op :: ControlOp
  ct_sub :: string
  ct_gateway :: string
  ct_tenant :: string
  ct_query :: LiveQuery
  ct_cursor :: "Cursor option"
  ct_limit :: int

type_synonym GatewayDelta = "string \<times> LiveDelta"

record Registration =
  rg_sub :: string
  rg_tenant :: string
  rg_entity :: string
  rg_partition :: nat
  rg_mode :: Mode
  rg_query :: LiveQuery
  rg_gateway :: string
  rg_watermark :: string

section \<open>The gateway\<close>

record Gateway =
  gw_id :: string
  gw_subs :: "(string \<times> chan) list"
  gw_seq :: "64 word"

definition NewGateway :: "string \<Rightarrow> Gateway" where
  "NewGateway i = \<lparr>gw_id = i, gw_subs = [], gw_seq = 0\<rparr>"

text \<open>A delta that arrives for a subscription: dropped when its channel is full.\<close>

definition gw_deliver :: "GatewayDelta \<Rightarrow> Gateway \<Rightarrow> Gateway" where
  "gw_deliver gd g =
     (case mget (gw_subs g) (fst gd) of
        None \<Rightarrow> g
      | Some (cap, buf) \<Rightarrow>
          if length buf < cap then g\<lparr>gw_subs := mput (fst gd) (cap, buf @ [snd gd]) (gw_subs g)\<rparr> else g)"

definition empty_query :: LiveQuery where
  "empty_query = \<lparr>lq_entity = [], lq_where = [], lq_sort = [], lq_limit = 0, lq_cursor = None,
     lq_mode = ModeMaintained, lq_fielddeltas = False\<rparr>"

text \<open>The identifier of the subscription, the control message and the shard it goes to.\<close>

definition gw_Subscribe ::
  "gctx \<Rightarrow> LiveQuery \<Rightarrow> (gerr + string list) \<Rightarrow> (string \<Rightarrow> Control \<Rightarrow> gerr option) \<Rightarrow> Gateway
     \<Rightarrow> (gerr + string \<times> string \<times> Control) \<times> Gateway" where
  "gw_Subscribe ctx q liveShards send g =
     (case Require ctx of
        Inl e \<Rightarrow> (Inl e, g)
      | Inr tid \<Rightarrow>
          (case liveShards of
             Inl e \<Rightarrow> (Inl e, g)
           | Inr live \<Rightarrow>
               (let p = PartitionOf tid (lq_entity q); owner = Owner p live
                in if owner = [] then (Inl (Errorf ''no live shard for partition''), g)
                   else
                     (let seq = gw_seq g + 1;
                          sid = gw_id g @ ''-'' @ int_str (uint seq);
                          g1 = g\<lparr>gw_seq := seq, gw_subs := mput sid (64, []) (gw_subs g)\<rparr>;
                          c = \<lparr>ct_op = OpSubscribe, ct_sub = sid, ct_gateway = gw_id g, ct_tenant = tid,
                               ct_query = q, ct_cursor = None, ct_limit = 0\<rparr>
                      in case send owner c of
                           Some e \<Rightarrow> (Inl e, g1\<lparr>gw_subs := mdel sid (gw_subs g1)\<rparr>)
                         | None \<Rightarrow> (Inr (sid, owner, c), g1)))))"

definition gw_cancel :: "string \<Rightarrow> nat \<Rightarrow> string list \<Rightarrow> Gateway \<Rightarrow> (string \<times> Control) option \<times> Gateway" where
  "gw_cancel sid p live g =
     (let o' = Owner p live
      in (if o' \<noteq> []
          then Some (o', \<lparr>ct_op = OpUnsubscribe, ct_sub = sid, ct_gateway = [], ct_tenant = [],
                          ct_query = empty_query, ct_cursor = None, ct_limit = 0\<rparr>)
          else None,
          g\<lparr>gw_subs := mdel sid (gw_subs g)\<rparr>))"

definition gw_Reanchor ::
  "gctx \<Rightarrow> string \<Rightarrow> LiveQuery \<Rightarrow> Cursor option \<Rightarrow> int \<Rightarrow> (gerr + string list) \<Rightarrow> Gateway \<Rightarrow> gerr + string \<times> Control" where
  "gw_Reanchor ctx sid q cursor limit liveShards g =
     (case Require ctx of
        Inl e \<Rightarrow> Inl e
      | Inr tid \<Rightarrow>
          (case liveShards of
             Inl e \<Rightarrow> Inl e
           | Inr live \<Rightarrow>
               (let owner = Owner (PartitionOf tid (lq_entity q)) live
                in if owner = [] then Inl (Errorf ''no live shard for reanchor'')
                   else Inr (owner, \<lparr>ct_op = OpReanchor, ct_sub = sid, ct_gateway = gw_id g, ct_tenant = tid,
                                     ct_query = q, ct_cursor = cursor, ct_limit = limit\<rparr>))))"

section \<open>The shard\<close>

record Shard =
  sh_id :: string
  sh_owned :: "nat list"
  sh_subs :: "Registration gomap"

definition NewShard :: "string \<Rightarrow> Shard" where
  "NewShard i = \<lparr>sh_id = i, sh_owned = [], sh_subs = []\<rparr>"

text \<open>The durable registry by subscription identifier.\<close>

type_synonym subreg = "Registration gomap"

definition enter_delta :: "nat \<Rightarrow> Row \<Rightarrow> LiveDelta" where
  "enter_delta i r =
     \<lparr>ld_op = OpEnter, ld_aggid = rw_aggid r, ld_version = rw_version r, ld_row = rw_raw r, ld_old = -1,
      ld_new = int i, ld_cursor = rw_cursor r, ld_stream = [], ld_at = (0, 0), ld_changes = None\<rparr>"

text \<open>A snapshot as a reset followed by one enter per row.\<close>

definition sendSnapshot :: "string \<Rightarrow> Row list \<Rightarrow> GatewayDelta list" where
  "sendSnapshot sid rows =
     (sid, reset_delta (0, 0)) # map (\<lambda>(i, r). (sid, enter_delta i r)) (zip [0..<length rows] rows)"

type_synonym outbound = "(string \<times> GatewayDelta) list"

definition startSub :: "(Registration \<Rightarrow> gerr + Row list) \<Rightarrow> Registration \<Rightarrow> Shard \<Rightarrow> outbound \<times> Shard" where
  "startSub engine reg s =
     (case engine reg of
        Inl e \<Rightarrow> ([], s)
      | Inr rows \<Rightarrow> (map (Pair (rg_gateway reg)) (sendSnapshot (rg_sub reg) rows),
                     s\<lparr>sh_subs := mput (rg_sub reg) reg (sh_subs s)\<rparr>))"

definition handleControl ::
  "(Registration \<Rightarrow> gerr + Row list) \<Rightarrow> (Registration \<Rightarrow> Cursor option \<Rightarrow> int \<Rightarrow> gerr + Row list) \<Rightarrow> string list
     \<Rightarrow> Control \<Rightarrow> Shard \<times> subreg \<Rightarrow> outbound \<times> Shard \<times> subreg" where
  "handleControl engine reanchor live c st =
     (case st of (s, rs) \<Rightarrow>
        case ct_op c of
          OpSubscribe \<Rightarrow>
            (let p = PartitionOf (ct_tenant c) (lq_entity (ct_query c))
             in if \<not> Owns (sh_id s) p live then ([], s, rs)
                else
                  (let reg = \<lparr>rg_sub = ct_sub c, rg_tenant = ct_tenant c, rg_entity = lq_entity (ct_query c),
                              rg_partition = p, rg_mode = lq_mode (ct_query c), rg_query = ct_query c,
                              rg_gateway = ct_gateway c, rg_watermark = []\<rparr>
                   in case startSub engine reg s of (out, s') \<Rightarrow> (out, s', mput (rg_sub reg) reg rs)))
        | OpReanchor \<Rightarrow>
            (case mget (sh_subs s) (ct_sub c) of
               None \<Rightarrow> ([], s, rs)
             | Some reg \<Rightarrow>
                 (case reanchor reg (ct_cursor c) (ct_limit c) of
                    Inl e \<Rightarrow> ([], s, rs)
                  | Inr rows \<Rightarrow>
                      (let reg' = reg\<lparr>rg_query := reanchor_query (ct_cursor c) (ct_limit c) (rg_query reg)\<rparr>
                       in (map (Pair (rg_gateway reg')) (sendSnapshot (rg_sub reg') rows),
                           s\<lparr>sh_subs := mput (ct_sub c) reg' (sh_subs s)\<rparr>, mput (rg_sub reg') reg' rs))))
        | OpUnsubscribe \<Rightarrow>
            (case mget (sh_subs s) (ct_sub c) of
               None \<Rightarrow> ([], s, rs)
             | Some reg \<Rightarrow> ([], s\<lparr>sh_subs := mdel (ct_sub c) (sh_subs s)\<rparr>, mdel (ct_sub c) rs))
        | OpUnknown op \<Rightarrow> ([], s, rs))"

definition releasePartition :: "nat \<Rightarrow> Shard \<Rightarrow> Shard" where
  "releasePartition p s = s\<lparr>sh_subs := filter (\<lambda>(sid, reg). rg_partition reg \<noteq> p) (sh_subs s)\<rparr>"

definition claim_one :: "(Registration \<Rightarrow> gerr + Row list) \<Rightarrow> Registration \<Rightarrow> outbound \<times> Shard \<Rightarrow> outbound \<times> Shard" where
  "claim_one engine reg st =
     (case st of (out, s) \<Rightarrow>
        if mget (sh_subs s) (rg_sub reg) \<noteq> None then (out, s)
        else (case startSub engine reg s of (out', s') \<Rightarrow> (out @ out', s')))"

text \<open>The registry lists the subscriptions of a partition, or fails.\<close>

definition claimPartition ::
  "(Registration \<Rightarrow> gerr + Row list) \<Rightarrow> (nat \<Rightarrow> gerr + Registration list) \<Rightarrow> nat \<Rightarrow> outbound \<times> Shard \<Rightarrow> outbound \<times> Shard" where
  "claimPartition engine byPartition p st =
     (case byPartition p of Inl e \<Rightarrow> st | Inr regs \<Rightarrow> fold (claim_one engine) regs st)"

definition reconcileOwnership ::
  "(Registration \<Rightarrow> gerr + Row list) \<Rightarrow> (nat \<Rightarrow> gerr + Registration list) \<Rightarrow> (gerr + string list) \<Rightarrow> Shard
     \<Rightarrow> outbound \<times> Shard" where
  "reconcileOwnership engine byPartition liveShards s =
     (case liveShards of
        Inl e \<Rightarrow> ([], s)
      | Inr live \<Rightarrow>
          (let newOwned = filter (\<lambda>p. Owns (sh_id s) p live) [0..<Partitions];
               gained = filter (\<lambda>p. p \<notin> set (sh_owned s)) newOwned;
               lost = filter (\<lambda>p. p \<notin> set newOwned) (sh_owned s);
               s1 = fold releasePartition lost (s\<lparr>sh_owned := newOwned\<rparr>)
           in fold (claimPartition engine byPartition) gained ([], s1)))"

definition shard_shutdown :: "Shard \<Rightarrow> Shard" where
  "shard_shutdown s = s\<lparr>sh_subs := []\<rparr>"

definition tenantCtx :: "gctx \<Rightarrow> string \<Rightarrow> gctx" where
  "tenantCtx ctx tenantID = (case WithTenant ctx tenantID of Inl e \<Rightarrow> ctx | Inr c \<Rightarrow> c)"

section \<open>Rendezvous hashing\<close>

definition beats :: "nat \<Rightarrow> string \<Rightarrow> string \<Rightarrow> bool" where
  "beats p s t = (weight t p < weight s p \<or> weight t p = weight s p \<and> s \<le> t)"

lemma beats_refl [simp]: "beats p s s"
  by (simp add: beats_def)

lemma beats_trans: "beats p s t \<Longrightarrow> beats p t u \<Longrightarrow> beats p s u"
  by (auto simp: beats_def)

lemma beats_antisym: "beats p s t \<Longrightarrow> beats p t s \<Longrightarrow> s = t"
  by (auto simp: beats_def)

lemma beats_total: "beats p s t \<or> beats p t s"
  by (auto simp: beats_def)

lemma owner_fold:
  assumes "[] \<notin> set live" and "best \<noteq> []"
  shows "\<exists>b. fold (owner_step p) live (best, weight best p) = (b, weight b p) \<and> b \<in> insert best (set live)
    \<and> (\<forall>t \<in> insert best (set live). beats p b t)"
  using assms
proof (induction live arbitrary: best)
  case (Cons s live)
  have ne: "s \<noteq> []" "[] \<notin> set live" using Cons.prems(1) by auto
  show ?case
  proof (cases "weight s p > weight best p \<or> weight s p = weight best p \<and> s < best")
    case True
    then have step: "owner_step p s (best, weight best p) = (s, weight s p)"
      using Cons.prems(2) by (auto simp: owner_step_def Let_def)
    have sb: "beats p s best" using True by (auto simp: beats_def)
    from Cons.IH [OF ne(2,1)] obtain b where b: "fold (owner_step p) live (s, weight s p) = (b, weight b p)"
        "b \<in> insert s (set live)" "\<forall>t \<in> insert s (set live). beats p b t" by blast
    then have "beats p b best" using sb beats_trans by blast
    then show ?thesis using b step by (intro exI [of _ b]) simp
  next
    case False
    then have step: "owner_step p s (best, weight best p) = (best, weight best p)"
      using Cons.prems(2) by (auto simp: owner_step_def Let_def)
    have sb: "beats p best s" using False by (auto simp: beats_def)
    from Cons.IH [OF ne(2) Cons.prems(2)] obtain b where
        b: "fold (owner_step p) live (best, weight best p) = (b, weight b p)"
        "b \<in> insert best (set live)" "\<forall>t \<in> insert best (set live). beats p b t" by blast
    then have "beats p b s" using sb beats_trans by blast
    then show ?thesis using b step by (intro exI [of _ b]) auto
  qed
qed simp

lemma Owner_best:
  assumes "[] \<notin> set live" and "live \<noteq> []"
  shows "Owner p live \<in> set live \<and> (\<forall>t \<in> set live. beats p (Owner p live) t)"
proof -
  obtain s rest where l: "live = s # rest" using assms(2) by (cases live) auto
  have "owner_step p s ([], 0) = (s, weight s p)" by (simp add: owner_step_def Let_def)
  moreover have "[] \<notin> set rest" "s \<noteq> []" using assms(1) by (auto simp: l)
  ultimately show ?thesis using owner_fold [of rest s p] by (auto simp: l Owner_def)
qed

lemma Owner_unique:
  assumes "[] \<notin> set live" and "s \<in> set live" and "\<forall>t \<in> set live. beats p s t"
  shows "Owner p live = s"
  using Owner_best [of live p] assms beats_antisym by (metis empty_iff list.set(1))

text \<open>
  Rendezvous hashing moves as little as possible: the owner of a partition depends
  only on which shards are live, not on their order, and as long as it stays live it
  keeps the partition whichever other shards leave.
\<close>

theorem owner_minimal_churn:
  assumes "[] \<notin> set live" and "set live' \<subseteq> set live" and "Owner p live \<in> set live'"
  shows "Owner p live' = Owner p live"
proof (rule Owner_unique)
  have "live \<noteq> []" using assms(2,3) by auto
  then show "\<forall>t \<in> set live'. beats p (Owner p live) t" using Owner_best [OF assms(1)] assms(2) by blast
qed (use assms in auto)

theorem owner_minimal_churn_witness:
  "Owner 7 [''b'', ''a''] = Owner 7 [''a'', ''b'']"
proof (rule owner_minimal_churn)
  show "Owner 7 [''a'', ''b''] \<in> set [''b'', ''a'']" using Owner_best [of "[''a'', ''b'']" 7] by auto
qed auto

section \<open>Ownership and failover\<close>

text \<open>The subscriptions a shard serves are those registered in a set of partitions.\<close>

definition holds_subs :: "subreg \<Rightarrow> nat set \<Rightarrow> Shard \<Rightarrow> bool" where
  "holds_subs rs K s =
     (wf_map (sh_subs s)
      \<and> (\<forall>sid. mget (sh_subs s) sid =
            (case mget rs sid of None \<Rightarrow> None | Some reg \<Rightarrow> if rg_partition reg \<in> K then Some reg else None)))"

definition serves_registry :: "subreg \<Rightarrow> Shard \<Rightarrow> bool" where
  "serves_registry rs s = holds_subs rs (set (sh_owned s)) s"

text \<open>What the registry port promises, and an engine that accepts every query.\<close>

definition lists_registry :: "subreg \<Rightarrow> (nat \<Rightarrow> gerr + Registration list) \<Rightarrow> bool" where
  "lists_registry rs byPartition =
     (\<forall>p. \<exists>regs. byPartition p = Inr regs
        \<and> set regs = {reg. mget rs (rg_sub reg) = Some reg \<and> rg_partition reg = p})"

definition accepts_all :: "(Registration \<Rightarrow> gerr + Row list) \<Rightarrow> bool" where
  "accepts_all engine = (\<forall>reg. \<exists>rows. engine reg = Inr rows)"

definition keyed :: "subreg \<Rightarrow> bool" where
  "keyed rs = (\<forall>sid reg. mget rs sid = Some reg \<longrightarrow> rg_sub reg = sid \<and> rg_partition reg < Partitions)"

lemma mget_filter_val:
  "wf_map m \<Longrightarrow> mget (filter (\<lambda>(k, v). P v) m) k = (case mget m k of None \<Rightarrow> None | Some v \<Rightarrow> if P v then Some v else None)"
proof (induction m)
  case (Cons kv m)
  obtain a b where kv: "kv = (a, b)" by (cases kv) auto
  have "mget m a = None" using Cons.prems by (simp add: kv wf_map_def map_of_eq_None_iff)
  moreover have "wf_map m" using Cons.prems by (simp add: wf_map_def)
  ultimately show ?case using Cons.IH by (cases "k = a") (simp_all add: kv)
qed simp

lemma release_holds: "holds_subs rs K s \<Longrightarrow> holds_subs rs (K - {p}) (releasePartition p s)"
  by (auto simp: holds_subs_def releasePartition_def mget_filter_val split: option.splits)

lemma release_all:
  "holds_subs rs K s \<Longrightarrow> holds_subs rs (K - set ps) (fold releasePartition ps s)
     \<and> sh_id (fold releasePartition ps s) = sh_id s \<and> sh_owned (fold releasePartition ps s) = sh_owned s"
proof (induction ps arbitrary: K s)
  case (Cons p ps)
  have "K - {p} - set ps = K - set (p # ps)" by auto
  then show ?case using Cons.IH [OF release_holds [OF Cons.prems, of p]] by (simp add: releasePartition_def)
qed simp

lemma claim_one_get:
  assumes "engine reg = Inr rows"
  shows "mget (sh_subs (snd (claim_one engine reg (out, s)))) sid =
      (if sid = rg_sub reg \<and> mget (sh_subs s) sid = None then Some reg else mget (sh_subs s) sid)
    \<and> (wf_map (sh_subs s) \<longrightarrow> wf_map (sh_subs (snd (claim_one engine reg (out, s)))))
    \<and> sh_id (snd (claim_one engine reg (out, s))) = sh_id s \<and> sh_owned (snd (claim_one engine reg (out, s))) = sh_owned s"
  using assms by (auto simp: claim_one_def startSub_def)

lemma claim_fold:
  assumes "accepts_all engine" and "keyed rs" and "holds_subs rs K s"
    and "\<forall>reg \<in> set regs. mget rs (rg_sub reg) = Some reg"
  shows "let s' = snd (fold (claim_one engine) regs (out, s))
    in wf_map (sh_subs s') \<and> sh_id s' = sh_id s \<and> sh_owned s' = sh_owned s
     \<and> (\<forall>sid. mget (sh_subs s') sid =
          (case mget rs sid of None \<Rightarrow> None | Some reg \<Rightarrow> if rg_partition reg \<in> K \<or> reg \<in> set regs then Some reg else None))"
  using assms(4)
proof (induction regs rule: rev_induct)
  case Nil
  then show ?case using assms(3) by (auto simp: holds_subs_def split: option.split)
next
  case (snoc reg regs)
  obtain out1 s1 where f: "fold (claim_one engine) regs (out, s) = (out1, s1)" by (rule prod.exhaust)
  obtain rows where rows: "engine reg = Inr rows" using assms(1) unfolding accepts_all_def by blast
  have IH: "wf_map (sh_subs s1)" "sh_id s1 = sh_id s" "sh_owned s1 = sh_owned s"
    "\<And>sid. mget (sh_subs s1) sid =
      (case mget rs sid of None \<Rightarrow> None | Some r \<Rightarrow> if rg_partition r \<in> K \<or> r \<in> set regs then Some r else None)"
    using snoc by (simp_all add: f Let_def)
  have reg: "mget rs (rg_sub reg) = Some reg" using snoc.prems by simp
  have "mget (sh_subs (snd (claim_one engine reg (out1, s1)))) sid =
      (case mget rs sid of None \<Rightarrow> None | Some r \<Rightarrow> if rg_partition r \<in> K \<or> r \<in> set (regs @ [reg]) then Some r else None)" for sid
  proof (cases "sid = rg_sub reg")
    case True
    then show ?thesis using claim_one_get [of engine reg rows out1 s1 sid, OF rows] IH(4) [of sid] reg by simp
  next
    case False
    then have "mget rs sid = Some r \<Longrightarrow> r \<noteq> reg" for r using assms(2) by (auto simp: keyed_def)
    then show ?thesis
      using claim_one_get [of engine reg rows out1 s1 sid, OF rows] IH(4) [of sid] False
      by (cases "mget rs sid") simp_all
  qed
  then show ?case using claim_one_get [of engine reg rows out1 s1, OF rows] IH by (simp add: f Let_def)
qed

lemma claim_partition:
  assumes "accepts_all engine" and "keyed rs" and "lists_registry rs byPartition" and "holds_subs rs K s"
  shows "holds_subs rs (insert p K) (snd (claimPartition engine byPartition p (out, s)))
    \<and> sh_id (snd (claimPartition engine byPartition p (out, s))) = sh_id s
    \<and> sh_owned (snd (claimPartition engine byPartition p (out, s))) = sh_owned s"
proof -
  obtain regs where r: "byPartition p = Inr regs"
      and set: "set regs = {reg. mget rs (rg_sub reg) = Some reg \<and> rg_partition reg = p}"
    using assms(3) unfolding lists_registry_def by blast
  note c = claim_fold [OF assms(1,2,4), where regs = regs and out = out, unfolded Let_def]
  have "(if rg_partition reg \<in> K \<or> reg \<in> set regs then Some reg else None)
      = (if rg_partition reg \<in> insert p K then Some reg else None)" if "mget rs sid = Some reg" for sid reg
    using that assms(2) set by (auto simp: keyed_def)
  then show ?thesis using c set by (auto simp: claimPartition_def r holds_subs_def split: option.splits)
qed

lemma claim_partitions:
  assumes "accepts_all engine" and "keyed rs" and "lists_registry rs byPartition" and "holds_subs rs K s"
  shows "holds_subs rs (K \<union> set ps) (snd (fold (claimPartition engine byPartition) ps (out, s)))
    \<and> sh_id (snd (fold (claimPartition engine byPartition) ps (out, s))) = sh_id s
    \<and> sh_owned (snd (fold (claimPartition engine byPartition) ps (out, s))) = sh_owned s"
  using assms(4)
proof (induction ps arbitrary: K out s)
  case (Cons p ps)
  obtain out1 s1 where c: "claimPartition engine byPartition p (out, s) = (out1, s1)" by (rule prod.exhaust)
  have "holds_subs rs (insert p K) s1" "sh_id s1 = sh_id s" "sh_owned s1 = sh_owned s"
    using claim_partition [OF assms(1-3) Cons.prems, where p = p and out = out] by (simp_all add: c)
  then show ?case using Cons.IH [of "insert p K" s1 out1] by (simp add: c)
qed simp

lemma reconcile_keeps:
  assumes "accepts_all engine" and "keyed rs" and "lists_registry rs byPartition"
    and "serves_registry rs s"
  shows "serves_registry rs (snd (reconcileOwnership engine byPartition (Inr live) s))
    \<and> set (sh_owned (snd (reconcileOwnership engine byPartition (Inr live) s))) = {p. p < Partitions \<and> Owns (sh_id s) p live}"
proof -
  let ?new = "filter (\<lambda>p. Owns (sh_id s) p live) [0..<Partitions]"
  let ?lost = "filter (\<lambda>p. p \<notin> set ?new) (sh_owned s)"
  let ?gained = "filter (\<lambda>p. p \<notin> set (sh_owned s)) ?new"
  define s1 where "s1 = fold releasePartition ?lost (s\<lparr>sh_owned := ?new\<rparr>)"
  have "holds_subs rs (set (sh_owned s)) (s\<lparr>sh_owned := ?new\<rparr>)"
    using assms(4) by (simp add: serves_registry_def holds_subs_def)
  from release_all [OF this, of ?lost] have s1: "holds_subs rs (set (sh_owned s) - set ?lost) s1" "sh_owned s1 = ?new"
    by (simp_all add: s1_def)
  note c = claim_partitions [OF assms(1-3) s1(1), where ps = ?gained and out = "[]"]
  have "set (sh_owned s) - set ?lost \<union> set ?gained = set ?new" by auto
  then show ?thesis using c s1(2) by (auto simp: serves_registry_def reconcileOwnership_def Let_def s1_def)
qed


definition asset_reg :: Registration where
  "asset_reg = \<lparr>rg_sub = ''gw-1'', rg_tenant = ''acme'', rg_entity = ''asset'', rg_partition = 5, rg_mode = ModeMaintained,
     rg_query = empty_query, rg_gateway = ''gw'', rg_watermark = []\<rparr>"


lemma fold_claim_owned:
  "sh_owned (snd (fold (claimPartition engine byPartition) ps (out, s))) = sh_owned s
   \<and> sh_id (snd (fold (claimPartition engine byPartition) ps (out, s))) = sh_id s"
proof -
  have one: "sh_owned (snd (claim_one engine reg st)) = sh_owned (snd st) \<and> sh_id (snd (claim_one engine reg st)) = sh_id (snd st)" for reg st
    by (auto simp: claim_one_def startSub_def split: prod.splits sum.splits)
  have "sh_owned (snd (fold (claim_one engine) regs st)) = sh_owned (snd st) \<and> sh_id (snd (fold (claim_one engine) regs st)) = sh_id (snd st)" for regs st
    by (induction regs arbitrary: st) (simp_all add: one)
  then have "sh_owned (snd (claimPartition engine byPartition p st)) = sh_owned (snd st)
      \<and> sh_id (snd (claimPartition engine byPartition p st)) = sh_id (snd st)" for p st
    by (simp add: claimPartition_def split: sum.split)
  then have "sh_owned (snd (fold (claimPartition engine byPartition) ps st)) = sh_owned (snd st)
      \<and> sh_id (snd (fold (claimPartition engine byPartition) ps st)) = sh_id (snd st)" for st
    by (induction ps arbitrary: st) simp_all
  then show ?thesis by (metis snd_conv)
qed

lemma fold_release_owned:
  "sh_owned (fold releasePartition ps s) = sh_owned s \<and> sh_id (fold releasePartition ps s) = sh_id s"
  by (induction ps arbitrary: s) (simp_all add: releasePartition_def)

lemma reconcile_eq:
  assumes "filter (\<lambda>p. Owns (sh_id s) p live) [0..<Partitions] = n"
  shows "reconcileOwnership engine byPartition (Inr live) s =
    fold (claimPartition engine byPartition) (filter (\<lambda>p. p \<notin> set (sh_owned s)) n)
      ([], fold releasePartition (filter (\<lambda>p. p \<notin> set n) (sh_owned s)) (s\<lparr>sh_owned := n\<rparr>))"
  unfolding reconcileOwnership_def sum.case Let_def assms by (rule refl)

text \<open>
  A failed claim is never retried: once a shard has reconciled against a list of live
  shards, reconciling again against the same list does nothing, whatever the registry and
  the engine answered the first time and would answer now.
\<close>

theorem claim_failure_not_retried:
  "reconcileOwnership engine' byPartition' (Inr live) (snd (reconcileOwnership engine byPartition (Inr live) s))
     = ([], snd (reconcileOwnership engine byPartition (Inr live) s))"
proof -
  define t where "t = snd (reconcileOwnership engine byPartition (Inr live) s)"
  have "sh_owned t = filter (\<lambda>p. Owns (sh_id s) p live) [0..<Partitions] \<and> sh_id t = sh_id s"
    by (simp add: t_def reconcileOwnership_def Let_def fold_claim_owned fold_release_owned)
  then have o: "sh_owned t = filter (\<lambda>p. Owns (sh_id t) p live) [0..<Partitions]" by simp
  moreover have "t\<lparr>sh_owned := sh_owned t\<rparr> = t" by (cases t) simp
  moreover have "filter (\<lambda>p. p \<notin> set (sh_owned t)) (sh_owned t) = []" by (simp add: filter_empty_conv)
  ultimately have "reconcileOwnership engine' byPartition' (Inr live) t = ([], t)"
    using reconcile_eq [of t live "sh_owned t"] by simp
  then show ?thesis by (simp add: t_def)
qed

text \<open>
  Control messages keep a shard whose ownership is current in step with the registry, so
  the hypotheses of failover are those every shard re-establishes.
\<close>

lemma PartitionOf_bound: "PartitionOf tenantID entity < Partitions"
  by (simp add: PartitionOf_def Partitions_def)

lemma control_keeps_service:
  assumes "accepts_all engine" and "keyed rs" and "serves_registry rs s"
    and "set (sh_owned s) = {p. p < Partitions \<and> Owns (sh_id s) p live}"
    and "handleControl engine reanchor live c (s, rs) = (out, s', rs')"
  shows "keyed rs' \<and> serves_registry rs' s' \<and> sh_owned s' = sh_owned s \<and> sh_id s' = sh_id s"
proof -
  have known: "mget (sh_subs s) sid = Some reg \<Longrightarrow> mget rs sid = Some reg \<and> rg_partition reg \<in> set (sh_owned s)
      \<and> rg_sub reg = sid" for sid reg
    using assms(2,3) by (auto simp: keyed_def serves_registry_def holds_subs_def split: option.splits if_splits)
  show ?thesis
  proof (cases "ct_op c")
  case OpSubscribe
  let ?p = "PartitionOf (ct_tenant c) (lq_entity (ct_query c))"
  show ?thesis
  proof (cases "Owns (sh_id s) ?p live")
    case True
    let ?reg = "\<lparr>rg_sub = ct_sub c, rg_tenant = ct_tenant c, rg_entity = lq_entity (ct_query c), rg_partition = ?p,
      rg_mode = lq_mode (ct_query c), rg_query = ct_query c, rg_gateway = ct_gateway c, rg_watermark = []\<rparr>"
    obtain rows where "engine ?reg = Inr rows" using assms(1) unfolding accepts_all_def by blast
    then have "s' = s\<lparr>sh_subs := mput (ct_sub c) ?reg (sh_subs s)\<rparr>" "rs' = mput (ct_sub c) ?reg rs"
      using assms(5) OpSubscribe True by (auto simp: handleControl_def Let_def startSub_def)
    moreover have "?p \<in> set (sh_owned s)" using True assms(4) PartitionOf_bound by simp
    ultimately show ?thesis
      using assms(2,3) PartitionOf_bound by (auto simp: keyed_def serves_registry_def holds_subs_def)
  qed (use assms OpSubscribe in \<open>auto simp: handleControl_def Let_def\<close>)
next
  case OpReanchor
  show ?thesis
  proof (cases "mget (sh_subs s) (ct_sub c)")
    case (Some reg)
    then have r: "mget rs (ct_sub c) = Some reg" "rg_partition reg \<in> set (sh_owned s)" "rg_sub reg = ct_sub c"
      using assms(2) known by auto
    show ?thesis
    proof (cases "reanchor reg (ct_cursor c) (ct_limit c)")
      case (Inr rows)
      let ?reg = "reg\<lparr>rg_query := reanchor_query (ct_cursor c) (ct_limit c) (rg_query reg)\<rparr>"
      have "s' = s\<lparr>sh_subs := mput (ct_sub c) ?reg (sh_subs s)\<rparr>" "rs' = mput (ct_sub c) ?reg rs"
        using assms(5) OpReanchor Some Inr r by (auto simp: handleControl_def Let_def)
      then show ?thesis using r assms(2,3) by (auto simp: keyed_def serves_registry_def holds_subs_def)
    qed (use assms OpReanchor Some in \<open>auto simp: handleControl_def\<close>)
  qed (use assms OpReanchor in \<open>auto simp: handleControl_def\<close>)
next
  case OpUnsubscribe
  show ?thesis
  proof (cases "mget (sh_subs s) (ct_sub c)")
    case (Some reg)
    then have "s' = s\<lparr>sh_subs := mdel (ct_sub c) (sh_subs s)\<rparr>" "rs' = mdel (ct_sub c) rs"
      using assms(5) OpUnsubscribe by (auto simp: handleControl_def)
    then show ?thesis using assms(2,3) by (auto simp: keyed_def serves_registry_def holds_subs_def)
  qed (use assms OpUnsubscribe in \<open>auto simp: handleControl_def\<close>)
next
  case (OpUnknown op)
  then show ?thesis using assms by (simp add: handleControl_def)
qed
qed

end
