(* ===== verification/Catalog.thy ===== *)
theory Catalog
  imports Tenant
begin

text \<open>
  The tenant catalog of database-per-tenant deployments: \<^verbatim>\<open>core/catalog/catalog.go\<close>
  (lifecycle states, entries, the port), \<^verbatim>\<open>core/catalog/failover.go\<close> (reads that
  fall through to replicas) and \<^verbatim>\<open>core/fabriqtest/fake_catalog.go\<close> (the in-memory
  catalog every store is compared with). The contract of the port is the locale
  \<open>catalog_contract\<close>, interpreted on the in-memory catalog. An instant is a number of
  microseconds and the zero instant is 0.
\<close>

section \<open>Entries\<close>

datatype CState = StatePending | StateCreating | StateMigrating | StateActive
  | StateSuspended | StateFailed | StateOther string

fun state_str :: "CState \<Rightarrow> string" where
  "state_str StatePending = ''pending''"
| "state_str StateCreating = ''creating''"
| "state_str StateMigrating = ''migrating''"
| "state_str StateActive = ''active''"
| "state_str StateSuspended = ''suspended''"
| "state_str StateFailed = ''failed''"
| "state_str (StateOther s) = s"

fun State_Valid :: "CState \<Rightarrow> bool" where
  "State_Valid (StateOther s) = False"
| "State_Valid _ = True"

record Entry =
  ce_tenant :: string
  ce_cluster :: string
  ce_database :: string
  ce_state :: CState
  ce_version :: string
  ce_schema :: string
  ce_updated :: int
  ce_fromreplica :: bool

definition ShardID :: "Entry \<Rightarrow> string" where
  "ShardID e = ce_cluster e @ ''/'' @ ce_database e"

text \<open>The port; what a store holds is the type \<open>'w\<close>.\<close>

record 'w Catalog_port =
  cat_Get :: "string \<Rightarrow> 'w \<Rightarrow> gerr + Entry"
  cat_Put :: "Entry \<Rightarrow> 'w \<Rightarrow> (gerr + Entry) \<times> 'w"
  cat_List :: "string \<Rightarrow> int \<Rightarrow> 'w \<Rightarrow> gerr + Entry list \<times> string"

definition ValidateEntry :: "Entry \<Rightarrow> gerr option" where
  "ValidateEntry e =
     (if ce_tenant e = [] \<or> ce_cluster e = [] \<or> ce_database e = []
      then Some (err_new CodeInvalidInput ''catalog entries require tenantId, clusterId and database.'' [])
      else if \<not> State_Valid (ce_state e)
      then Some (err_new CodeInvalidInput ''unknown catalog state.''
             [WithMeta (zero_meta\<lparr>mt_detail := [(''state'', state_str (ce_state e))]\<rparr>)])
      else if ce_schema e \<noteq> [] \<and> \<not> ValidSchema (ce_schema e)
      then Some (err_new CodeInvalidInput ''catalog schema is malformed.''
             [WithMeta (zero_meta\<lparr>mt_detail := [(''schema'', ce_schema e)]\<rparr>)])
      else None)"

section \<open>Failover\<close>

definition DegradedMetaKey :: string where
  "DegradedMetaKey = ''catalog''"

definition DegradedMetaValue :: string where
  "DegradedMetaValue = ''degraded''"

definition MarkDegradedDetail :: "string gomap \<Rightarrow> string gomap" where
  "MarkDegradedDetail detail = mput DegradedMetaKey DegradedMetaValue detail"

definition degraded :: "string \<Rightarrow> gerr" where
  "degraded tenantID =
     err_new CodeNotFound ''tenant not found on a catalog replica (primary unreachable; may be stale).''
       [WithEntity ''tenant'' tenantID, WithMeta (zero_meta\<lparr>mt_detail := MarkDegradedDetail []\<rparr>)]"

definition IsDegraded :: "gerr \<Rightarrow> bool" where
  "IsDegraded err =
     (case as_coded err of
        Some e \<Rightarrow> mget_or [] (mt_detail (er_meta e)) DegradedMetaKey = DegradedMetaValue
      | None \<Rightarrow> False)"

text \<open>The wrapped stores and the three read counters.\<close>

record 'w Failover =
  fo_primary :: "'w Catalog_port"
  fo_replicas :: "'w Catalog_port list"
  fo_primaryReads :: int
  fo_replicaReads :: int
  fo_failoverReads :: int

definition NewFailover :: "'w Catalog_port \<Rightarrow> 'w Catalog_port list \<Rightarrow> 'w Failover" where
  "NewFailover primary replicas =
     \<lparr>fo_primary = primary, fo_replicas = replicas, fo_primaryReads = 0, fo_replicaReads = 0,
      fo_failoverReads = 0\<rparr>"

definition primaryDefinitive :: "gerr option \<Rightarrow> bool" where
  "primaryDefinitive err = (err = None \<or> CodeOf_nil err = CodeNotFound)"

definition err_of :: "gerr + 'a \<Rightarrow> gerr option" where
  "err_of r = (case r of Inl e \<Rightarrow> Some e | Inr _ \<Rightarrow> None)"

definition count_failover :: "'w Failover \<Rightarrow> 'w Failover" where
  "count_failover f =
     f\<lparr>fo_replicaReads := inc64 (fo_replicaReads f), fo_failoverReads := inc64 (fo_failoverReads f)\<rparr>"

text \<open>The loop over the replicas: the first that answers decides.\<close>

fun failover_walk :: "'w Catalog_port list \<Rightarrow> gerr \<Rightarrow> string \<Rightarrow> 'w \<Rightarrow> 'w Failover \<Rightarrow> (gerr + Entry) \<times> 'w Failover" where
  "failover_walk [] primaryErr tenantID w f = (Inl primaryErr, f)"
| "failover_walk (r # rs) primaryErr tenantID w f =
     (case cat_Get r tenantID w of
        Inr re \<Rightarrow> (Inr (re\<lparr>ce_fromreplica := True\<rparr>), count_failover f)
      | Inl rerr \<Rightarrow>
          if CodeOf rerr = CodeNotFound then (Inl (degraded tenantID), count_failover f)
          else failover_walk rs primaryErr tenantID w f)"

definition Failover_Get :: "'w Failover \<Rightarrow> string \<Rightarrow> 'w \<Rightarrow> (gerr + Entry) \<times> 'w Failover" where
  "Failover_Get f tenantID w =
     (let r = cat_Get (fo_primary f) tenantID w
      in if primaryDefinitive (err_of r)
         then (r, f\<lparr>fo_primaryReads := inc64 (fo_primaryReads f)\<rparr>)
         else (case r of
                 Inl primaryErr \<Rightarrow> failover_walk (fo_replicas f) primaryErr tenantID w f
               | Inr _ \<Rightarrow> (r, f)))"

fun failover_list_walk :: "'w Catalog_port list \<Rightarrow> gerr \<Rightarrow> string \<Rightarrow> int \<Rightarrow> 'w \<Rightarrow> gerr + Entry list \<times> string" where
  "failover_list_walk [] primaryErr cursor limit w = Inl primaryErr"
| "failover_list_walk (r # rs) primaryErr cursor limit w =
     (case cat_List r cursor limit w of
        Inr p \<Rightarrow> Inr p
      | Inl _ \<Rightarrow> failover_list_walk rs primaryErr cursor limit w)"

definition Failover_List :: "'w Failover \<Rightarrow> string \<Rightarrow> int \<Rightarrow> 'w \<Rightarrow> gerr + Entry list \<times> string" where
  "Failover_List f cursor limit w =
     (case cat_List (fo_primary f) cursor limit w of
        Inr p \<Rightarrow> Inr p
      | Inl primaryErr \<Rightarrow> failover_list_walk (fo_replicas f) primaryErr cursor limit w)"

definition Failover_Put :: "'w Failover \<Rightarrow> Entry \<Rightarrow> 'w \<Rightarrow> (gerr + Entry) \<times> 'w" where
  "Failover_Put f e w = cat_Put (fo_primary f) e w"

definition ReadStats :: "'w Failover \<Rightarrow> int \<times> int \<times> int" where
  "ReadStats f = (fo_primaryReads f, fo_replicaReads f, fo_failoverReads f)"

section \<open>The in-memory catalog\<close>

record FakeCatalog =
  fc_entries :: "Entry gomap"
  fc_clock :: int

definition NewFakeCatalog :: "int \<Rightarrow> FakeCatalog" where
  "NewFakeCatalog now = \<lparr>fc_entries = [], fc_clock = now\<rparr>"

definition FakeCatalog_tick :: "FakeCatalog \<Rightarrow> int \<times> FakeCatalog" where
  "FakeCatalog_tick f = (fc_clock f + 1, f\<lparr>fc_clock := fc_clock f + 1\<rparr>)"

definition FakeCatalog_Get :: "string \<Rightarrow> FakeCatalog \<Rightarrow> gerr + Entry" where
  "FakeCatalog_Get tenantID f =
     (case mget (fc_entries f) tenantID of
        None \<Rightarrow> Inl (err_new CodeNotFound ''tenant is not in the catalog.'' [WithEntity ''tenant'' tenantID])
      | Some e \<Rightarrow> Inr e)"

definition FakeCatalog_Put :: "Entry \<Rightarrow> FakeCatalog \<Rightarrow> (gerr + Entry) \<times> FakeCatalog" where
  "FakeCatalog_Put e f =
     (case ValidateEntry e of
        Some err \<Rightarrow> (Inl err, f)
      | None \<Rightarrow>
          let stored = mget (fc_entries f) (ce_tenant e)
          in if ce_updated e = 0 \<and> stored \<noteq> None
             then (Inl (err_new CodeAlreadyExists ''tenant is already in the catalog.''
                     [WithEntity ''tenant'' (ce_tenant e)]), f)
             else if ce_updated e \<noteq> 0 \<and> (stored = None \<or> map_option ce_updated stored \<noteq> Some (ce_updated e))
             then (Inl (err_new CodeVersionConflict ''catalog entry was modified concurrently.''
                     [WithEntity ''tenant'' (ce_tenant e)]), f)
             else (case FakeCatalog_tick f of (now, f') \<Rightarrow>
                     let e' = e\<lparr>ce_updated := now\<rparr>
                     in (Inr e', f'\<lparr>fc_entries := mput (ce_tenant e) e' (fc_entries f')\<rparr>)))"

text \<open>The tenants after the cursor, in order.\<close>

definition list_ids :: "string \<Rightarrow> FakeCatalog \<Rightarrow> string list" where
  "list_ids cursor f = sort (filter (\<lambda>i. cursor < i) (map fst (fc_entries f)))"

definition FakeCatalog_List :: "string \<Rightarrow> int \<Rightarrow> FakeCatalog \<Rightarrow> gerr + Entry list \<times> string" where
  "FakeCatalog_List cursor limit f =
     (let limit = (if limit \<le> 0 then 100 else limit);
          ids = take (nat limit) (list_ids cursor f);
          out = map (\<lambda>i. the (mget (fc_entries f) i)) ids;
          next = (if int (length ids) = limit \<and> ids \<noteq> [] then last ids else [])
      in Inr (out, next))"

definition fake_catalog :: "FakeCatalog Catalog_port" where
  "fake_catalog =
     \<lparr>cat_Get = FakeCatalog_Get, cat_Put = FakeCatalog_Put, cat_List = FakeCatalog_List\<rparr>"

text \<open>The paging loop of the port's clients; an error of a page ends it.\<close>

partial_function (option) list_loop :: "'w Catalog_port \<Rightarrow> int \<Rightarrow> 'w \<Rightarrow> string \<Rightarrow> Entry list \<Rightarrow> (gerr + Entry list) option" where
  "list_loop cat limit w cursor acc =
     (case cat_List cat cursor limit w of
        Inl err \<Rightarrow> Some (Inl err)
      | Inr (page, next) \<Rightarrow>
          if next = [] then Some (Inr (acc @ page))
          else list_loop cat limit w next (acc @ page))"

section \<open>The contract of the port\<close>

text \<open>
  What the comments of the port promise, of every store: a write is a compare-and-swap
  on the token, it changes the one tenant, a refused write changes nothing, and tokens
  are fresh (\<open>stamp\<close> bounds every token in use). \<open>ok\<close> is the store's invariant.
\<close>

definition cas_matches :: "(string \<Rightarrow> 'w \<Rightarrow> gerr + Entry) \<Rightarrow> Entry \<Rightarrow> 'w \<Rightarrow> bool" where
  "cas_matches cget e w =
     (case cget (ce_tenant e) w of
        Inl _ \<Rightarrow> ce_updated e = 0
      | Inr s \<Rightarrow> ce_updated e \<noteq> 0 \<and> ce_updated s = ce_updated e)"

text \<open>What other clients of the catalog do meanwhile: any sequence of writes.\<close>

fun writes :: "(Entry \<Rightarrow> 'w \<Rightarrow> (gerr + Entry) \<times> 'w) \<Rightarrow> Entry list \<Rightarrow> 'w \<Rightarrow> 'w" where
  "writes cput [] w = w"
| "writes cput (e # es) w = writes cput es (snd (cput e w))"

locale catalog_contract =
  fixes cget :: "string \<Rightarrow> 'w \<Rightarrow> gerr + Entry"
    and cput :: "Entry \<Rightarrow> 'w \<Rightarrow> (gerr + Entry) \<times> 'w"
    and stamp :: "'w \<Rightarrow> int"
    and ok :: "'w \<Rightarrow> bool"
  assumes get_absent: "cget t w = Inl err \<Longrightarrow> CodeOf err = CodeNotFound"
    and get_present: "ok w \<Longrightarrow> cget t w = Inr e \<Longrightarrow>
          ce_tenant e = t \<and> 0 < ce_updated e \<and> ce_updated e \<le> stamp w \<and> ValidateEntry e = None"
    and put_refused: "cput e w = (Inl err, w') \<Longrightarrow> w' = w"
    and put_written: "ok w \<Longrightarrow> cput e w = (Inr e', w') \<Longrightarrow>
          e' = e\<lparr>ce_updated := stamp w'\<rparr> \<and> stamp w < stamp w' \<and> ok w' \<and> cas_matches cget e w
          \<and> cget (ce_tenant e) w' = Inr e'"
    and put_frame: "cput e w = (Inr e', w') \<Longrightarrow> t \<noteq> ce_tenant e \<Longrightarrow> cget t w' = cget t w"
    and put_accepted: "ok w \<Longrightarrow> ValidateEntry e = None \<Longrightarrow> cas_matches cget e w \<Longrightarrow>
          \<exists>e' w'. cput e w = (Inr e', w')"
begin

lemma put_ok: "ok w \<Longrightarrow> ok (snd (cput e w))"
proof -
  assume a: "ok w"
  obtain r w' where p: "cput e w = (r, w')" by fastforce
  show ?thesis
  proof (cases r)
    case (Inl err) then show ?thesis using p a put_refused [of e w err w'] by simp
  next
    case (Inr e') then show ?thesis using p put_written [OF a, of e e' w'] by simp
  qed
qed

lemma writes_ok: "ok w \<Longrightarrow> ok (writes cput es w)"
  by (induction es arbitrary: w) (simp_all add: put_ok)

text \<open>A tenant's entry either is the same after other writes or has a newer token.\<close>

lemma put_token:
  assumes "ok w" "cget t w = Inr s"
  obtains s' where "cget t (snd (cput e w)) = Inr s'" "s' = s \<or> stamp w < ce_updated s'"
    "stamp w \<le> stamp (snd (cput e w))"
proof -
  obtain r w' where p: "cput e w = (r, w')" by fastforce
  show ?thesis
  proof (cases r)
    case (Inl err)
    then show ?thesis using p assms put_refused [of e w err w'] that [of s] by simp
  next
    case (Inr e')
    have p': "cput e w = (Inr e', w')" using p Inr by simp
    note wr = put_written [OF assms(1) p']
    show ?thesis
    proof (cases "t = ce_tenant e")
      case True then show ?thesis using wr p' that [of e'] by simp
    next
      case False
      then show ?thesis using put_frame [OF p' False] wr p' assms(2) that [of s] by simp
    qed
  qed
qed

lemma writes_token:
  assumes "ok w" "cget t w = Inr s"
  shows "\<exists>s'. cget t (writes cput es w) = Inr s' \<and> (s' = s \<or> stamp w < ce_updated s')"
  using assms
proof (induction es arbitrary: w s)
  case Nil then show ?case by simp
next
  case (Cons e es)
  obtain s1 where 1: "cget t (snd (cput e w)) = Inr s1" "s1 = s \<or> stamp w < ce_updated s1"
    "stamp w \<le> stamp (snd (cput e w))"
    by (rule put_token [OF Cons.prems])
  obtain s2 where "cget t (writes cput es (snd (cput e w))) = Inr s2"
    "s2 = s1 \<or> stamp (snd (cput e w)) < ce_updated s2"
    using Cons.IH [OF put_ok [OF Cons.prems(1)] 1(1)] by blast
  then show ?case using 1 by (cases "s2 = s1") auto
qed

text \<open>
  The heart of the optimistic protocol: a client that read or wrote an entry, was
  interrupted by other writes and whose next write is accepted was not overtaken.
\<close>

lemma cas_not_overtaken:
  assumes "ok w" "cget (ce_tenant s) w = Inr s" "ce_tenant e = ce_tenant s" "ce_updated e = ce_updated s"
    "cput e (writes cput es w) = (Inr e', w')"
  shows "cget (ce_tenant s) (writes cput es w) = Inr s \<and> ok w' \<and> cget (ce_tenant s) w' = Inr e'
    \<and> e' = e\<lparr>ce_updated := stamp w'\<rparr>"
proof -
  obtain s' where s': "cget (ce_tenant s) (writes cput es w) = Inr s'" "s' = s \<or> stamp w < ce_updated s'"
    using writes_token [OF assms(1,2)] by blast
  note wr = put_written [OF writes_ok [OF assms(1)] assms(5)]
  have "ce_updated s' = ce_updated s" using wr s'(1) assms(3,4) by (simp add: cas_matches_def)
  moreover have "ce_updated s \<le> stamp w" using get_present [OF assms(1,2)] by simp
  ultimately have "s' = s" using s'(2) by auto
  then show ?thesis using wr s'(1) assms(3) by simp
qed

text \<open>Two clients that hold the same token cannot both have a write accepted.\<close>

lemma cas_exclusive:
  assumes "ok w" "cput e w = (Inr e1, w1)" "ce_tenant e2 = ce_tenant e" "ce_updated e2 = ce_updated e"
  shows "\<exists>err. cput e2 (writes cput es w1) = (Inl err, writes cput es w1)"
proof -
  note wr = put_written [OF assms(1,2)]
  have g1: "cget (ce_tenant e) w1 = Inr e1" and ok1: "ok w1" using wr by auto
  obtain s' where s': "cget (ce_tenant e) (writes cput es w1) = Inr s'" "s' = e1 \<or> stamp w1 < ce_updated s'"
    using writes_token [OF ok1 g1] by blast
  obtain r w2 where p: "cput e2 (writes cput es w1) = (r, w2)" by fastforce
  show ?thesis
  proof (cases r)
    case (Inl err) then show ?thesis using p put_refused [of e2 "writes cput es w1" err w2] by auto
  next
    case (Inr e2')
    then have "cas_matches cget e2 (writes cput es w1)" using put_written [OF writes_ok [OF ok1]] p by blast
    then have n: "ce_updated e \<noteq> 0" "ce_updated s' = ce_updated e"
      using s'(1) assms(3,4) by (simp_all add: cas_matches_def)
    obtain s where "cget (ce_tenant e) w = Inr s" "ce_updated s = ce_updated e"
      using wr n(1) by (auto simp: cas_matches_def split: sum.splits)
    then have "ce_updated e \<le> stamp w" using get_present [OF assms(1)] by fastforce
    moreover have "stamp w < ce_updated s'" using s'(2) wr by auto
    ultimately show ?thesis using n(2) by simp
  qed
qed

end

section \<open>The in-memory catalog keeps the contract\<close>

definition fake_ok :: "FakeCatalog \<Rightarrow> bool" where
  "fake_ok f =
     (wf_map (fc_entries f) \<and> 0 \<le> fc_clock f
      \<and> list_all (\<lambda>(t, e). ce_tenant e = t \<and> 0 < ce_updated e \<and> ce_updated e \<le> fc_clock f
                            \<and> ValidateEntry e = None) (fc_entries f))"

lemma ValidateEntry_updated [simp]: "ValidateEntry (e\<lparr>ce_updated := u\<rparr>) = ValidateEntry e"
  by (simp add: ValidateEntry_def)

lemma fake_ok_mget:
  assumes "fake_ok f" "mget (fc_entries f) t = Some e"
  shows "ce_tenant e = t \<and> 0 < ce_updated e \<and> ce_updated e \<le> fc_clock f \<and> ValidateEntry e = None"
  using assms(1) map_of_SomeD [OF assms(2)] by (auto simp: fake_ok_def list_all_iff)

lemma fake_get_some [simp]: "FakeCatalog_Get t f = Inr e \<longleftrightarrow> mget (fc_entries f) t = Some e"
  by (simp add: FakeCatalog_Get_def split: option.split)

lemma fake_get_none: "FakeCatalog_Get t f = Inl err \<Longrightarrow> CodeOf err = CodeNotFound \<and> mget (fc_entries f) t = None"
  by (auto simp: FakeCatalog_Get_def split: option.splits)

lemma fake_get_cases:
  "FakeCatalog_Get t f = (case mget (fc_entries f) t of None \<Rightarrow> FakeCatalog_Get t f | Some e \<Rightarrow> Inr e)"
  by (simp split: option.split)

lemma fake_cas:
  "cas_matches FakeCatalog_Get e f \<longleftrightarrow>
     (case mget (fc_entries f) (ce_tenant e) of
        None \<Rightarrow> ce_updated e = 0 | Some s \<Rightarrow> ce_updated e \<noteq> 0 \<and> ce_updated s = ce_updated e)"
  by (simp add: cas_matches_def FakeCatalog_Get_def split: option.split)

text \<open>The write, by whether its token matches.\<close>

lemma fake_put:
  "FakeCatalog_Put e f = (Inr e', f') \<longleftrightarrow>
     ValidateEntry e = None
     \<and> (ce_updated e = 0 \<and> mget (fc_entries f) (ce_tenant e) = None
        \<or> ce_updated e \<noteq> 0 \<and> map_option ce_updated (mget (fc_entries f) (ce_tenant e)) = Some (ce_updated e))
     \<and> e' = e\<lparr>ce_updated := fc_clock f + 1\<rparr>
     \<and> f' = f\<lparr>fc_clock := fc_clock f + 1, fc_entries := mput (ce_tenant e) e' (fc_entries f)\<rparr>"
  by (cases "mget (fc_entries f) (ce_tenant e)")
    (auto simp: FakeCatalog_Put_def FakeCatalog_tick_def Let_def split: option.split)

lemma fake_put_refused: "FakeCatalog_Put e f = (Inl err, f') \<Longrightarrow> f' = f"
  by (auto simp: FakeCatalog_Put_def FakeCatalog_tick_def Let_def split: option.splits if_splits)

lemma fake_put_ok:
  assumes "fake_ok f" "FakeCatalog_Put e f = (Inr e', f')"
  shows "fake_ok f'"
proof -
  note p = assms(2) [unfolded fake_put]
  have v: "ValidateEntry e = None" and e': "e' = e\<lparr>ce_updated := fc_clock f + 1\<rparr>"
    and f': "f' = f\<lparr>fc_clock := fc_clock f + 1, fc_entries := mput (ce_tenant e) e' (fc_entries f)\<rparr>"
    using p by blast+
  have c: "0 \<le> fc_clock f" and w: "wf_map (fc_entries f)" using assms(1) by (simp_all add: fake_ok_def)
  have m: "mget (mput (ce_tenant e) e' (fc_entries f)) t = Some x \<longleftrightarrow> (t, x) \<in> set (mput (ce_tenant e) e' (fc_entries f))" for t x
    using w by (intro map_of_eq_Some_iff distinct_update) (simp add: wf_map_def)
  have "ce_tenant x = t \<and> 0 < ce_updated x \<and> ce_updated x \<le> fc_clock f + 1 \<and> ValidateEntry x = None"
    if "(t, x) \<in> set (mput (ce_tenant e) e' (fc_entries f))" for t x
  proof (cases "t = ce_tenant e")
    case True
    have "mget (mput (ce_tenant e) e' (fc_entries f)) t = Some x" using that m by simp
    then have "x = e'" using True by simp
    then show ?thesis using True e' v c by simp
  next
    case False
    have "mget (mput (ce_tenant e) e' (fc_entries f)) t = Some x" using that m by simp
    then have "mget (fc_entries f) t = Some x" using False by simp
    then show ?thesis using fake_ok_mget [OF assms(1)] by fastforce
  qed
  then show ?thesis using f' c w
    by (auto simp: fake_ok_def list_all_iff wf_map_def distinct_update)
qed

interpretation fakecat: catalog_contract FakeCatalog_Get FakeCatalog_Put fc_clock fake_ok
proof
  show "CodeOf err = CodeNotFound" if "FakeCatalog_Get t w = Inl err" for t w err
    using fake_get_none [OF that] by simp
  show "ce_tenant e = t \<and> 0 < ce_updated e \<and> ce_updated e \<le> fc_clock w \<and> ValidateEntry e = None"
    if "fake_ok w" "FakeCatalog_Get t w = Inr e" for w t e
    using that fake_ok_mget by simp
  show "w' = w" if "FakeCatalog_Put e w = (Inl err, w')" for e w err w'
    using that by (rule fake_put_refused)
  show "e' = e\<lparr>ce_updated := fc_clock w'\<rparr> \<and> fc_clock w < fc_clock w' \<and> fake_ok w'
      \<and> cas_matches FakeCatalog_Get e w \<and> FakeCatalog_Get (ce_tenant e) w' = Inr e'"
    if "fake_ok w" "FakeCatalog_Put e w = (Inr e', w')" for w e e' w'
    using that(2) [unfolded fake_put] fake_put_ok [OF that] by (auto simp: fake_cas split: option.splits)
  show "FakeCatalog_Get t w' = FakeCatalog_Get t w"
    if "FakeCatalog_Put e w = (Inr e', w')" "t \<noteq> ce_tenant e" for e w e' w' t
    using that by (simp add: fake_put FakeCatalog_Get_def)
  show "\<exists>e' w'. FakeCatalog_Put e w = (Inr e', w')"
    if "fake_ok w" "ValidateEntry e = None" "cas_matches FakeCatalog_Get e w" for w e
    using that(2,3) by (auto simp: fake_put fake_cas split: option.splits)
qed

section \<open>Paging\<close>

lemma list_ids_sorted: "fake_ok f \<Longrightarrow> sorted (list_ids c f) \<and> distinct (list_ids c f)"
  by (simp add: list_ids_def fake_ok_def wf_map_def)

lemma list_ids_after: "c \<in> set (list_ids c0 f) \<Longrightarrow> list_ids c f = filter (\<lambda>i. c < i) (list_ids c0 f)"
proof -
  assume "c \<in> set (list_ids c0 f)"
  then have "c0 < c" by (simp add: list_ids_def)
  then have "(\<lambda>i. c0 < i \<and> c < i) = (\<lambda>i. c < i)" by (intro ext) (meson less_trans)
  then show ?thesis by (simp add: list_ids_def filter_sort)
qed

lemma filter_after_last:
  fixes xs :: "string list"
  assumes "sorted (xs @ ys)" "distinct (xs @ ys)" "xs \<noteq> []"
  shows "filter (\<lambda>i. last xs < i) (xs @ ys) = ys"
proof -
  have xs: "xs = butlast xs @ [last xs]" using assms(3) by simp
  have "sorted (butlast xs @ [last xs])" using assms(1) xs by (metis sorted_append)
  then have "x \<le> last xs" if "x \<in> set (butlast xs)" for x
    using that by (simp add: sorted_append)
  then have "\<not> last xs < x" if "x \<in> set xs" for x
    using that by (subst (asm) xs) (auto simp: not_less)
  moreover have "last xs < y" if "y \<in> set ys" for y
  proof -
    have "last xs \<le> y" using assms(1) that last_in_set [OF assms(3)] by (simp add: sorted_append)
    moreover have "last xs \<noteq> y" using assms(2) that last_in_set [OF assms(3)] by auto
    ultimately show ?thesis by simp
  qed
  ultimately show ?thesis by (simp add: filter_empty_conv filter_id_conv)
qed

lemma list_loop_fake:
  assumes "fake_ok f" "0 < limit"
  shows "list_loop fake_catalog limit f c acc =
    Some (Inr (acc @ map (\<lambda>i. the (mget (fc_entries f) i)) (list_ids c f)))"
proof (induction "length (list_ids c f)" arbitrary: c acc rule: less_induct)
  case less
  let ?ids = "list_ids c f" and ?n = "nat limit"
  let ?h = "take ?n ?ids"
  show ?case
  proof (cases "length ?h = ?n")
    case True
    then have h: "?h \<noteq> []" using assms(2) by auto
    have m: "last ?h \<in> set ?ids" using h by (metis in_set_takeD last_in_set)
    have nn: "last ?h \<noteq> []" using m by (auto simp: list_ids_def)
    have d: "list_ids (last ?h) f = drop ?n ?ids"
      using list_ids_after [OF m] filter_after_last [of ?h "drop ?n ?ids"] list_ids_sorted [OF assms(1), of c] h
      by simp
    have l: "length (list_ids (last ?h) f) < length ?ids" using d h assms(2) by auto
    have "list_loop fake_catalog limit f c acc =
        list_loop fake_catalog limit f (last ?h) (acc @ map (\<lambda>i. the (mget (fc_entries f) i)) ?h)"
      using True h nn assms(2)
      by (subst list_loop.simps) (simp add: fake_catalog_def FakeCatalog_List_def Let_def)
    also have "\<dots> = Some (Inr (acc @ map (\<lambda>i. the (mget (fc_entries f) i)) (?h @ drop ?n ?ids)))"
      using less [OF l] d by (simp del: append_take_drop_id)
    finally show ?thesis by simp
  next
    case False
    then have "length ?ids < ?n" by auto
    then have "take ?n ?ids = ?ids" "int (length ?ids) \<noteq> limit" by auto
    then show ?thesis using assms(2)
      by (subst list_loop.simps) (simp add: fake_catalog_def FakeCatalog_List_def Let_def)
  qed
qed

text \<open>The entries in tenant order.\<close>

definition listed :: "FakeCatalog \<Rightarrow> Entry list" where
  "listed f = map (\<lambda>t. the (mget (fc_entries f) t)) (sort (map fst (fc_entries f)))"

lemma fake_ok_keys:
  assumes "fake_ok f" "(t, e) \<in> set (fc_entries f)"
  shows "mget (fc_entries f) t = Some e \<and> ce_tenant e = t \<and> t \<noteq> []"
proof -
  have g: "mget (fc_entries f) t = Some e" using assms by (simp add: fake_ok_def wf_map_def)
  then have "ce_tenant e = t" "ValidateEntry e = None" using fake_ok_mget [OF assms(1)] by simp_all
  then show ?thesis using g by (auto simp: ValidateEntry_def)
qed

lemma list_ids_all:
  assumes "fake_ok f"
  shows "list_ids [] f = sort (map fst (fc_entries f))"
proof -
  have "filter (\<lambda>i. [] < i) (map fst (fc_entries f)) = map fst (fc_entries f)"
  proof (rule filter_True, rule ballI)
    fix t assume "t \<in> set (map fst (fc_entries f))"
    then obtain e where "(t, e) \<in> set (fc_entries f)" by auto
    then have "t \<noteq> []" using fake_ok_keys [OF assms] by blast
    then show "[] < t" by (cases t) simp_all
  qed
  then show ?thesis by (simp add: list_ids_def)
qed

lemma listed_loop: "fake_ok f \<Longrightarrow> 0 < limit \<Longrightarrow> list_loop fake_catalog limit f [] [] = Some (Inr (listed f))"
  by (simp add: list_loop_fake list_ids_all listed_def)

lemma listed_tenants:
  assumes "fake_ok f"
  shows "map ce_tenant (listed f) = sort (map fst (fc_entries f))"
    and "distinct (map ce_tenant (listed f))" and "set (listed f) = snd ` set (fc_entries f)"
    and "distinct (listed f)"
proof -
  let ?g = "\<lambda>i. the (mget (fc_entries f) i)"
  have w: "wf_map (fc_entries f)" using assms by (simp add: fake_ok_def)
  have g: "?g t = e \<and> ce_tenant e = t" if "(t, e) \<in> set (fc_entries f)" for t e
    using fake_ok_keys [OF assms that] by simp
  have mem: "ce_tenant (?g t) = t" if "t \<in> set (sort (map fst (fc_entries f)))" for t
    using that g by fastforce
  show m: "map ce_tenant (listed f) = sort (map fst (fc_entries f))"
    unfolding listed_def map_map comp_def by (rule map_idI) (rule mem)
  show d: "distinct (map ce_tenant (listed f))" unfolding m using w by (simp add: wf_map_def)
  show "distinct (listed f)" using d by (simp only: distinct_map)
  have "set (listed f) = ?g ` fst ` set (fc_entries f)" by (simp add: listed_def)
  also have "\<dots> = snd ` set (fc_entries f)" unfolding image_image using g by (intro image_cong) auto
  finally show "set (listed f) = snd ` set (fc_entries f)" .
qed

lemma listed_iff: "fake_ok f \<Longrightarrow> e \<in> set (listed f) \<longleftrightarrow> FakeCatalog_Get (ce_tenant e) f = Inr e"
proof
  assume "fake_ok f" "e \<in> set (listed f)"
  then obtain t where "(t, e) \<in> set (fc_entries f)" using listed_tenants(3) by auto
  then show "FakeCatalog_Get (ce_tenant e) f = Inr e" using fake_ok_keys [OF \<open>fake_ok f\<close>] by fastforce
next
  assume "fake_ok f" "FakeCatalog_Get (ce_tenant e) f = Inr e"
  then have "(ce_tenant e, e) \<in> set (fc_entries f)" by (simp add: map_of_SomeD)
  then show "e \<in> set (listed f)" using listed_tenants(3) [OF \<open>fake_ok f\<close>] by force
qed

text \<open>
  Paging through the catalog is complete and ends: with any positive page size the loop
  returns, and it returns every tenant's entry exactly once, in the order of the tenant ids.
\<close>

theorem catalog_listing_exact:
  assumes "fake_ok f" "0 < limit"
  shows "\<exists>es. list_loop fake_catalog limit f [] [] = Some (Inr es)
    \<and> map ce_tenant es = sort (map fst (fc_entries f))
    \<and> set es = snd ` set (fc_entries f) \<and> distinct es"
  using listed_loop [OF assms] listed_tenants [OF assms(1)] by blast

definition demo_entry :: "string \<Rightarrow> int \<Rightarrow> Entry" where
  "demo_entry t u = \<lparr>ce_tenant = t, ce_cluster = ''c1'', ce_database = ''fabriq_'' @ t, ce_state = StateActive,
     ce_version = ''1'', ce_schema = [], ce_updated = u, ce_fromreplica = False\<rparr>"

theorem catalog_listing_exact_witness:
  "\<exists>es. list_loop fake_catalog 1 \<lparr>fc_entries = [(''b'', demo_entry ''b'' 1), (''a'', demo_entry ''a'' 2)], fc_clock = 2\<rparr> [] []
      = Some (Inr es) \<and> map ce_tenant es = [''a'', ''b'']"
proof -
  let ?f = "\<lparr>fc_entries = [(''b'', demo_entry ''b'' 1), (''a'', demo_entry ''a'' 2)], fc_clock = 2\<rparr>"
  have "fake_ok ?f" by (simp add: fake_ok_def wf_map_def demo_entry_def ValidateEntry_def)
  moreover have "sort (map fst (fc_entries ?f)) = [''a'', ''b'']" by (simp add: less_char_def less_eq_char_def)
  ultimately show ?thesis using catalog_listing_exact [of ?f 1] by auto
qed

end
