(* ===== verification/ShardDir.thy ===== *)
theory ShardDir
  imports Catalog "HOL-Library.Word" "HOL-Library.Multiset"
begin

text \<open>
  Tenant routing (\<^verbatim>\<open>adapters/shard\<close>): the routing set of \<^verbatim>\<open>shard.go\<close>, the static
  directories of \<^verbatim>\<open>directory.go\<close> (hash placement, pins, the memoising wrapper) and the
  catalog-backed directory of \<^verbatim>\<open>catalogdir.go\<close>. A directory's lookup reads the clock
  when it consults its cache and again when it stores an answer; the two instants are
  arguments. The ports a shard carries are the type \<open>'p\<close>.
\<close>

unbundle bit_operations_syntax

section \<open>Static directories\<close>

text \<open>FNV-1a of the standard library, offset and prime.\<close>

abbreviation fnv_offset32 :: "32 word" where
  "fnv_offset32 \<equiv> 2166136261"

abbreviation fnv_prime32 :: "32 word" where
  "fnv_prime32 \<equiv> 16777619"

definition fnv32a :: "string \<Rightarrow> 32 word" where
  "fnv32a s = fold (\<lambda>c h. (h XOR of_char c) * fnv_prime32) s fnv_offset32"

definition HashDirectory :: "string list \<Rightarrow> string list" where
  "HashDirectory ids = sort ids"

definition hash_Shard :: "string list \<Rightarrow> string \<Rightarrow> gerr + string" where
  "hash_Shard ids tenantID =
     (if ids = [] then Inl (Errorf ''fabriq: hash directory has no shards'')
      else Inr (ids ! (unat (fnv32a tenantID) mod length ids)))"

definition PinnedDirectory :: "string gomap \<Rightarrow> string gomap" where
  "PinnedDirectory pins = fold (\<lambda>(tid, i) m. mput tid i m) pins []"

definition pinned_Shard :: "string gomap \<Rightarrow> (string \<Rightarrow> gerr + string) option \<Rightarrow> string \<Rightarrow> gerr + string" where
  "pinned_Shard pins fallback tenantID =
     (case mget pins tenantID of
        Some i \<Rightarrow> Inr i
      | None \<Rightarrow>
          (case fallback of
             None \<Rightarrow> Inl (Errorf (''fabriq: pinned directory has no fallback for tenant '' @ tenantID))
           | Some f \<Rightarrow> f tenantID))"

record cacheEntry =
  ch_id :: string
  ch_exp :: int

definition cached_Shard :: "(string \<Rightarrow> gerr + string) \<Rightarrow> int \<Rightarrow> int \<Rightarrow> int \<Rightarrow> string \<Rightarrow> cacheEntry gomap
    \<Rightarrow> (gerr + string) \<times> cacheEntry gomap" where
  "cached_Shard inner ttl now1 now2 tenantID cache =
     (case mget cache tenantID of
        Some e \<Rightarrow>
          if now1 < ch_exp e then (Inr (ch_id e), cache)
          else (case inner tenantID of
                  Inl err \<Rightarrow> (Inl err, cache)
                | Inr i \<Rightarrow> (Inr i, mput tenantID \<lparr>ch_id = i, ch_exp = now2 + ttl\<rparr> cache))
      | None \<Rightarrow>
          (case inner tenantID of
             Inl err \<Rightarrow> (Inl err, cache)
           | Inr i \<Rightarrow> (Inr i, mput tenantID \<lparr>ch_id = i, ch_exp = now2 + ttl\<rparr> cache)))"

section \<open>The catalog-backed directory\<close>

record catalogCacheEntry =
  cc_answer :: "gerr + string"
  cc_exp :: int

record catalogDirectory =
  cd_ttl :: int
  cd_minVersion :: string
  cd_cache :: "catalogCacheEntry gomap"

text \<open>Thirty seconds, in microseconds.\<close>

definition default_ttl :: int where
  "default_ttl = 30 * 1000000"

definition CatalogDirectory :: "int \<Rightarrow> (catalogDirectory \<Rightarrow> catalogDirectory) list \<Rightarrow> catalogDirectory" where
  "CatalogDirectory ttl opts =
     fold (\<lambda>opt d. opt d) opts
       \<lparr>cd_ttl = (if ttl \<le> 0 then default_ttl else ttl), cd_minVersion = [], cd_cache = []\<rparr>"

definition WithMinVersion :: "string \<Rightarrow> catalogDirectory \<Rightarrow> catalogDirectory" where
  "WithMinVersion v d = d\<lparr>cd_minVersion := v\<rparr>"

definition isCatalogAnswer :: "gerr \<Rightarrow> bool" where
  "isCatalogAnswer err = (CodeOf err = CodeNotFound \<or> CodeOf err = CodeUnavailable)"

text \<open>\<open>get\<close> is the catalog's \<^verbatim>\<open>Get\<close> at the moment of the call.\<close>

definition resolve :: "(string \<Rightarrow> gerr + Entry) \<Rightarrow> string \<Rightarrow> string \<Rightarrow> gerr + string" where
  "resolve get minVersion tenantID =
     (case get tenantID of
        Inl err \<Rightarrow> Inl err
      | Inr entry \<Rightarrow>
          if ce_state entry \<noteq> StateActive
          then (let detail = [(''state'', state_str (ce_state entry))];
                    detail = (if ce_fromreplica entry then MarkDegradedDetail detail else detail)
                in Inl (err_new CodeUnavailable ''tenant is not routable.''
                     [WithEntity ''tenant'' tenantID, WithMeta (zero_meta\<lparr>mt_detail := detail\<rparr>)]))
          else if minVersion \<noteq> [] \<and> ce_version entry < minVersion
          then (let detail = [(''version'', ce_version entry), (''floor'', minVersion)];
                    detail = (if ce_fromreplica entry then MarkDegradedDetail detail else detail)
                in Inl (err_new CodeUnavailable ''tenant database is below the binary's migration floor.''
                     [WithEntity ''tenant'' tenantID, WithMeta (zero_meta\<lparr>mt_detail := detail\<rparr>)]))
          else Inr (ShardID entry))"

text \<open>Which answers the directory keeps.\<close>

definition cacheable :: "gerr + string \<Rightarrow> bool" where
  "cacheable r = (case r of Inr _ \<Rightarrow> True | Inl err \<Rightarrow> isCatalogAnswer err \<and> \<not> IsDegraded err)"

definition dir_hit :: "catalogDirectory \<Rightarrow> int \<Rightarrow> string \<Rightarrow> (gerr + string) option" where
  "dir_hit d now1 tenantID =
     (case mget (cd_cache d) tenantID of
        Some e \<Rightarrow> if now1 < cc_exp e then Some (cc_answer e) else None
      | None \<Rightarrow> None)"

definition dir_Shard :: "(string \<Rightarrow> gerr + Entry) \<Rightarrow> int \<Rightarrow> int \<Rightarrow> string \<Rightarrow> catalogDirectory
    \<Rightarrow> (gerr + string) \<times> catalogDirectory" where
  "dir_Shard get now1 now2 tenantID d =
     (case dir_hit d now1 tenantID of
        Some r \<Rightarrow> (r, d)
      | None \<Rightarrow>
          let r = resolve get (cd_minVersion d) tenantID
          in if cacheable r
             then (r, d\<lparr>cd_cache := mput tenantID \<lparr>cc_answer = r, cc_exp = now2 + cd_ttl d\<rparr> (cd_cache d)\<rparr>)
             else (r, d))"

section \<open>The routing set\<close>

text \<open>A shard is its identifier and the ports it carries.\<close>

type_synonym 'p shard = "string \<times> 'p"

record 'p ShardSet =
  ss_shards :: "(string \<times> 'p shard) list"
  ss_dir :: "string \<Rightarrow> gerr + string"

fun add_shards :: "'p shard list \<Rightarrow> (string \<times> 'p shard) list \<Rightarrow> gerr + (string \<times> 'p shard) list" where
  "add_shards [] m = Inr m"
| "add_shards (sh # shs) m =
     (if fst sh = [] then Inl (Errorf ''fabriq: shard with empty id'')
      else if mget m (fst sh) \<noteq> None then Inl (Errorf (''fabriq: duplicate shard id '' @ fst sh))
      else add_shards shs (mput (fst sh) sh m))"

definition shard_New :: "(string \<Rightarrow> gerr + string) option \<Rightarrow> 'p shard list \<Rightarrow> gerr + 'p ShardSet" where
  "shard_New dir shards =
     (case dir of
        None \<Rightarrow> Inl (Errorf ''fabriq: shard set needs a directory'')
      | Some lookup \<Rightarrow>
          if shards = [] then Inl (Errorf ''fabriq: shard set needs at least one shard'')
          else (case add_shards shards [] of
                  Inl err \<Rightarrow> Inl err
                | Inr m \<Rightarrow> Inr \<lparr>ss_shards = m, ss_dir = lookup\<rparr>))"

definition constDirectory :: "string \<Rightarrow> string \<Rightarrow> gerr + string" where
  "constDirectory c tenantID = Inr c"

definition Single :: "'p shard \<Rightarrow> 'p ShardSet" where
  "Single sh =
     (let i = (if fst sh = [] then ''0'' else fst sh)
      in \<lparr>ss_shards = [(i, (i, snd sh))], ss_dir = constDirectory i\<rparr>)"

definition ForTenant :: "'p ShardSet \<Rightarrow> string \<Rightarrow> gerr + 'p shard" where
  "ForTenant s tenantID =
     (case ss_dir s tenantID of
        Inl err \<Rightarrow> Inl err
      | Inr i \<Rightarrow>
          (case mget (ss_shards s) i of
             None \<Rightarrow> Inl (Errorf (''fabriq: tenant '' @ tenantID @ '' routed to unknown shard '' @ i))
           | Some sh \<Rightarrow> Inr sh))"

definition For :: "'p ShardSet \<Rightarrow> gctx \<Rightarrow> gerr + 'p shard" where
  "For s ctx = (case Require ctx of Inl err \<Rightarrow> Inl err | Inr tid \<Rightarrow> ForTenant s tid)"

definition ResolveID :: "'p ShardSet \<Rightarrow> string \<Rightarrow> gerr + string" where
  "ResolveID s tenantID = ss_dir s tenantID"

definition shard_IDs :: "'p ShardSet \<Rightarrow> string list" where
  "shard_IDs s = sort (map fst (ss_shards s))"

definition shard_All :: "'p ShardSet \<Rightarrow> 'p shard list" where
  "shard_All s = sort_key fst (map snd (ss_shards s))"

definition shard_Len :: "'p ShardSet \<Rightarrow> nat" where
  "shard_Len s = length (ss_shards s)"

section \<open>What a placement promises\<close>

text \<open>
  The contract of a static directory: it places a tenant, always in the same way, on a
  shard the deployment holds. Its clients are the routing set and the memoising wrapper.
\<close>

fun cached_run :: "(string \<Rightarrow> gerr + string) \<Rightarrow> int \<Rightarrow> (int \<times> int \<times> string) list \<Rightarrow> cacheEntry gomap \<Rightarrow> (gerr + string) list" where
  "cached_run inner ttl [] cache = []"
| "cached_run inner ttl ((now1, now2, t) # evs) cache =
     (case cached_Shard inner ttl now1 now2 t cache of
        (r, cache') \<Rightarrow> r # cached_run inner ttl evs cache')"

locale placement =
  fixes place :: "string \<Rightarrow> gerr + string"
    and held :: "string set"
  assumes place_held: "\<exists>i \<in> held. place t = Inr i"
begin

lemma cached_step:
  assumes "\<And>t e. mget c t = Some e \<Longrightarrow> place t = Inr (ch_id e)"
    "cached_Shard place ttl now1 now2 t c = (r, c')"
  shows "r = place t \<and> (\<forall>t e. mget c' t = Some e \<longrightarrow> place t = Inr (ch_id e))"
proof -
  obtain i where i: "place t = Inr i" using place_held by blast
  have fresh: "\<forall>t' e. mget (mput t \<lparr>ch_id = i, ch_exp = x\<rparr> c) t' = Some e \<longrightarrow> place t' = Inr (ch_id e)" for x
    using i assms(1) by simp
  show ?thesis
  proof (cases "mget c t")
    case None then show ?thesis using assms(2) i fresh by (auto simp: cached_Shard_def)
  next
    case (Some e)
    then show ?thesis using assms(2) i fresh assms(1) assms(1) [OF Some]
      by (cases "now1 < ch_exp e") (auto simp: cached_Shard_def)
  qed
qed

lemma cached_transparent:
  assumes "\<And>t e. mget c t = Some e \<Longrightarrow> place t = Inr (ch_id e)"
  shows "cached_run place ttl evs c = map (\<lambda>(_, _, t). place t) evs"
  using assms
proof (induction evs arbitrary: c)
  case Nil then show ?case by simp
next
  case (Cons ev evs)
  obtain now1 now2 t where ev: "ev = (now1, now2, t)" by (cases ev)
  obtain r c' where s: "cached_Shard place ttl now1 now2 t c = (r, c')" by fastforce
  note st = cached_step [OF Cons.prems s]
  have "cached_run place ttl evs c' = map (\<lambda>(_, _, t). place t) evs"
    using st by (intro Cons.IH) blast
  then show ?case using st s ev by simp
qed

lemma routed:
  assumes "\<And>i. i \<in> held \<Longrightarrow> mget (ss_shards s) i \<noteq> None" "ss_dir s = place"
  shows "\<exists>i sh. place t = Inr i \<and> mget (ss_shards s) i = Some sh \<and> ForTenant s t = Inr sh"
proof -
  obtain i where i: "i \<in> held" "place t = Inr i" using place_held by blast
  then obtain sh where "mget (ss_shards s) i = Some sh" using assms(1) by blast
  then show ?thesis using i assms(2) by (simp add: ForTenant_def)
qed

end

lemma hash_in_range: "ids \<noteq> [] \<Longrightarrow> hash_Shard ids t = Inr (ids ! (unat (fnv32a t) mod length ids)) \<and> unat (fnv32a t) mod length ids < length ids"
  by (simp add: hash_Shard_def)

interpretation hashdir: placement "hash_Shard (HashDirectory (i # is))" "set (i # is)" for i "is"
proof
  fix t
  let ?ids = "HashDirectory (i # is)"
  have st: "set ?ids = set (i # is)" unfolding HashDirectory_def by (rule set_sort)
  then have "?ids \<noteq> []" by force
  note h = hash_in_range [OF this, of t]
  then have "?ids ! (unat (fnv32a t) mod length ?ids) \<in> set (i # is)" unfolding st [symmetric] by (intro nth_mem) simp
  then show "\<exists>j \<in> set (i # is). hash_Shard ?ids t = Inr j" using h by blast
qed

interpretation pindir: placement "pinned_Shard pins (Some (hash_Shard (HashDirectory (i # is))))" "set (i # is) \<union> snd ` set pins"
  for pins i "is"
proof
  fix t
  show "\<exists>j \<in> set (i # is) \<union> snd ` set pins. pinned_Shard pins (Some (hash_Shard (HashDirectory (i # is)))) t = Inr j"
  proof (cases "mget pins t")
    case None then show ?thesis using hashdir.place_held [of i "is" t] by (auto simp: pinned_Shard_def)
  next
    case (Some j)
    then have "j \<in> snd ` set pins" by (metis map_of_SomeD image_eqI snd_conv)
    then show ?thesis using Some by (auto simp: pinned_Shard_def)
  qed
qed

section \<open>The routing set\<close>

lemma add_shards_get:
  assumes "add_shards shs m = Inr m'"
  shows "mget m' i = Some sh \<longleftrightarrow> mget m i = Some sh \<or> sh \<in> set shs \<and> fst sh = i"
    and "sh \<in> set shs \<Longrightarrow> mget m (fst sh) = None"
  using assms
proof (induction shs m rule: add_shards.induct)
  case (1 m)
  { case 1 then show ?case by simp }
  { case 2 then show ?case by simp }
next
  case (2 s shs m)
  { case 1
    then have g: "fst s \<noteq> []" "mget m (fst s) = None" "add_shards shs (mput (fst s) s m) = Inr m'"
      by (cases "mget m (fst s)"; simp split: if_splits)+
    have ih: "mget m' i = Some sh \<longleftrightarrow> mget (mput (fst s) s m) i = Some sh \<or> sh \<in> set shs \<and> fst sh = i"
      using "2.IH"(1) [OF _ _ g(3)] g(1,2) by simp
    show ?case unfolding ih using g(2) by (cases "i = fst s") auto }
  { case 2
    then have g: "fst s \<noteq> []" "mget m (fst s) = None" "add_shards shs (mput (fst s) s m) = Inr m'"
      by (cases "mget m (fst s)"; simp split: if_splits)+
    have "sh \<in> set shs \<Longrightarrow> mget (mput (fst s) s m) (fst sh) = None"
      using "2.IH"(2) [OF _ _ _ g(3)] g(1,2) by simp
    then show ?case using 2(1) g(2) by (cases "sh = s") (auto split: if_splits) }
qed

lemma shard_New_get:
  assumes "shard_New (Some lookup) shards = Inr s"
  shows "ss_dir s = lookup \<and> shards \<noteq> [] \<and> (mget (ss_shards s) i = Some sh \<longleftrightarrow> sh \<in> set shards \<and> fst sh = i)"
proof -
  obtain m where m: "add_shards shards [] = Inr m" "s = \<lparr>ss_shards = m, ss_dir = lookup\<rparr>" "shards \<noteq> []"
    using assms by (auto simp: shard_New_def split: if_splits sum.splits)
  then show ?thesis using add_shards_get(1) [OF m(1)] by simp
qed

lemma HashDirectory_perm: "mset xs = mset ys \<Longrightarrow> HashDirectory xs = HashDirectory ys"
  unfolding HashDirectory_def by (rule properties_for_sort) simp_all

text \<open>
  Static routing is total, consistent and cacheable: the set built over hash placement
  with pins (every pin naming a configured shard) routes every tenant to a configured
  shard; another replica that lists the same shards in another order routes it to the same
  shard; and the memoised directory answers every lookup, at any time, as the directory does.
\<close>

theorem static_routing_stable:
  assumes "shard_New (Some (pinned_Shard pins (Some (hash_Shard (HashDirectory (map fst shards)))))) shards = Inr s"
    "shard_New (Some (pinned_Shard pins (Some (hash_Shard (HashDirectory (map fst shards')))))) shards' = Inr s'"
    "mset shards' = mset shards" "snd ` set pins \<subseteq> fst ` set shards"
  shows "(\<exists>sh. sh \<in> set shards \<and> ForTenant s t = Inr sh \<and> ResolveID s t = Inr (fst sh))
    \<and> ForTenant s' t = ForTenant s t
    \<and> cached_run (ss_dir s') ttl evs [] = map (\<lambda>(_, _, t). ss_dir s t) evs"
proof -
  note n = shard_New_get [OF assms(1)] and n' = shard_New_get [OF assms(2)]
  have st: "set shards' = set shards" using assms(3) by (metis set_mset_mset)
  have hd: "HashDirectory (map fst shards') = HashDirectory (map fst shards)"
    using assms(3) by (intro HashDirectory_perm) simp
  have d: "ss_dir s' = ss_dir s" using n n' hd by simp
  have "mget (ss_shards s') i = mget (ss_shards s) i" for i
    using n n' st by (metis not_None_eq option.distinct(1))
  then have f: "ForTenant s' t = ForTenant s t" using d by (simp add: ForTenant_def split: sum.split)
  obtain sh0 shs0 where sh: "shards = sh0 # shs0" using n by (cases shards) auto
  have dir: "ss_dir s = pinned_Shard pins (Some (hash_Shard (HashDirectory (fst sh0 # map fst shs0))))"
    using n sh by simp
  have held: "mget (ss_shards s) i \<noteq> None" if "i \<in> set (fst sh0 # map fst shs0) \<union> snd ` set pins" for i
  proof -
    have "i \<in> fst ` set shards" using that assms(4) sh by auto
    then obtain x where "x \<in> set shards" "fst x = i" by blast
    then show ?thesis using n by blast
  qed
  obtain i x where x: "ss_dir s t = Inr i" "mget (ss_shards s) i = Some x" "ForTenant s t = Inr x"
    using pindir.routed [OF held dir, of t] dir by auto
  then have "x \<in> set shards \<and> fst x = i" using n by blast
  moreover have "cached_run (ss_dir s) ttl evs [] = map (\<lambda>(_, _, t). ss_dir s t) evs"
    unfolding dir by (rule pindir.cached_transparent) simp
  ultimately show ?thesis using x f d by (cases x) (simp add: ResolveID_def)
qed

theorem static_routing_stable_witness:
  "\<exists>s s'. shard_New (Some (pinned_Shard [(''t1'', ''b'')] (Some (hash_Shard (HashDirectory [''a'', ''b'']))))) [(''a'', 0::nat), (''b'', 1)] = Inr s
    \<and> shard_New (Some (pinned_Shard [(''t1'', ''b'')] (Some (hash_Shard (HashDirectory [''b'', ''a'']))))) [(''b'', 1), (''a'', 0)] = Inr s'
    \<and> ForTenant s' ''t9'' = ForTenant s ''t9''
    \<and> cached_run (ss_dir s') 5 [(1, 2, ''t1''), (3, 4, ''t9'')] [] = [Inr ''b'', ss_dir s ''t9'']"
proof -
  obtain s where s: "shard_New (Some (pinned_Shard [(''t1'', ''b'')] (Some (hash_Shard (HashDirectory (map fst [(''a'', 0::nat), (''b'', 1)])))))) [(''a'', 0::nat), (''b'', 1)] = Inr s"
    by (simp add: shard_New_def)
  obtain s' where s': "shard_New (Some (pinned_Shard [(''t1'', ''b'')] (Some (hash_Shard (HashDirectory (map fst [(''b'', 1::nat), (''a'', 0)])))))) [(''b'', 1::nat), (''a'', 0)] = Inr s'"
    by (simp add: shard_New_def)
  have "ss_dir s ''t1'' = Inr ''b''" using s by (auto simp: shard_New_def pinned_Shard_def)
  then show ?thesis
    using static_routing_stable [OF s s', of "''t9''" 5 "[(1, 2, ''t1''), (3, 4, ''t9'')]"] s s' by auto
qed

section \<open>Staleness of the catalog-backed directory\<close>

text \<open>
  The catalog as it can be read at each instant, and lookups over time: the cache is
  consulted at \<open>now1\<close>, the catalog read at \<open>nowg\<close>, the answer stored at \<open>now2\<close>.
\<close>

type_synonym catalog_history = "int \<Rightarrow> string \<Rightarrow> gerr + Entry"
type_synonym lookup = "int \<times> int \<times> int \<times> string"

definition dir_lookup :: "catalog_history \<Rightarrow> lookup \<Rightarrow> catalogDirectory \<Rightarrow> (gerr + string) \<times> catalogDirectory" where
  "dir_lookup h ev d = (case ev of (now1, nowg, now2, t) \<Rightarrow> dir_Shard (h nowg) now1 now2 t d)"

definition dir_after :: "catalog_history \<Rightarrow> lookup list \<Rightarrow> catalogDirectory \<Rightarrow> catalogDirectory" where
  "dir_after h evs d = fold (\<lambda>ev d. snd (dir_lookup h ev d)) evs d"

text \<open>A lookup whose catalog read takes at most \<open>lat\<close>.\<close>

definition timely :: "int \<Rightarrow> lookup \<Rightarrow> bool" where
  "timely lat ev = (case ev of (now1, nowg, now2, t) \<Rightarrow> now1 \<le> nowg \<and> nowg \<le> now2 \<and> now2 \<le> nowg + lat)"

definition dir_fresh :: "catalog_history \<Rightarrow> int \<Rightarrow> catalogDirectory \<Rightarrow> bool" where
  "dir_fresh h lat d =
     (\<forall>t e. mget (cd_cache d) t = Some e \<longrightarrow>
        (\<exists>g. cc_exp e \<le> g + lat + cd_ttl d \<and> cc_answer e = resolve (h g) (cd_minVersion d) t))"

lemma dir_Shard_cfg [simp]:
  "cd_ttl (snd (dir_Shard get now1 now2 t d)) = cd_ttl d"
  "cd_minVersion (snd (dir_Shard get now1 now2 t d)) = cd_minVersion d"
  by (simp_all add: dir_Shard_def Let_def split: option.split)

lemma dir_after_cfg [simp]: "cd_ttl (dir_after h evs d) = cd_ttl d" "cd_minVersion (dir_after h evs d) = cd_minVersion d"
  by (induction evs arbitrary: d) (simp_all add: dir_after_def dir_lookup_def split: prod.split)

lemma dir_Shard_fresh:
  assumes "dir_fresh h lat d" "timely lat (now1, nowg, now2, t)"
  shows "dir_fresh h lat (snd (dir_Shard (h nowg) now1 now2 t d))"
proof (cases "dir_hit d now1 t = None \<and> cacheable (resolve (h nowg) (cd_minVersion d) t)")
  case False then show ?thesis using assms(1)
    by (cases "dir_hit d now1 t") (simp_all add: dir_Shard_def Let_def)
next
  case True
  have "now2 + cd_ttl d \<le> nowg + lat + cd_ttl d" using assms(2) by (simp add: timely_def)
  then show ?thesis using True assms(1)
    by (auto simp: dir_Shard_def Let_def dir_fresh_def)
qed

lemma dir_after_fresh:
  "list_all (timely lat) evs \<Longrightarrow> dir_fresh h lat d \<Longrightarrow> dir_fresh h lat (dir_after h evs d)"
  by (induction evs arbitrary: d) (auto simp: dir_after_def dir_lookup_def dir_Shard_fresh)

lemma resolve_Inr:
  "resolve get v t = Inr i \<longleftrightarrow>
     (\<exists>e. get t = Inr e \<and> ce_state e = StateActive \<and> (v \<noteq> [] \<longrightarrow> v \<le> ce_version e) \<and> i = ShardID e)"
  by (auto simp: resolve_def Let_def not_less split: sum.split)

text \<open>
  C34. The time to live bounds the staleness of routing: whatever was looked up before, an
  answer is what the catalog said less than one time to live (plus the duration of a catalog
  read) earlier, so a suspension or a version floor takes effect within that time; and a
  tenant is routed only to the shard of an entry that was active and at or above the floor then.
\<close>

theorem routing_staleness_bounded:
  assumes "cd_cache d = []" "0 < cd_ttl d" "0 \<le> lat" "list_all (timely lat) evs" "timely lat (now1, nowg, now2, t)"
    "dir_Shard (h nowg) now1 now2 t (dir_after h evs d) = (answer, d')"
  shows "\<exists>g. now1 < g + lat + cd_ttl d \<and> answer = resolve (h g) (cd_minVersion d) t
    \<and> (\<forall>i. answer = Inr i \<longrightarrow> (\<exists>e. h g t = Inr e \<and> ce_state e = StateActive
          \<and> (cd_minVersion d \<noteq> [] \<longrightarrow> cd_minVersion d \<le> ce_version e) \<and> i = ShardID e))"
proof -
  have fr: "dir_fresh h lat (dir_after h evs d)"
    using assms(1,4) by (intro dir_after_fresh) (simp_all add: dir_fresh_def)
  have "\<exists>g. now1 < g + lat + cd_ttl d \<and> answer = resolve (h g) (cd_minVersion d) t"
  proof (cases "dir_hit (dir_after h evs d) now1 t")
    case None
    then have "answer = resolve (h nowg) (cd_minVersion d) t"
      using assms(6) by (auto simp: dir_Shard_def Let_def split: if_splits)
    moreover have "now1 < nowg + lat + cd_ttl d" using assms(2,3,5) by (simp add: timely_def)
    ultimately show ?thesis by blast
  next
    case (Some r)
    then obtain e where e: "mget (cd_cache (dir_after h evs d)) t = Some e" "now1 < cc_exp e" "r = cc_answer e"
      by (auto simp: dir_hit_def split: option.splits if_splits)
    have "answer = r" using assms(6) Some by (simp add: dir_Shard_def)
    moreover obtain g where "cc_exp e \<le> g + lat + cd_ttl d" "cc_answer e = resolve (h g) (cd_minVersion d) t"
      using fr e(1) by (auto simp: dir_fresh_def)
    ultimately show ?thesis using e(2,3) by (intro exI [of _ g]) auto
  qed
  then show ?thesis by (auto simp: resolve_Inr)
qed

text \<open>A catalog whose tenant is suspended from instant 100 on.\<close>

definition demo_history :: catalog_history where
  "demo_history g t = Inr ((demo_entry t 1)\<lparr>ce_state := (if g < 100 then StateActive else StateSuspended)\<rparr>)"

theorem routing_staleness_bounded_witness:
  "\<exists>err. fst (dir_Shard (demo_history 151) 150 152 ''t''
      (dir_after demo_history [(90, 91, 92, ''t'')] (CatalogDirectory 40 []))) = Inl err"
proof -
  let ?d = "CatalogDirectory 40 []"
  obtain answer d' where a: "dir_Shard (demo_history 151) 150 152 ''t'' (dir_after demo_history [(90, 91, 92, ''t'')] ?d) = (answer, d')"
    by fastforce
  obtain g where g: "150 < g + 5 + cd_ttl ?d" "answer = resolve (demo_history g) (cd_minVersion ?d) ''t''"
    using routing_staleness_bounded [of ?d 5 "[(90, 91, 92, ''t'')]" 150 151 152 "''t''" demo_history answer d'] a
    by (auto simp: CatalogDirectory_def timely_def)
  then have "100 \<le> g" by (simp add: CatalogDirectory_def)
  then show ?thesis using a g(2) by (simp add: resolve_def demo_history_def Let_def)
qed

section \<open>An outage of the control database\<close>

lemma IsDegraded_mark: "IsDegraded (err_new c m [WithEntity x y, WithMeta (zero_meta\<lparr>mt_detail := MarkDegradedDetail dt\<rparr>)])"
  by (simp add: IsDegraded_def err_new_def err_build_def WithEntity_def WithMeta_def MarkDegradedDetail_def)

lemma failover_walk_degraded:
  assumes "\<not> isCatalogAnswer perr"
  shows "(case fst (failover_walk rs perr t w f) of
     Inr e \<Rightarrow> ce_fromreplica e | Inl err \<Rightarrow> \<not> isCatalogAnswer err \<or> IsDegraded err)"
  using assms
  by (induction rs perr t w f rule: failover_walk.induct) (auto simp: degraded_def IsDegraded_mark split: sum.split)

text \<open>
  C35. While the primary is unreachable no error is pinned: if the primary fails with
  anything but a not-found or an unavailable code, an error the directory derives from the
  replicas (or from the failure) leaves the cache alone, so the tenant is looked up again at
  once; a route read from a replica is kept, and its entry says where it came from.
\<close>

theorem outage_errors_not_pinned:
  assumes "cat_Get (fo_primary f) t w = Inl perr" "CodeOf perr \<noteq> CodeNotFound" "CodeOf perr \<noteq> CodeUnavailable"
    "dir_Shard (\<lambda>x. fst (Failover_Get f x w)) now1 now2 t d = (answer, d')" "dir_hit d now1 t = None"
  shows "(case answer of
            Inl err \<Rightarrow> d' = d \<and> dir_hit d' now1 t = None
          | Inr i \<Rightarrow> \<exists>e. fst (Failover_Get f t w) = Inr e \<and> ce_fromreplica e \<and> ce_state e = StateActive \<and> i = ShardID e)"
proof -
  let ?get = "\<lambda>x. fst (Failover_Get f x w)"
  have p: "\<not> isCatalogAnswer perr" using assms(2,3) by (simp add: isCatalogAnswer_def)
  have g: "?get t = fst (failover_walk (fo_replicas f) perr t w f)"
    using assms(1,2) by (simp add: Failover_Get_def primaryDefinitive_def err_of_def CodeOf_nil_def)
  note dg = failover_walk_degraded [OF p, of "fo_replicas f" t w f, folded g]
  have a: "answer = resolve ?get (cd_minVersion d) t" using assms(4,5)
    by (auto simp: dir_Shard_def Let_def split: if_splits)
  show ?thesis
  proof (cases answer)
    case (Inl err)
    have "\<not> cacheable (Inl err)"
      using a [unfolded Inl, symmetric] dg
      by (auto simp: cacheable_def resolve_def Let_def IsDegraded_mark split: sum.splits if_splits)
    then have "d' = d" using assms(4,5) a Inl by (simp add: dir_Shard_def Let_def)
    then show ?thesis using Inl assms(5) by simp
  next
    case (Inr i)
    then have "resolve ?get (cd_minVersion d) t = Inr i" using a by simp
    then obtain e where "?get t = Inr e" "ce_state e = StateActive" "i = ShardID e"
      unfolding resolve_Inr by blast
    then show ?thesis using Inr dg by simp
  qed
qed

definition down :: "gerr \<Rightarrow> unit Catalog_port" where
  "down err = \<lparr>cat_Get = \<lambda>t w. Inl err, cat_Put = \<lambda>e w. (Inl err, w), cat_List = \<lambda>c l w. Inl err\<rparr>"

theorem outage_errors_not_pinned_witness:
  "\<exists>err. dir_Shard (\<lambda>x. fst (Failover_Get (NewFailover (down (err_new CodeInternal ''dial timeout'' [])) [down (err_new CodeNotFound ''lagging'' [])]) x ()))
      5 6 ''t'' (CatalogDirectory 40 []) = (Inl err, CatalogDirectory 40 [])"
proof -
  let ?f = "NewFailover (down (err_new CodeInternal ''dial timeout'' [])) [down (err_new CodeNotFound ''lagging'' [])]"
  let ?d = "CatalogDirectory 40 []"
  obtain answer d' where a: "dir_Shard (\<lambda>x. fst (Failover_Get ?f x ())) 5 6 ''t'' ?d = (answer, d')" by fastforce
  have e: "fst (Failover_Get ?f ''t'' ()) = Inl (degraded ''t'')"
    by (simp add: Failover_Get_def NewFailover_def down_def primaryDefinitive_def err_of_def CodeOf_nil_def Let_def)
  have "case answer of Inl err \<Rightarrow> d' = ?d \<and> dir_hit d' 5 ''t'' = None
      | Inr i \<Rightarrow> \<exists>e. fst (Failover_Get ?f ''t'' ()) = Inr e \<and> ce_fromreplica e \<and> ce_state e = StateActive \<and> i = ShardID e"
    by (rule outage_errors_not_pinned [where perr = "err_new CodeInternal ''dial timeout'' []", OF _ _ _ a])
      (simp_all add: NewFailover_def down_def dir_hit_def CatalogDirectory_def)
  then show ?thesis using a e by (cases answer) auto
qed

text \<open>
  One outage is pinned: a connection-class failure of the primary carries the unavailable
  code, which the directory takes for an answer of the catalog. With no replica configured
  the tenant then stays unroutable for a whole time to live after the primary is back.
\<close>

theorem unavailable_outage_pinned:
  assumes "cat_Get (fo_primary f) t w = Inl perr" "CodeOf perr = CodeUnavailable" "\<not> IsDegraded perr"
    "fo_replicas f = []" "dir_hit d now1 t = None" "later < now2 + cd_ttl d"
  shows "fst (dir_Shard recovered later later' t (snd (dir_Shard (\<lambda>x. fst (Failover_Get f x w)) now1 now2 t d))) = Inl perr"
proof -
  have "resolve (\<lambda>x. fst (Failover_Get f x w)) (cd_minVersion d) t = Inl perr"
    using assms(1,2,4) by (simp add: resolve_def Failover_Get_def primaryDefinitive_def err_of_def CodeOf_nil_def)
  moreover have "cacheable (Inl perr)" using assms(2,3) by (simp add: cacheable_def isCatalogAnswer_def)
  ultimately show ?thesis using assms(5,6) by (simp add: dir_Shard_def dir_hit_def Let_def)
qed

theorem unavailable_outage_pinned_witness:
  "\<exists>err. fst (dir_Shard (\<lambda>t. Inr (demo_entry t 1)) 30 31 ''t''
     (snd (dir_Shard (\<lambda>x. fst (Failover_Get (NewFailover (down (err_new CodeUnavailable ''connection lost'' [])) []) x ())) 5 6 ''t''
        (CatalogDirectory 40 [])))) = Inl err"
  using unavailable_outage_pinned [of "NewFailover (down (err_new CodeUnavailable ''connection lost'' [])) []" "''t''" "()"
      "err_new CodeUnavailable ''connection lost'' []" "CatalogDirectory 40 []" 5 30 6 "\<lambda>t. Inr (demo_entry t 1)" 31]
  by (auto simp: NewFailover_def down_def IsDegraded_def err_new_def err_build_def zero_meta_def mget_or_def
      DegradedMetaValue_def CodeOf_def dir_hit_def CatalogDirectory_def)

end
