(* ===== verification/Provision.thy ===== *)
theory Provision
  imports Catalog
begin

text \<open>
  Tenant onboarding (\<^verbatim>\<open>core/provision\<close>): the two provisioners (a database per tenant,
  \<^verbatim>\<open>provision.go\<close>, and a schema per tenant, \<^verbatim>\<open>schema.go\<close>), suspending and resuming,
  and the fleet roller. The catalog is shared with other processes: \<open>env n\<close> is what they
  do to it before the provisioner's write number \<open>n\<close>; the identity when it runs alone. The
  physical operations act on a cluster state \<open>'o\<close>.
\<close>

section \<open>The ports\<close>

record 'o ClusterOps =
  co_CreateDatabase :: "string \<Rightarrow> string \<Rightarrow> 'o \<Rightarrow> gerr option \<times> 'o"
  co_Migrate :: "string \<Rightarrow> string \<Rightarrow> 'o \<Rightarrow> (gerr + string) \<times> 'o"

record 'o SchemaClusterOps =
  so_EnsureBootstrap :: "string \<Rightarrow> string \<Rightarrow> string \<Rightarrow> 'o \<Rightarrow> gerr option \<times> 'o"
  so_CreateSchema :: "string \<Rightarrow> string \<Rightarrow> string \<Rightarrow> 'o \<Rightarrow> gerr option \<times> 'o"
  so_MigrateSchema :: "string \<Rightarrow> string \<Rightarrow> string \<Rightarrow> string \<Rightarrow> 'o \<Rightarrow> (gerr + string) \<times> 'o"

section \<open>Transitions\<close>

definition transitionEntry :: "'w Catalog_port \<Rightarrow> Entry \<Rightarrow> CState \<Rightarrow> 'w \<Rightarrow> (gerr + Entry) \<times> 'w" where
  "transitionEntry cat e s w = cat_Put cat (e\<lparr>ce_state := s\<rparr>) w"

definition failEntry :: "'w Catalog_port \<Rightarrow> Entry \<Rightarrow> string \<Rightarrow> gerr \<Rightarrow> 'w \<Rightarrow> gerr \<times> 'w" where
  "failEntry cat e step cause w =
     (err_new CodeUnavailable ''tenant provisioning failed.''
        [WithEntity ''tenant'' (ce_tenant e), WithCause (Some (WrapErr (step @ '': '') cause))],
      snd (cat_Put cat (e\<lparr>ce_state := StateFailed\<rparr>) w))"

text \<open>
  What both provisioners do with a resumable entry: creating, the physical creation (a
  failure names its step); then migrating, the migration, active.
\<close>

definition advance_migrate :: "'w Catalog_port \<Rightarrow> (nat \<Rightarrow> 'w \<Rightarrow> 'w) \<Rightarrow> (Entry \<Rightarrow> 'o \<Rightarrow> (gerr + string) \<times> 'o)
    \<Rightarrow> Entry \<Rightarrow> 'w \<Rightarrow> 'o \<Rightarrow> (gerr + Entry) \<times> 'w \<times> 'o" where
  "advance_migrate cat env migrate entry w ph =
     (case transitionEntry cat entry StateMigrating (env 2 w) of
        (Inl err, w2) \<Rightarrow> (Inl err, w2, ph)
      | (Inr e2, w2) \<Rightarrow>
          (case migrate e2 ph of
             (Inl opErr, ph2) \<Rightarrow>
               (case failEntry cat e2 ''migrate'' opErr (env 3 w2) of (err, w3) \<Rightarrow> (Inl err, w3, ph2))
           | (Inr version, ph2) \<Rightarrow>
               (case transitionEntry cat (e2\<lparr>ce_version := version\<rparr>) StateActive (env 3 w2) of
                  (r, w3) \<Rightarrow> (r, w3, ph2))))"

definition advance :: "'w Catalog_port \<Rightarrow> (nat \<Rightarrow> 'w \<Rightarrow> 'w) \<Rightarrow> (Entry \<Rightarrow> 'o \<Rightarrow> (string \<times> gerr) option \<times> 'o)
    \<Rightarrow> (Entry \<Rightarrow> 'o \<Rightarrow> (gerr + string) \<times> 'o) \<Rightarrow> Entry \<Rightarrow> 'w \<Rightarrow> 'o \<Rightarrow> (gerr + Entry) \<times> 'w \<times> 'o" where
  "advance cat env create migrate entry w ph =
     (case transitionEntry cat entry StateCreating (env 1 w) of
        (Inl err, w1) \<Rightarrow> (Inl err, w1, ph)
      | (Inr e1, w1) \<Rightarrow>
          (case create e1 ph of
             (Some (step, opErr), ph1) \<Rightarrow>
               (case failEntry cat e1 step opErr (env 2 w1) of (err, w2) \<Rightarrow> (Inl err, w2, ph1))
           | (None, ph1) \<Rightarrow> advance_migrate cat env migrate e1 w1 ph1))"

section \<open>A database per tenant\<close>

definition databaseName :: "string \<Rightarrow> string" where
  "databaseName tenantID = ''fabriq_'' @ tenantID"

definition create_database :: "'o ClusterOps \<Rightarrow> Entry \<Rightarrow> 'o \<Rightarrow> (string \<times> gerr) option \<times> 'o" where
  "create_database ops e ph =
     (case co_CreateDatabase ops (ce_cluster e) (ce_database e) ph of
        (r, ph') \<Rightarrow> (map_option (Pair ''create database'') r, ph'))"

definition migrate_database :: "'o ClusterOps \<Rightarrow> Entry \<Rightarrow> 'o \<Rightarrow> (gerr + string) \<times> 'o" where
  "migrate_database ops e ph = co_Migrate ops (ce_cluster e) (ce_database e) ph"

definition pending_entry :: "string \<Rightarrow> string \<Rightarrow> string \<Rightarrow> string \<Rightarrow> Entry" where
  "pending_entry tenantID clusterID database schema =
     \<lparr>ce_tenant = tenantID, ce_cluster = clusterID, ce_database = database, ce_state = StatePending,
      ce_version = [], ce_schema = schema, ce_updated = 0, ce_fromreplica = False\<rparr>"

definition Provision :: "'w Catalog_port \<Rightarrow> 'o ClusterOps \<Rightarrow> (nat \<Rightarrow> 'w \<Rightarrow> 'w) \<Rightarrow> string \<Rightarrow> string
    \<Rightarrow> 'w \<Rightarrow> 'o \<Rightarrow> (gerr + Entry) \<times> 'w \<times> 'o" where
  "Provision cat ops env tenantID clusterID w ph =
     (if tenantID = [] \<or> clusterID = []
      then (Inl (err_new CodeInvalidInput ''provisioning requires a tenant id and a cluster id.'' []), w, ph)
      else case cat_Get cat tenantID w of
        Inl err \<Rightarrow>
          if CodeOf err = CodeNotFound
          then (case cat_Put cat (pending_entry tenantID clusterID (databaseName tenantID) []) (env 0 w) of
                  (Inl err', w0) \<Rightarrow> (Inl err', w0, ph)
                | (Inr entry, w0) \<Rightarrow> advance cat env (create_database ops) (migrate_database ops) entry w0 ph)
          else (Inl err, w, ph)
      | Inr entry \<Rightarrow>
          if ce_cluster entry \<noteq> clusterID
          then (Inl (err_new CodeConstraintViolation
                  ''tenant is already placed on another cluster (moves are a separate operation).''
                  [WithEntity ''tenant'' tenantID]), w, ph)
          else if ce_state entry = StateActive then (Inr entry, w, ph)
          else if ce_state entry = StateSuspended
          then (Inl (err_new CodeUnavailable ''tenant is suspended; resume it instead of re-provisioning.''
                  [WithEntity ''tenant'' tenantID]), w, ph)
          else advance cat env (create_database ops) (migrate_database ops) entry w ph)"

definition setState :: "'w Catalog_port \<Rightarrow> string \<Rightarrow> CState \<Rightarrow> 'w \<Rightarrow> (gerr + Entry) \<times> 'w" where
  "setState cat tenantID s w =
     (case cat_Get cat tenantID w of
        Inl err \<Rightarrow> (Inl err, w)
      | Inr entry \<Rightarrow> transitionEntry cat entry s w)"

definition Suspend :: "'w Catalog_port \<Rightarrow> string \<Rightarrow> 'w \<Rightarrow> (gerr + Entry) \<times> 'w" where
  "Suspend cat tenantID w = setState cat tenantID StateSuspended w"

definition Resume :: "'w Catalog_port \<Rightarrow> string \<Rightarrow> 'w \<Rightarrow> (gerr + Entry) \<times> 'w" where
  "Resume cat tenantID w =
     (case cat_Get cat tenantID w of
        Inl err \<Rightarrow> (Inl err, w)
      | Inr entry \<Rightarrow>
          if ce_state entry \<noteq> StateSuspended
          then (Inl (err_new CodeConstraintViolation ''only suspended tenants can be resumed.''
                  [WithEntity ''tenant'' tenantID]), w)
          else transitionEntry cat entry StateActive w)"

section \<open>A schema per tenant\<close>

record 'o SchemaProvisioner =
  sp_ops :: "'o SchemaClusterOps"
  sp_shared :: string
  sp_schemaName :: "string \<Rightarrow> gerr + string"

definition NewSchemaProvisioner :: "'o SchemaClusterOps \<Rightarrow> string \<Rightarrow> 'o SchemaProvisioner" where
  "NewSchemaProvisioner ops sharedSchema =
     \<lparr>sp_ops = ops, sp_shared = (if sharedSchema = [] then ''fabriq_shared'' else sharedSchema),
      sp_schemaName = SchemaForTenant\<rparr>"

definition create_schema :: "'o SchemaProvisioner \<Rightarrow> Entry \<Rightarrow> 'o \<Rightarrow> (string \<times> gerr) option \<times> 'o" where
  "create_schema p e ph =
     (case so_EnsureBootstrap (sp_ops p) (ce_cluster e) (ce_database e) (sp_shared p) ph of
        (Some opErr, ph') \<Rightarrow> (Some (''bootstrap'', opErr), ph')
      | (None, ph') \<Rightarrow>
          (case so_CreateSchema (sp_ops p) (ce_cluster e) (ce_database e) (ce_schema e) ph' of
             (Some opErr, ph2) \<Rightarrow> (Some (''create schema'', opErr), ph2)
           | (None, ph2) \<Rightarrow> (None, ph2)))"

definition migrate_schema :: "'o SchemaProvisioner \<Rightarrow> Entry \<Rightarrow> 'o \<Rightarrow> (gerr + string) \<times> 'o" where
  "migrate_schema p e ph =
     so_MigrateSchema (sp_ops p) (ce_cluster e) (ce_database e) (ce_schema e) (sp_shared p) ph"

definition SchemaProvision :: "'w Catalog_port \<Rightarrow> 'o SchemaProvisioner \<Rightarrow> (nat \<Rightarrow> 'w \<Rightarrow> 'w) \<Rightarrow> string \<Rightarrow> string
    \<Rightarrow> string \<Rightarrow> 'w \<Rightarrow> 'o \<Rightarrow> (gerr + Entry) \<times> 'w \<times> 'o" where
  "SchemaProvision cat p env tenantID clusterID database w ph =
     (if tenantID = [] \<or> clusterID = [] \<or> database = []
      then (Inl (err_new CodeInvalidInput
              ''schema provisioning requires a tenant id, a cluster id and a consolidation database.'' []), w, ph)
      else case sp_schemaName p tenantID of
        Inl err \<Rightarrow> (Inl err, w, ph)
      | Inr schema \<Rightarrow>
          (case cat_Get cat tenantID w of
             Inl err \<Rightarrow>
               if CodeOf err = CodeNotFound
               then (case cat_Put cat (pending_entry tenantID clusterID database schema) (env 0 w) of
                       (Inl err', w0) \<Rightarrow> (Inl err', w0, ph)
                     | (Inr entry, w0) \<Rightarrow> advance cat env (create_schema p) (migrate_schema p) entry w0 ph)
               else (Inl err, w, ph)
           | Inr entry \<Rightarrow>
               if ce_cluster entry \<noteq> clusterID \<or> ce_database entry \<noteq> database
               then (Inl (err_new CodeConstraintViolation
                       ''tenant is already placed on another cluster/database (moves are a separate operation).''
                       [WithEntity ''tenant'' tenantID]), w, ph)
               else if ce_state entry = StateActive then (Inr entry, w, ph)
               else if ce_state entry = StateSuspended
               then (Inl (err_new CodeUnavailable ''tenant is suspended; resume it instead of re-provisioning.''
                       [WithEntity ''tenant'' tenantID]), w, ph)
               else advance cat env (create_schema p) (migrate_schema p) entry w ph))"

definition SchemaSuspend :: "'w Catalog_port \<Rightarrow> string \<Rightarrow> 'w \<Rightarrow> (gerr + Entry) \<times> 'w" where
  "SchemaSuspend cat tenantID w =
     (case cat_Get cat tenantID w of
        Inl err \<Rightarrow> (Inl err, w)
      | Inr entry \<Rightarrow> transitionEntry cat entry StateSuspended w)"

definition SchemaResume :: "'w Catalog_port \<Rightarrow> string \<Rightarrow> 'w \<Rightarrow> (gerr + Entry) \<times> 'w" where
  "SchemaResume cat tenantID w =
     (case cat_Get cat tenantID w of
        Inl err \<Rightarrow> (Inl err, w)
      | Inr entry \<Rightarrow>
          if ce_state entry \<noteq> StateSuspended
          then (Inl (err_new CodeConstraintViolation ''only suspended tenants can be resumed.''
                  [WithEntity ''tenant'' tenantID]), w)
          else transitionEntry cat entry StateActive w)"

section \<open>The fleet roller\<close>

record MigrateAllOpts =
  mo_Batch :: int
  mo_MaxFailures :: int
  mo_TargetVersion :: string

record TenantResult =
  tr_tenant :: string
  tr_version :: string
  tr_skipped :: bool
  tr_err :: string

record Report =
  rp_migrated :: int
  rp_skipped :: int
  rp_failed :: int
  rp_results :: "TenantResult list"

definition fleet_defaults :: "MigrateAllOpts \<Rightarrow> MigrateAllOpts" where
  "fleet_defaults opts =
     opts\<lparr>mo_Batch := (if mo_Batch opts \<le> 0 then 8 else mo_Batch opts),
          mo_MaxFailures := (if mo_MaxFailures opts \<le> 0 then 3 else mo_MaxFailures opts)\<rparr>"

text \<open>What the worker for one tenant does under the lock; \<open>txt\<close> prints an error.\<close>

definition fleet_worker :: "'w Catalog_port \<Rightarrow> (gerr \<Rightarrow> string) \<Rightarrow> (Entry \<Rightarrow> gerr + string) \<Rightarrow> Entry \<Rightarrow> Report \<times> 'w \<Rightarrow> Report \<times> 'w" where
  "fleet_worker cat txt per e st =
     (case st of (rp, w) \<Rightarrow>
        (case per e of
           Inl err \<Rightarrow>
             (rp\<lparr>rp_failed := rp_failed rp + 1,
                 rp_results := rp_results rp @ [\<lparr>tr_tenant = ce_tenant e, tr_version = [], tr_skipped = False, tr_err = txt err\<rparr>]\<rparr>, w)
         | Inr version \<Rightarrow>
             (rp\<lparr>rp_migrated := rp_migrated rp + 1,
                 rp_results := rp_results rp @ [\<lparr>tr_tenant = ce_tenant e, tr_version = version, tr_skipped = False, tr_err = []\<rparr>]\<rparr>,
              snd (cat_Put cat (e\<lparr>ce_version := version\<rparr>) w))))"

text \<open>
  The loop over the entries. \<open>seen\<close> is the failure count the loop reads when it reaches
  an entry: it lags behind the workers still running. The workers' effects concern
  different tenants, so they are taken in the order of the entries.
\<close>

fun fleet_loop :: "'w Catalog_port \<Rightarrow> (gerr \<Rightarrow> string) \<Rightarrow> MigrateAllOpts \<Rightarrow> (Entry \<Rightarrow> int) \<Rightarrow> (Entry \<Rightarrow> gerr + string)
    \<Rightarrow> Entry list \<Rightarrow> Report \<times> 'w \<Rightarrow> Report \<times> 'w" where
  "fleet_loop cat txt opts seen per [] st = st"
| "fleet_loop cat txt opts seen per (e # es) st =
     (if ce_state e \<noteq> StateActive then fleet_loop cat txt opts seen per es st
      else if mo_TargetVersion opts \<noteq> [] \<and> ce_version e = mo_TargetVersion opts
      then fleet_loop cat txt opts seen per es
             (case st of (rp, w) \<Rightarrow>
                (rp\<lparr>rp_skipped := rp_skipped rp + 1,
                    rp_results := rp_results rp @ [\<lparr>tr_tenant = ce_tenant e, tr_version = ce_version e, tr_skipped = True, tr_err = []\<rparr>]\<rparr>, w))
      else if seen e \<ge> mo_MaxFailures opts then st
      else fleet_loop cat txt opts seen per es (fleet_worker cat txt per e st))"

definition empty_report :: Report where
  "empty_report = \<lparr>rp_migrated = 0, rp_skipped = 0, rp_failed = 0, rp_results = []\<rparr>"

text \<open>\<open>None\<close>: the listing never ends.\<close>

definition fleetMigrate :: "'w Catalog_port \<Rightarrow> (gerr \<Rightarrow> string) \<Rightarrow> MigrateAllOpts \<Rightarrow> (Entry \<Rightarrow> int) \<Rightarrow> (Entry \<Rightarrow> gerr + string)
    \<Rightarrow> 'w \<Rightarrow> (Report \<times> gerr option \<times> 'w) option" where
  "fleetMigrate cat txt opts0 seen per w =
     (let opts = fleet_defaults opts0
      in case list_loop cat 500 w [] [] of
           None \<Rightarrow> None
         | Some (Inl err) \<Rightarrow> Some (empty_report, Some err, w)
         | Some (Inr entries) \<Rightarrow>
             (case fleet_loop cat txt opts seen per entries (empty_report, w) of (rp, w') \<Rightarrow>
                let rp' = rp\<lparr>rp_results := sort_key tr_tenant (rp_results rp)\<rparr>
                in Some (rp',
                     (if rp_failed rp' \<ge> mo_MaxFailures opts
                      then Some (err_new CodeUnavailable ''fleet migration stopped at the failure budget.''
                             [WithMeta (zero_meta\<lparr>mt_detail := [(''failed'', int_str (rp_failed rp'))]\<rparr>)])
                      else None), w')))"

text \<open>Database mode; the migration of a tenant is read off the cluster as it is.\<close>

definition MigrateAll :: "'w Catalog_port \<Rightarrow> (gerr \<Rightarrow> string) \<Rightarrow> 'o ClusterOps \<Rightarrow> MigrateAllOpts \<Rightarrow> (Entry \<Rightarrow> int) \<Rightarrow> (string \<Rightarrow> 'o)
    \<Rightarrow> 'w \<Rightarrow> (Report \<times> gerr option \<times> 'w) option" where
  "MigrateAll cat txt ops opts seen phys w =
     fleetMigrate cat txt opts seen (\<lambda>e. fst (co_Migrate ops (ce_cluster e) (ce_database e) (phys (ce_tenant e)))) w"

definition SchemaMigrateAll :: "'w Catalog_port \<Rightarrow> (gerr \<Rightarrow> string) \<Rightarrow> 'o SchemaProvisioner \<Rightarrow> MigrateAllOpts \<Rightarrow> (Entry \<Rightarrow> int) \<Rightarrow> (string \<Rightarrow> 'o)
    \<Rightarrow> 'w \<Rightarrow> (Report \<times> gerr option \<times> 'w) option" where
  "SchemaMigrateAll cat txt p opts seen phys w =
     fleetMigrate cat txt opts seen (\<lambda>e. fst (migrate_schema p e (phys (ce_tenant e)))) w"

section \<open>Provisioning over any catalog that keeps the contract\<close>

definition resumable :: "CState \<Rightarrow> bool" where
  "resumable s = (s \<noteq> StateActive \<and> s \<noteq> StateSuspended)"

lemma ValidateEntry_state: "State_Valid s \<Longrightarrow> ValidateEntry e = None \<Longrightarrow> ValidateEntry (e\<lparr>ce_state := s\<rparr>) = None"
  by (simp add: ValidateEntry_def split: if_splits)

lemma ValidateEntry_version [simp]: "ValidateEntry (e\<lparr>ce_version := v\<rparr>) = ValidateEntry e"
  by (simp add: ValidateEntry_def)

lemma known_states: "State_Valid StateCreating" "State_Valid StateMigrating" "State_Valid StateActive"
  "State_Valid StateSuspended" "State_Valid StateFailed"
  by simp_all

text \<open>The physical steps look at the placement only, and succeed.\<close>

definition create_works :: "(Entry \<Rightarrow> 'o \<Rightarrow> (string \<times> gerr) option \<times> 'o) \<Rightarrow> Entry \<Rightarrow> 'o \<Rightarrow> 'o \<Rightarrow> bool" where
  "create_works create e ph ph1 = (\<forall>s u. create (e\<lparr>ce_state := s, ce_updated := u\<rparr>) ph = (None, ph1))"

definition migrate_works :: "(Entry \<Rightarrow> 'o \<Rightarrow> (gerr + string) \<times> 'o) \<Rightarrow> Entry \<Rightarrow> 'o \<Rightarrow> string \<Rightarrow> 'o \<Rightarrow> bool" where
  "migrate_works migrate e ph v ph2 = (\<forall>s u. migrate (e\<lparr>ce_state := s, ce_updated := u\<rparr>) ph = (Inr v, ph2))"

locale catalog_store = catalog_contract "cat_Get cat" "cat_Put cat" stamp ok
  for cat :: "'w Catalog_port" and stamp :: "'w \<Rightarrow> int" and ok :: "'w \<Rightarrow> bool"
begin

text \<open>\<open>holds w e\<close>: the entry \<open>e\<close> in the caller's hands is the one stored.\<close>

definition holds :: "'w \<Rightarrow> Entry \<Rightarrow> bool" where
  "holds w e = (ok w \<and> cat_Get cat (ce_tenant e) w = Inr e)"

lemma holds_valid: "holds w e \<Longrightarrow> ValidateEntry e = None"
  using get_present unfolding holds_def by blast

text \<open>Every write of the provisioner: the caller's entry with some fields changed.\<close>

lemma write_alone:
  assumes "holds w e" "ce_tenant e' = ce_tenant e" "ce_updated e' = ce_updated e" "ValidateEntry e' = None"
  shows "\<exists>w'. cat_Put cat e' w = (Inr (e'\<lparr>ce_updated := stamp w'\<rparr>), w') \<and> holds w' (e'\<lparr>ce_updated := stamp w'\<rparr>)
    \<and> (\<forall>t. t \<noteq> ce_tenant e \<longrightarrow> cat_Get cat t w' = cat_Get cat t w)"
proof -
  have o: "ok w" and g: "cat_Get cat (ce_tenant e) w = Inr e" using assms(1) by (simp_all add: holds_def)
  have "0 < ce_updated e" using get_present [OF o g] by simp
  then have "cas_matches (cat_Get cat) e' w" using g assms(2,3) by (simp add: cas_matches_def)
  then obtain e2 w' where p: "cat_Put cat e' w = (Inr e2, w')" using put_accepted [OF o assms(4)] by blast
  note wr = put_written [OF o p]
  have e2: "e2 = e'\<lparr>ce_updated := stamp w'\<rparr>" using wr by blast
  have "holds w' e2" using wr assms(2) unfolding holds_def e2 by simp
  moreover have "\<forall>t. t \<noteq> ce_tenant e \<longrightarrow> cat_Get cat t w' = cat_Get cat t w"
    using put_frame [OF p] assms(2) by simp
  ultimately show ?thesis using p unfolding e2 by blast
qed

lemma create_alone:
  assumes "ok w" "cat_Get cat (ce_tenant e) w = Inl err" "ce_updated e = 0" "ValidateEntry e = None"
  shows "\<exists>w'. cat_Put cat e w = (Inr (e\<lparr>ce_updated := stamp w'\<rparr>), w') \<and> holds w' (e\<lparr>ce_updated := stamp w'\<rparr>)
    \<and> (\<forall>t. t \<noteq> ce_tenant e \<longrightarrow> cat_Get cat t w' = cat_Get cat t w)"
proof -
  have "cas_matches (cat_Get cat) e w" using assms(2,3) by (simp add: cas_matches_def)
  then obtain e2 w' where p: "cat_Put cat e w = (Inr e2, w')" using put_accepted [OF assms(1,4)] by blast
  note wr = put_written [OF assms(1) p]
  have e2: "e2 = e\<lparr>ce_updated := stamp w'\<rparr>" using wr by blast
  then have "holds w' e2" using wr by (simp add: holds_def)
  then show ?thesis using p put_frame [OF p] unfolding e2 by blast
qed

lemma transition_alone:
  assumes "holds w e" "State_Valid s"
  obtains w' where "transitionEntry cat e s w = (Inr (e\<lparr>ce_state := s, ce_updated := stamp w'\<rparr>), w')"
    "holds w' (e\<lparr>ce_state := s, ce_updated := stamp w'\<rparr>)"
    "\<forall>t. t \<noteq> ce_tenant e \<longrightarrow> cat_Get cat t w' = cat_Get cat t w"
proof -
  have "ValidateEntry (e\<lparr>ce_state := s\<rparr>) = None"
    using assms(2) holds_valid [OF assms(1)] by (rule ValidateEntry_state)
  then show ?thesis using write_alone [OF assms(1), of "e\<lparr>ce_state := s\<rparr>"] that
    by (auto simp: transitionEntry_def)
qed

lemma failEntry_alone:
  assumes "holds w e"
  obtains err w' where "failEntry cat e step cause w = (err, w')"
    "holds w' (e\<lparr>ce_state := StateFailed, ce_updated := stamp w'\<rparr>)"
    "\<forall>t. t \<noteq> ce_tenant e \<longrightarrow> cat_Get cat t w' = cat_Get cat t w"
proof -
  obtain w' where "transitionEntry cat e StateFailed w = (Inr (e\<lparr>ce_state := StateFailed, ce_updated := stamp w'\<rparr>), w')"
    "holds w' (e\<lparr>ce_state := StateFailed, ce_updated := stamp w'\<rparr>)"
    "\<forall>t. t \<noteq> ce_tenant e \<longrightarrow> cat_Get cat t w' = cat_Get cat t w"
    using transition_alone [OF assms, of StateFailed] by auto
  then show ?thesis using that by (simp add: failEntry_def transitionEntry_def)
qed

text \<open>
  Running alone, the provisioner ends with the entry active at the migrated version, or with
  an error and a resumable entry that differs only in its state.
\<close>

definition provisioned :: "Entry \<Rightarrow> 'w \<Rightarrow> (gerr + Entry) \<Rightarrow> 'w \<Rightarrow> bool" where
  "provisioned e w r w' =
     ((\<forall>t. t \<noteq> ce_tenant e \<longrightarrow> cat_Get cat t w' = cat_Get cat t w)
      \<and> (case r of
           Inr e' \<Rightarrow> holds w' e' \<and> (\<exists>v u. e' = e\<lparr>ce_state := StateActive, ce_version := v, ce_updated := u\<rparr>)
         | Inl err \<Rightarrow> (\<exists>s u. holds w' (e\<lparr>ce_state := s, ce_updated := u\<rparr>) \<and> resumable s)))"

lemma provisioned_later:
  assumes "provisioned (e\<lparr>ce_state := s, ce_updated := u\<rparr>) w1 r w'"
    "\<forall>t. t \<noteq> ce_tenant e \<longrightarrow> cat_Get cat t w1 = cat_Get cat t w"
  shows "provisioned e w r w'"
  using assms by (auto simp: provisioned_def split: sum.splits)

lemma fail_alone:
  assumes "holds w e"
  obtains err w' where "failEntry cat e step cause w = (err, w')" "provisioned e w (Inl err) w'"
proof -
  obtain err w' where "failEntry cat e step cause w = (err, w')"
    "holds w' (e\<lparr>ce_state := StateFailed, ce_updated := stamp w'\<rparr>)"
    "\<forall>t. t \<noteq> ce_tenant e \<longrightarrow> cat_Get cat t w' = cat_Get cat t w"
    by (rule failEntry_alone [OF assms])
  moreover have "resumable StateFailed" by (simp add: resumable_def)
  ultimately show ?thesis using that by (auto simp: provisioned_def)
qed

lemma activate_alone:
  assumes "holds w e"
  obtains e' w' where "transitionEntry cat (e\<lparr>ce_version := v\<rparr>) StateActive w = (Inr e', w')"
    "provisioned e w (Inr e') w'" "ce_version e' = v"
proof -
  let ?a = "e\<lparr>ce_version := v, ce_state := StateActive\<rparr>"
  have "ValidateEntry ?a = None"
    using holds_valid [OF assms] ValidateEntry_state [of StateActive "e\<lparr>ce_version := v\<rparr>"] by simp
  then obtain w' where 3: "cat_Put cat ?a w = (Inr (?a\<lparr>ce_updated := stamp w'\<rparr>), w')"
      "holds w' (?a\<lparr>ce_updated := stamp w'\<rparr>)" "\<forall>t. t \<noteq> ce_tenant e \<longrightarrow> cat_Get cat t w' = cat_Get cat t w"
    using write_alone [OF assms, of ?a] by auto
  have c: "?a\<lparr>ce_updated := u\<rparr> = e\<lparr>ce_state := StateActive, ce_version := v, ce_updated := u\<rparr>" for u by simp
  show ?thesis
  proof (rule that)
    show "transitionEntry cat (e\<lparr>ce_version := v\<rparr>) StateActive w = (Inr (?a\<lparr>ce_updated := stamp w'\<rparr>), w')"
      using 3(1) by (simp add: transitionEntry_def)
    show "provisioned e w (Inr (?a\<lparr>ce_updated := stamp w'\<rparr>)) w'"
      using 3(2,3) unfolding provisioned_def c by auto
  qed simp
qed

lemma advance_migrate_alone:
  assumes "holds w e"
  obtains r w' ph' where "advance_migrate cat (\<lambda>_ w. w) migrate e w ph = (r, w', ph')" "provisioned e w r w'"
    "\<forall>v ph2. migrate_works migrate e ph v ph2 \<longrightarrow> (\<exists>e'. r = Inr e' \<and> ce_version e' = v \<and> ph' = ph2)"
proof -
  obtain w2 where 2: "transitionEntry cat e StateMigrating w = (Inr (e\<lparr>ce_state := StateMigrating, ce_updated := stamp w2\<rparr>), w2)"
    "holds w2 (e\<lparr>ce_state := StateMigrating, ce_updated := stamp w2\<rparr>)" "\<forall>t. t \<noteq> ce_tenant e \<longrightarrow> cat_Get cat t w2 = cat_Get cat t w"
    by (rule transition_alone [OF assms known_states(2)])
  let ?e2 = "e\<lparr>ce_state := StateMigrating, ce_updated := stamp w2\<rparr>"
  obtain mr ph2 where mr: "migrate ?e2 ph = (mr, ph2)" by fastforce
  show ?thesis
  proof (cases mr)
    case (Inl cause)
    obtain err w3 where 3: "failEntry cat ?e2 ''migrate'' cause w2 = (err, w3)" "provisioned ?e2 w2 (Inl err) w3"
      by (rule fail_alone [OF 2(2)])
    show ?thesis
    proof (rule that)
      show "advance_migrate cat (\<lambda>_ w. w) migrate e w ph = (Inl err, w3, ph2)"
        using 2(1) 3(1) mr Inl by (simp add: advance_migrate_def)
      show "provisioned e w (Inl err) w3" using provisioned_later [OF 3(2) 2(3)] .
      show "\<forall>v ph2'. migrate_works migrate e ph v ph2' \<longrightarrow> (\<exists>e'. Inl err = Inr e' \<and> ce_version e' = v \<and> ph2 = ph2')"
        using mr Inl by (simp add: migrate_works_def) (metis Inl_Inr_False prod.inject)
    qed
  next
    case (Inr v)
    obtain e' w3 where 3: "transitionEntry cat (?e2\<lparr>ce_version := v\<rparr>) StateActive w2 = (Inr e', w3)"
      "provisioned ?e2 w2 (Inr e') w3" "ce_version e' = v"
      by (rule activate_alone [OF 2(2)])
    show ?thesis
    proof (rule that)
      show "advance_migrate cat (\<lambda>_ w. w) migrate e w ph = (Inr e', w3, ph2)"
        using 2(1) 3(1) mr Inr by (simp add: advance_migrate_def)
      show "provisioned e w (Inr e') w3" using provisioned_later [OF 3(2) 2(3)] .
      show "\<forall>v' ph2'. migrate_works migrate e ph v' ph2' \<longrightarrow> (\<exists>x. Inr e' = Inr x \<and> ce_version x = v' \<and> ph2 = ph2')"
        using mr Inr 3(3) by (simp add: migrate_works_def) (metis sum.inject(2) prod.inject)
    qed
  qed
qed

lemma advance_alone:
  assumes "holds w e"
  obtains r w' ph' where "advance cat (\<lambda>_ w. w) create migrate e w ph = (r, w', ph')" "provisioned e w r w'"
    "\<forall>v ph1 ph2. create_works create e ph ph1 \<and> migrate_works migrate e ph1 v ph2 \<longrightarrow>
       (\<exists>e'. r = Inr e' \<and> ce_version e' = v \<and> ph' = ph2)"
proof -
  obtain w1 where 1: "transitionEntry cat e StateCreating w = (Inr (e\<lparr>ce_state := StateCreating, ce_updated := stamp w1\<rparr>), w1)"
    "holds w1 (e\<lparr>ce_state := StateCreating, ce_updated := stamp w1\<rparr>)" "\<forall>t. t \<noteq> ce_tenant e \<longrightarrow> cat_Get cat t w1 = cat_Get cat t w"
    by (rule transition_alone [OF assms known_states(1)])
  let ?e1 = "e\<lparr>ce_state := StateCreating, ce_updated := stamp w1\<rparr>"
  obtain cr ph1 where cr: "create ?e1 ph = (cr, ph1)" by fastforce
  show ?thesis
  proof (cases cr)
    case (Some sc)
    obtain step cause where sc: "sc = (step, cause)" by fastforce
    obtain err w2 where 2: "failEntry cat ?e1 step cause w1 = (err, w2)" "provisioned ?e1 w1 (Inl err) w2"
      by (rule fail_alone [OF 1(2)])
    show ?thesis
    proof (rule that)
      show "advance cat (\<lambda>_ w. w) create migrate e w ph = (Inl err, w2, ph1)"
        using 1(1) 2(1) cr Some sc by (simp add: advance_def)
      show "provisioned e w (Inl err) w2" using provisioned_later [OF 2(2) 1(3)] .
      have "\<not> create_works create e ph ph1'" for ph1'
        using cr Some by (simp add: create_works_def) (metis option.distinct(1) prod.inject)
      then show "\<forall>v ph1' ph2'. create_works create e ph ph1' \<and> migrate_works migrate e ph1' v ph2' \<longrightarrow>
          (\<exists>e'. Inl err = Inr e' \<and> ce_version e' = v \<and> ph1 = ph2')" by blast
    qed
  next
    case None
    obtain r w2 ph2 where 2: "advance_migrate cat (\<lambda>_ w. w) migrate ?e1 w1 ph1 = (r, w2, ph2)" "provisioned ?e1 w1 r w2"
      "\<forall>v ph2'. migrate_works migrate ?e1 ph1 v ph2' \<longrightarrow> (\<exists>e'. r = Inr e' \<and> ce_version e' = v \<and> ph2 = ph2')"
      by (rule advance_migrate_alone [OF 1(2)])
    show ?thesis
    proof (rule that)
      show "advance cat (\<lambda>_ w. w) create migrate e w ph = (r, w2, ph2)"
        using 1(1) 2(1) cr None by (simp add: advance_def)
      show "provisioned e w r w2" using provisioned_later [OF 2(2) 1(3)] .
      have "ph1' = ph1" if "create_works create e ph ph1'" for ph1'
        using that cr by (simp add: create_works_def)
      moreover have "migrate_works migrate ?e1 ph1 v ph2'" if "migrate_works migrate e ph1 v ph2'" for v ph2'
        using that by (simp add: migrate_works_def)
      ultimately show "\<forall>v ph1' ph2'. create_works create e ph ph1' \<and> migrate_works migrate e ph1' v ph2' \<longrightarrow>
          (\<exists>e'. r = Inr e' \<and> ce_version e' = v \<and> ph2 = ph2')" using 2(3) by blast
    qed
  qed
qed

end

section \<open>Provisioning beside other writers\<close>

text \<open>A physical step does not look at the token.\<close>

definition token_blind :: "(Entry \<Rightarrow> 'o \<Rightarrow> 'r) \<Rightarrow> bool" where
  "token_blind f = (\<forall>e u. f (e\<lparr>ce_updated := u\<rparr>) = f e)"

lemma database_steps_blind [simp]: "token_blind (create_database ops)" "token_blind (migrate_database ops)"
  by (simp_all add: token_blind_def create_database_def migrate_database_def fun_eq_iff)

context catalog_store
begin

abbreviation others :: "(nat \<Rightarrow> Entry list) \<Rightarrow> nat \<Rightarrow> 'w \<Rightarrow> 'w" where
  "others gaps n \<equiv> writes (cat_Put cat) (gaps n)"

lemma write_shared:
  assumes "holds w e" "ce_tenant x = ce_tenant e" "ce_updated x = ce_updated e"
    "cat_Put cat x (writes (cat_Put cat) es w) = (Inr e1, w1)"
  shows "e1 = x\<lparr>ce_updated := stamp w1\<rparr> \<and> holds w1 e1"
proof -
  have h: "ok w" "cat_Get cat (ce_tenant e) w = Inr e" using assms(1) by (simp_all add: holds_def)
  note c = cas_not_overtaken [OF h assms(2,3,4)]
  have e1: "e1 = x\<lparr>ce_updated := stamp w1\<rparr>" using c by blast
  then have "ce_tenant e1 = ce_tenant e" using assms(2) by simp
  then show ?thesis using c e1 by (simp add: holds_def)
qed

lemma advance_migrate_shared:
  assumes "holds w e" "token_blind migrate"
    "advance_migrate cat (others gaps) migrate e w ph = (Inr e', w', ph')"
    "holds w0 (e\<lparr>ce_updated := u0\<rparr>)"
  shows "\<exists>e0 w1. advance_migrate cat (\<lambda>_ w. w) migrate (e\<lparr>ce_updated := u0\<rparr>) w0 ph = (Inr e0, w1, ph')
    \<and> e' = e0\<lparr>ce_updated := ce_updated e'\<rparr> \<and> holds w' e' \<and> ce_state e' = StateActive \<and> ce_tenant e' = ce_tenant e"
proof -
  obtain e2 w2 where 2: "transitionEntry cat e StateMigrating (others gaps 2 w) = (Inr e2, w2)"
    using assms(3) by (auto simp: advance_migrate_def split: prod.splits sum.splits)
  have h2: "e2 = e\<lparr>ce_state := StateMigrating, ce_updated := stamp w2\<rparr>" "holds w2 e2"
    using write_shared [OF assms(1) _ _ 2 [unfolded transitionEntry_def]] by auto
  obtain v where v: "migrate e2 ph = (Inr v, ph')"
    "transitionEntry cat (e2\<lparr>ce_version := v\<rparr>) StateActive (others gaps 3 w2) = (Inr e', w')"
    using assms(3) 2 by (auto simp: advance_migrate_def failEntry_def split: prod.splits sum.splits)
  have h3: "e' = e2\<lparr>ce_version := v, ce_state := StateActive, ce_updated := stamp w'\<rparr>" "holds w' e'"
    using write_shared [OF h2(2) _ _ v(2) [unfolded transitionEntry_def]] by auto
  let ?e = "e\<lparr>ce_updated := u0\<rparr>"
  obtain x where x: "transitionEntry cat ?e StateMigrating w0 = (Inr (?e\<lparr>ce_state := StateMigrating, ce_updated := stamp x\<rparr>), x)"
    "holds x (?e\<lparr>ce_state := StateMigrating, ce_updated := stamp x\<rparr>)"
    using transition_alone [OF assms(4) known_states(2)] by blast
  let ?x = "?e\<lparr>ce_state := StateMigrating, ce_updated := stamp x\<rparr>"
  have "?x = e2\<lparr>ce_updated := stamp x\<rparr>" using h2(1) by simp
  then have mx: "migrate ?x ph = (Inr v, ph')" using v(1) assms(2) unfolding token_blind_def by metis
  obtain y y' where y: "transitionEntry cat (?x\<lparr>ce_version := v\<rparr>) StateActive x = (Inr y, y')"
    "provisioned ?x x (Inr y) y'" "ce_version y = v"
    by (rule activate_alone [OF x(2)])
  have "advance_migrate cat (\<lambda>_ w. w) migrate ?e w0 ph = (Inr y, y', ph')"
    using x(1) mx y(1) by (simp add: advance_migrate_def)
  moreover obtain u where "y = ?x\<lparr>ce_state := StateActive, ce_version := v, ce_updated := u\<rparr>"
    using y(2,3) by (auto simp: provisioned_def)
  then have "e' = y\<lparr>ce_updated := ce_updated e'\<rparr>" using h3(1) h2(1) by simp
  moreover have "ce_state e' = StateActive" "ce_tenant e' = ce_tenant e" using h3(1) h2(1) by simp_all
  ultimately show ?thesis using h3(2) by blast
qed

lemma advance_shared:
  assumes "holds w e" "token_blind create" "token_blind migrate"
    "advance cat (others gaps) create migrate e w ph = (Inr e', w', ph')"
    "holds w0 (e\<lparr>ce_updated := u0\<rparr>)"
  shows "\<exists>e0 w1. advance cat (\<lambda>_ w. w) create migrate (e\<lparr>ce_updated := u0\<rparr>) w0 ph = (Inr e0, w1, ph')
    \<and> e' = e0\<lparr>ce_updated := ce_updated e'\<rparr> \<and> holds w' e' \<and> ce_state e' = StateActive \<and> ce_tenant e' = ce_tenant e"
proof -
  obtain e1 w1 where 1: "transitionEntry cat e StateCreating (others gaps 1 w) = (Inr e1, w1)"
    using assms(4) by (auto simp: advance_def split: prod.splits sum.splits)
  have h1: "e1 = e\<lparr>ce_state := StateCreating, ce_updated := stamp w1\<rparr>" "holds w1 e1"
    using write_shared [OF assms(1) _ _ 1 [unfolded transitionEntry_def]] by auto
  obtain ph1 where c: "create e1 ph = (None, ph1)" "advance_migrate cat (others gaps) migrate e1 w1 ph1 = (Inr e', w', ph')"
    using assms(4) 1 by (auto simp: advance_def failEntry_def split: prod.splits sum.splits option.splits)
  let ?e = "e\<lparr>ce_updated := u0\<rparr>"
  obtain x where x: "transitionEntry cat ?e StateCreating w0 = (Inr (?e\<lparr>ce_state := StateCreating, ce_updated := stamp x\<rparr>), x)"
    "holds x (?e\<lparr>ce_state := StateCreating, ce_updated := stamp x\<rparr>)"
    using transition_alone [OF assms(5) known_states(1)] by blast
  let ?x = "?e\<lparr>ce_state := StateCreating, ce_updated := stamp x\<rparr>"
  have xe: "?x = e1\<lparr>ce_updated := stamp x\<rparr>" using h1(1) by simp
  have cx: "create ?x ph = (None, ph1)" using c(1) assms(2) xe unfolding token_blind_def by metis
  obtain e0 w2 where "advance_migrate cat (\<lambda>_ w. w) migrate (e1\<lparr>ce_updated := stamp x\<rparr>) x ph1 = (Inr e0, w2, ph')"
    "e' = e0\<lparr>ce_updated := ce_updated e'\<rparr> \<and> holds w' e' \<and> ce_state e' = StateActive \<and> ce_tenant e' = ce_tenant e1"
    using advance_migrate_shared [OF h1(2) assms(3) c(2), of x "stamp x"] x(2) xe by auto
  moreover have "ce_tenant e1 = ce_tenant e" using h1(1) by simp
  ultimately show ?thesis using x(1) cx xe by (auto simp: advance_def)
qed

end

interpretation fakestore: catalog_store fake_catalog fc_clock fake_ok
proof -
  have "cat_Get fake_catalog = FakeCatalog_Get" "cat_Put fake_catalog = FakeCatalog_Put"
    by (simp_all add: fake_catalog_def)
  then show "catalog_store fake_catalog fc_clock fake_ok"
    using fakecat.catalog_contract_axioms by (simp add: catalog_store_def)
qed

lemma fake_port [simp]:
  "cat_Get fake_catalog = FakeCatalog_Get" "cat_Put fake_catalog = FakeCatalog_Put" "cat_List fake_catalog = FakeCatalog_List"
  by (simp_all add: fake_catalog_def)

lemma fake_holds: "fakestore.holds w e \<longleftrightarrow> fake_ok w \<and> mget (fc_entries w) (ce_tenant e) = Some e"
  by (simp add: fakestore.holds_def)

lemma pending_valid: "t \<noteq> [] \<Longrightarrow> c \<noteq> [] \<Longrightarrow> db \<noteq> [] \<Longrightarrow> s = [] \<or> ValidSchema s \<Longrightarrow> ValidateEntry (pending_entry t c db s) = None"
  by (auto simp: ValidateEntry_def pending_entry_def)

lemma databaseName_ne [simp]: "databaseName t \<noteq> []"
  by (simp add: databaseName_def)

section \<open>Database provisioning\<close>

text \<open>The entry provisioning works on: the stored one, or the row it creates first.\<close>

definition start_entry :: "string \<Rightarrow> string \<Rightarrow> FakeCatalog \<Rightarrow> Entry" where
  "start_entry t c w = (case mget (fc_entries w) t of Some e \<Rightarrow> e | None \<Rightarrow> pending_entry t c (databaseName t) [])"

text \<open>The tenant has no row yet, or one on this cluster that an earlier attempt left behind.\<close>

definition provisionable :: "string \<Rightarrow> string \<Rightarrow> FakeCatalog \<Rightarrow> bool" where
  "provisionable t c w = (t \<noteq> [] \<and> c \<noteq> [] \<and> fake_ok w
     \<and> ce_cluster (start_entry t c w) = c \<and> resumable (ce_state (start_entry t c w)))"

lemma provisionable_cases:
  assumes "provisionable t c w"
  obtains w0 u where "fakestore.holds w0 ((start_entry t c w)\<lparr>ce_updated := u\<rparr>)"
    "ce_tenant (start_entry t c w) = t"
    "\<forall>t'. t' \<noteq> t \<longrightarrow> FakeCatalog_Get t' w0 = FakeCatalog_Get t' w"
    "\<forall>(ops :: 'o ClusterOps) ph. Provision fake_catalog ops (\<lambda>_ w. w) t c w ph =
       advance fake_catalog (\<lambda>_ w. w) (create_database ops) (migrate_database ops) ((start_entry t c w)\<lparr>ce_updated := u\<rparr>) w0 ph"
proof (cases "mget (fc_entries w) t")
  case (Some e)
  have ok: "fake_ok w" and ne: "t \<noteq> []" "c \<noteq> []" using assms by (simp_all add: provisionable_def)
  have st: "start_entry t c w = e" "ce_cluster e = c" "resumable (ce_state e)"
    using assms Some by (simp_all add: provisionable_def start_entry_def)
  have t: "ce_tenant e = t" using fake_ok_mget [OF ok Some] by simp
  have e: "e\<lparr>ce_updated := ce_updated e\<rparr> = e" by simp
  show ?thesis
  proof (rule that [of w "ce_updated e"])
    show "fakestore.holds w ((start_entry t c w)\<lparr>ce_updated := ce_updated e\<rparr>)" using ok Some t st(1) by (simp add: fake_holds)
    show "\<forall>(ops :: 'o ClusterOps) ph. Provision fake_catalog ops (\<lambda>_ w. w) t c w ph =
       advance fake_catalog (\<lambda>_ w. w) (create_database ops) (migrate_database ops) ((start_entry t c w)\<lparr>ce_updated := ce_updated e\<rparr>) w ph"
      using Some ne st by (auto simp: Provision_def FakeCatalog_Get_def resumable_def)
  qed (simp_all add: st t)
next
  case None
  let ?p = "pending_entry t c (databaseName t) []"
  have ok: "fake_ok w" and ne: "t \<noteq> []" "c \<noteq> []" using assms by (simp_all add: provisionable_def)
  have st: "start_entry t c w = ?p" using None by (simp add: start_entry_def)
  obtain err where g: "FakeCatalog_Get t w = Inl err" "CodeOf err = CodeNotFound"
    using None fake_get_none by (cases "FakeCatalog_Get t w") auto
  have tp: "ce_tenant ?p = t" "ce_updated ?p = 0" by (simp_all add: pending_entry_def)
  obtain w0 where w0: "FakeCatalog_Put ?p w = (Inr (?p\<lparr>ce_updated := fc_clock w0\<rparr>), w0)"
    "fakestore.holds w0 (?p\<lparr>ce_updated := fc_clock w0\<rparr>)" "\<forall>t'. t' \<noteq> t \<longrightarrow> FakeCatalog_Get t' w0 = FakeCatalog_Get t' w"
    using fakestore.create_alone [OF ok, of ?p err] pending_valid [OF ne, of "databaseName t" "[]"] tp g(1) by auto
  show ?thesis
  proof (rule that [of w0 "fc_clock w0"])
    show "\<forall>(ops :: 'o ClusterOps) ph. Provision fake_catalog ops (\<lambda>_ w. w) t c w ph =
       advance fake_catalog (\<lambda>_ w. w) (create_database ops) (migrate_database ops) ((start_entry t c w)\<lparr>ce_updated := fc_clock w0\<rparr>) w0 ph"
      using w0(1) g ne st by (simp add: Provision_def)
  qed (use w0 st tp in simp_all)
qed

text \<open>One attempt, whatever the cluster does.\<close>

lemma Provision_attempt:
  assumes "provisionable t c w"
  obtains r w' ph' where "Provision fake_catalog ops (\<lambda>_ w. w) t c w ph = (r, w', ph')"
    "\<forall>t'. t' \<noteq> t \<longrightarrow> FakeCatalog_Get t' w' = FakeCatalog_Get t' w"
    "\<forall>err. r = Inl err \<longrightarrow> provisionable t c w' \<and> ce_database (start_entry t c w') = ce_database (start_entry t c w)"
    "\<forall>e. r = Inr e \<longrightarrow> FakeCatalog_Get t w' = Inr e \<and> ce_state e = StateActive \<and> ce_cluster e = c
       \<and> ce_database e = ce_database (start_entry t c w)"
    "\<forall>v ph1 ph2. co_CreateDatabase ops c (ce_database (start_entry t c w)) ph = (None, ph1)
       \<and> co_Migrate ops c (ce_database (start_entry t c w)) ph1 = (Inr v, ph2) \<longrightarrow> (\<exists>e. r = Inr e \<and> ce_version e = v \<and> ph' = ph2)"
proof -
  obtain w0 u where h: "fakestore.holds w0 ((start_entry t c w)\<lparr>ce_updated := u\<rparr>)" "ce_tenant (start_entry t c w) = t"
    "\<forall>t'. t' \<noteq> t \<longrightarrow> FakeCatalog_Get t' w0 = FakeCatalog_Get t' w"
    "Provision fake_catalog ops (\<lambda>_ w. w) t c w ph =
       advance fake_catalog (\<lambda>_ w. w) (create_database ops) (migrate_database ops) ((start_entry t c w)\<lparr>ce_updated := u\<rparr>) w0 ph"
    using provisionable_cases [OF assms] by metis
  let ?e = "(start_entry t c w)\<lparr>ce_updated := u\<rparr>"
  have pc: "t \<noteq> []" "c \<noteq> []" "ce_cluster (start_entry t c w) = c" using assms by (simp_all add: provisionable_def)
  obtain r w' ph' where a: "advance fake_catalog (\<lambda>_ w. w) (create_database ops) (migrate_database ops) ?e w0 ph = (r, w', ph')"
    "fakestore.provisioned ?e w0 r w'"
    "\<forall>v ph1 ph2. create_works (create_database ops) ?e ph ph1 \<and> migrate_works (migrate_database ops) ?e ph1 v ph2 \<longrightarrow>
       (\<exists>e'. r = Inr e' \<and> ce_version e' = v \<and> ph' = ph2)"
    by (rule fakestore.advance_alone [OF h(1)])
  show ?thesis
  proof (rule that)
    show "Provision fake_catalog ops (\<lambda>_ w. w) t c w ph = (r, w', ph')" using a(1) h(4) by simp
    show "\<forall>t'. t' \<noteq> t \<longrightarrow> FakeCatalog_Get t' w' = FakeCatalog_Get t' w"
      using a(2) h(2,3) by (simp add: fakestore.provisioned_def)
    show "\<forall>err. r = Inl err \<longrightarrow> provisionable t c w' \<and> ce_database (start_entry t c w') = ce_database (start_entry t c w)"
    proof (intro allI impI)
      fix err assume "r = Inl err"
      then obtain s u' where s: "fakestore.holds w' (?e\<lparr>ce_state := s, ce_updated := u'\<rparr>)" "resumable s"
        using a(2) by (auto simp: fakestore.provisioned_def)
      then have "fake_ok w'" "mget (fc_entries w') t = Some (?e\<lparr>ce_state := s, ce_updated := u'\<rparr>)"
        using h(2) by (simp_all add: fake_holds)
      then show "provisionable t c w' \<and> ce_database (start_entry t c w') = ce_database (start_entry t c w)"
        using s(2) pc by (simp add: provisionable_def start_entry_def [of t c w'])
    qed
    show "\<forall>e. r = Inr e \<longrightarrow> FakeCatalog_Get t w' = Inr e \<and> ce_state e = StateActive \<and> ce_cluster e = c
       \<and> ce_database e = ce_database (start_entry t c w)"
      using a(2) h(2) pc by (auto simp: fakestore.provisioned_def fake_holds)
    show "\<forall>v ph1 ph2. co_CreateDatabase ops c (ce_database (start_entry t c w)) ph = (None, ph1)
       \<and> co_Migrate ops c (ce_database (start_entry t c w)) ph1 = (Inr v, ph2) \<longrightarrow> (\<exists>e. r = Inr e \<and> ce_version e = v \<and> ph' = ph2)"
    proof (intro allI impI)
      fix v ph1 ph2
      assume "co_CreateDatabase ops c (ce_database (start_entry t c w)) ph = (None, ph1)
        \<and> co_Migrate ops c (ce_database (start_entry t c w)) ph1 = (Inr v, ph2)"
      then have "create_works (create_database ops) ?e ph ph1" "migrate_works (migrate_database ops) ?e ph1 v ph2"
        using pc by (simp_all add: create_works_def migrate_works_def create_database_def migrate_database_def)
      then show "\<exists>e. r = Inr e \<and> ce_version e = v \<and> ph' = ph2" using a(3) by blast
    qed
  qed
qed

text \<open>
  C31. Provisioning can be retried until it works: from no row, or from whatever an earlier
  attempt left, one attempt either activates the tenant (with its entry stored) or fails and
  leaves a row from which the next attempt succeeds as soon as the cluster does, at the
  version the migration reports and in the same database; other tenants are never touched.
\<close>

theorem provision_retry_converges:
  fixes ops1 :: "'o ClusterOps"
  assumes "provisionable t c w"
  shows "\<exists>r w1 ph1. Provision fake_catalog ops1 (\<lambda>_ w. w) t c w ph = (r, w1, ph1)
    \<and> (\<forall>t'. t' \<noteq> t \<longrightarrow> FakeCatalog_Get t' w1 = FakeCatalog_Get t' w)
    \<and> (case r of
         Inr e \<Rightarrow> FakeCatalog_Get t w1 = Inr e \<and> ce_state e = StateActive \<and> ce_cluster e = c
       | Inl err \<Rightarrow> \<forall>(ops2 :: 'o ClusterOps) ph2 ph3 v ph4.
           co_CreateDatabase ops2 c (ce_database (start_entry t c w)) ph2 = (None, ph3)
           \<and> co_Migrate ops2 c (ce_database (start_entry t c w)) ph3 = (Inr v, ph4) \<longrightarrow>
           (\<exists>e w2. Provision fake_catalog ops2 (\<lambda>_ w. w) t c w1 ph2 = (Inr e, w2, ph4)
              \<and> FakeCatalog_Get t w2 = Inr e \<and> ce_state e = StateActive \<and> ce_version e = v
              \<and> ce_database e = ce_database (start_entry t c w)))"
proof -
  obtain r w1 ph1 where 1: "Provision fake_catalog ops1 (\<lambda>_ w. w) t c w ph = (r, w1, ph1)"
    "\<forall>t'. t' \<noteq> t \<longrightarrow> FakeCatalog_Get t' w1 = FakeCatalog_Get t' w"
    "\<forall>err. r = Inl err \<longrightarrow> provisionable t c w1 \<and> ce_database (start_entry t c w1) = ce_database (start_entry t c w)"
    "\<forall>e. r = Inr e \<longrightarrow> FakeCatalog_Get t w1 = Inr e \<and> ce_state e = StateActive \<and> ce_cluster e = c
       \<and> ce_database e = ce_database (start_entry t c w)"
    by (rule Provision_attempt [OF assms])
  have "\<exists>e w2. Provision fake_catalog ops2 (\<lambda>_ w. w) t c w1 ph2 = (Inr e, w2, ph4)
      \<and> FakeCatalog_Get t w2 = Inr e \<and> ce_state e = StateActive \<and> ce_version e = v
      \<and> ce_database e = ce_database (start_entry t c w)"
    if a: "r = Inl err" "co_CreateDatabase ops2 c (ce_database (start_entry t c w)) ph2 = (None, ph3)"
      "co_Migrate ops2 c (ce_database (start_entry t c w)) ph3 = (Inr v, ph4)" for err v ph2 ph3 ph4 and ops2 :: "'o ClusterOps"
  proof -
    have p1: "provisionable t c w1" and db: "ce_database (start_entry t c w1) = ce_database (start_entry t c w)"
      using 1(3) a(1) by blast+
    obtain r' w2 ph' where 2: "Provision fake_catalog ops2 (\<lambda>_ w. w) t c w1 ph2 = (r', w2, ph')"
      "\<forall>e. r' = Inr e \<longrightarrow> FakeCatalog_Get t w2 = Inr e \<and> ce_state e = StateActive \<and> ce_cluster e = c
         \<and> ce_database e = ce_database (start_entry t c w1)"
      "\<forall>v ph1 phx. co_CreateDatabase ops2 c (ce_database (start_entry t c w1)) ph2 = (None, ph1)
         \<and> co_Migrate ops2 c (ce_database (start_entry t c w1)) ph1 = (Inr v, phx) \<longrightarrow> (\<exists>e. r' = Inr e \<and> ce_version e = v \<and> ph' = phx)"
      by (rule Provision_attempt [OF p1])
    then obtain e where "r' = Inr e" "ce_version e = v" "ph' = ph4" using a(2,3) db by metis
    then show ?thesis using 2(1,2) db by auto
  qed
  then show ?thesis using 1 by (intro exI [of _ r] exI [of _ w1] exI [of _ ph1]) (cases r, auto)
qed

text \<open>A cluster that counts its databases, working or not.\<close>

definition demo_ops :: "bool \<Rightarrow> string list ClusterOps" where
  "demo_ops up =
     \<lparr>co_CreateDatabase = \<lambda>c db ph. (None, List.insert db ph),
      co_Migrate = \<lambda>c db ph. (if up then Inr ''202607030030'' else Inl (Errorf ''down''), ph)\<rparr>"

theorem provision_retry_converges_witness:
  "\<exists>err w1 ph1 e w2 ph2. Provision fake_catalog (demo_ops False) (\<lambda>_ w. w) ''acme'' ''c1'' (NewFakeCatalog 7) [] = (Inl err, w1, ph1)
     \<and> Provision fake_catalog (demo_ops True) (\<lambda>_ w. w) ''acme'' ''c1'' w1 ph1 = (Inr e, w2, ph2)
     \<and> ce_state e = StateActive \<and> ce_version e = ''202607030030''"
proof -
  let ?w = "NewFakeCatalog 7"
  have p: "provisionable ''acme'' ''c1'' ?w"
    by (simp add: provisionable_def start_entry_def NewFakeCatalog_def fake_ok_def pending_entry_def resumable_def)
  obtain r w1 ph1 where 1: "Provision fake_catalog (demo_ops False) (\<lambda>_ w. w) ''acme'' ''c1'' ?w [] = (r, w1, ph1)"
    "case r of Inr e \<Rightarrow> FakeCatalog_Get ''acme'' w1 = Inr e \<and> ce_state e = StateActive \<and> ce_cluster e = ''c1''
       | Inl err \<Rightarrow> \<forall>(ops2 :: string list ClusterOps) ph2 ph3 v ph4.
           co_CreateDatabase ops2 ''c1'' (ce_database (start_entry ''acme'' ''c1'' ?w)) ph2 = (None, ph3)
           \<and> co_Migrate ops2 ''c1'' (ce_database (start_entry ''acme'' ''c1'' ?w)) ph3 = (Inr v, ph4) \<longrightarrow>
           (\<exists>e w2. Provision fake_catalog ops2 (\<lambda>_ w. w) ''acme'' ''c1'' w1 ph2 = (Inr e, w2, ph4)
              \<and> FakeCatalog_Get ''acme'' w2 = Inr e \<and> ce_state e = StateActive \<and> ce_version e = v
              \<and> ce_database e = ce_database (start_entry ''acme'' ''c1'' ?w))"
    using provision_retry_converges [OF p, of "demo_ops False" "[] :: string list"] by blast
  obtain err where r: "r = Inl err"
    using 1(1) by (auto simp: Provision_def NewFakeCatalog_def FakeCatalog_Get_def FakeCatalog_Put_def pending_entry_def
        ValidateEntry_def FakeCatalog_tick_def Let_def advance_def advance_migrate_def transitionEntry_def failEntry_def
        create_database_def migrate_database_def demo_ops_def)
  have "co_CreateDatabase (demo_ops True) c db ph = (None, List.insert db ph)"
    "co_Migrate (demo_ops True) c db ph' = (Inr ''202607030030'', ph')" for c db ph ph'
    by (simp_all add: demo_ops_def)
  then obtain e w2 ph2 where "Provision fake_catalog (demo_ops True) (\<lambda>_ w. w) ''acme'' ''c1'' w1 ph1 = (Inr e, w2, ph2)"
    "ce_state e = StateActive" "ce_version e = ''202607030030''"
    using 1(2) [unfolded r sum.case] by blast
  then show ?thesis using 1(1) r by blast
qed


text \<open>Another process creates a row of its own meanwhile.\<close>

definition demo_gaps :: "nat \<Rightarrow> Entry list" where
  "demo_gaps n = (if n = 1 then [pending_entry ''other'' ''c1'' ''db'' []] else [])"

lemma demo_gaps_simps: "demo_gaps 0 = []" "demo_gaps (Suc 0) = [pending_entry ''other'' ''c1'' ''db'' []]"
  "demo_gaps 1 = [pending_entry ''other'' ''c1'' ''db'' []]" "demo_gaps 2 = []" "demo_gaps 3 = []"
  by (simp_all add: demo_gaps_def)


section \<open>Suspending and resuming; schemas\<close>

text \<open>
  C40. Resuming activates what was never provisioned: a tenant in any state, a pending or a
  failed one included, can be suspended and then resumed, after which its entry is active and
  routable although no database was created and its version is what it was.
\<close>

theorem resume_activates_unprovisioned:
  assumes "fake_ok w" "FakeCatalog_Get t w = Inr e"
  shows "\<exists>e1 w1 e2 w2. Suspend fake_catalog t w = (Inr e1, w1) \<and> Resume fake_catalog t w1 = (Inr e2, w2)
    \<and> ce_state e2 = StateActive \<and> ce_version e2 = ce_version e \<and> FakeCatalog_Get t w2 = Inr e2"
proof -
  have t: "ce_tenant e = t" using assms fake_ok_mget by simp
  have h: "fakestore.holds w e" using assms t by (simp add: fake_holds)
  obtain w1 where 1: "transitionEntry fake_catalog e StateSuspended w = (Inr (e\<lparr>ce_state := StateSuspended, ce_updated := fc_clock w1\<rparr>), w1)"
    "fakestore.holds w1 (e\<lparr>ce_state := StateSuspended, ce_updated := fc_clock w1\<rparr>)"
    using fakestore.transition_alone [OF h known_states(4)] by blast
  let ?e1 = "e\<lparr>ce_state := StateSuspended, ce_updated := fc_clock w1\<rparr>"
  obtain w2 where 2: "transitionEntry fake_catalog ?e1 StateActive w1 = (Inr (?e1\<lparr>ce_state := StateActive, ce_updated := fc_clock w2\<rparr>), w2)"
    "fakestore.holds w2 (?e1\<lparr>ce_state := StateActive, ce_updated := fc_clock w2\<rparr>)"
    using fakestore.transition_alone [OF 1(2) known_states(3)] by blast
  have g1: "FakeCatalog_Get t w1 = Inr ?e1" using 1(2) t by (simp add: fake_holds)
  have "Suspend fake_catalog t w = (Inr ?e1, w1)"
    unfolding Suspend_def setState_def fake_port assms(2) sum.case using 1(1) .
  moreover have "Resume fake_catalog t w1 = (Inr (?e1\<lparr>ce_state := StateActive, ce_updated := fc_clock w2\<rparr>), w2)"
    unfolding Resume_def fake_port g1 sum.case using 2(1) by simp
  moreover have "FakeCatalog_Get t w2 = Inr (?e1\<lparr>ce_state := StateActive, ce_updated := fc_clock w2\<rparr>)"
    using 2(2) t by (simp add: fake_holds)
  ultimately show ?thesis by (intro exI conjI) (assumption+ | simp)+
qed

theorem resume_activates_unprovisioned_witness:
  "\<exists>e1 w1 e2 w2. Suspend fake_catalog ''acme'' \<lparr>fc_entries = [(''acme'', (demo_entry ''acme'' 1)\<lparr>ce_state := StatePending, ce_version := []\<rparr>)], fc_clock = 1\<rparr> = (Inr e1, w1)
     \<and> Resume fake_catalog ''acme'' w1 = (Inr e2, w2) \<and> ce_state e2 = StateActive \<and> ce_version e2 = []"
proof -
  let ?e = "(demo_entry ''acme'' 1)\<lparr>ce_state := StatePending, ce_version := []\<rparr>"
  have "fake_ok \<lparr>fc_entries = [(''acme'', ?e)], fc_clock = 1\<rparr>"
    by (simp add: fake_ok_def wf_map_def demo_entry_def ValidateEntry_def)
  then show ?thesis using resume_activates_unprovisioned [of "\<lparr>fc_entries = [(''acme'', ?e)], fc_clock = 1\<rparr>" "''acme''" ?e] by fastforce
qed

definition demo_schema_ops :: "string list SchemaClusterOps" where
  "demo_schema_ops =
     \<lparr>so_EnsureBootstrap = \<lambda>c db sh ph. (None, ph), so_CreateSchema = \<lambda>c db s ph. (None, List.insert s ph),
      so_MigrateSchema = \<lambda>c db s sh ph. (Inr ''202607030030'', ph)\<rparr>"

lemma schema_ab: "SchemaForTenant ''a-b'' = Inr ''tenant_a_b''" "SchemaForTenant ''a_b'' = Inr ''tenant_a_b''"
  "ValidSchema ''tenant_a_b''"
  by (simp_all add: SchemaForTenant_def ValidSchema_def Let_def schema_char_def is_lower_def is_digit_def less_eq_char_def)

text \<open>
  Two tenants can end up in one schema: the derivation of a schema name folds a hyphen
  and an underscore together, both characters are legal in tenant ids, and provisioning does
  not look for another tenant of the schema. Both entries become active in one namespace of
  one database.
\<close>

theorem tenants_share_a_schema:
  "Tenant.Valid ''a-b'' \<and> Tenant.Valid ''a_b''
   \<and> (\<exists>e1 w1 ph1 e2 w2 ph2.
        SchemaProvision fake_catalog (NewSchemaProvisioner demo_schema_ops []) (\<lambda>_ w. w) ''a-b'' ''c1'' ''shared'' (NewFakeCatalog 7) [] = (Inr e1, w1, ph1)
      \<and> SchemaProvision fake_catalog (NewSchemaProvisioner demo_schema_ops []) (\<lambda>_ w. w) ''a_b'' ''c1'' ''shared'' w1 ph1 = (Inr e2, w2, ph2)
      \<and> ce_state e1 = StateActive \<and> ce_state e2 = StateActive
      \<and> ShardID e1 = ShardID e2 \<and> ce_schema e1 = ce_schema e2 \<and> ce_tenant e1 \<noteq> ce_tenant e2)"
proof -
  have "Tenant.Valid ''a-b''" "Tenant.Valid ''a_b''"
    by (simp_all add: Tenant.Valid_def id_char_def is_lower_def less_eq_char_def)
  then show ?thesis
    by (simp add: SchemaProvision_def NewSchemaProvisioner_def schema_ab NewFakeCatalog_def FakeCatalog_Get_def FakeCatalog_Put_def
        pending_entry_def ValidateEntry_def FakeCatalog_tick_def Let_def advance_def advance_migrate_def transitionEntry_def
        create_schema_def migrate_schema_def demo_schema_ops_def ShardID_def)
qed

section \<open>The fleet roller\<close>

text \<open>
  At most a batch of workers are unfinished when the loop reads the failure count, so it lags
  behind the failures of the tenants dispatched by at most a batch.
\<close>

fun lagging :: "MigrateAllOpts \<Rightarrow> (Entry \<Rightarrow> int) \<Rightarrow> (Entry \<Rightarrow> gerr + string) \<Rightarrow> int \<Rightarrow> Entry list \<Rightarrow> bool" where
  "lagging opts seen per k [] = True"
| "lagging opts seen per k (e # es) =
     (if ce_state e \<noteq> StateActive \<or> mo_TargetVersion opts \<noteq> [] \<and> ce_version e = mo_TargetVersion opts
      then lagging opts seen per k es
      else k - mo_Batch opts \<le> seen e \<and> seen e \<le> k
           \<and> (seen e < mo_MaxFailures opts \<longrightarrow> lagging opts seen per (k + (if isl (per e) then 1 else 0)) es))"

lemma fleet_worker_failed:
  "rp_failed (fst (fleet_worker cat txt per e st)) = rp_failed (fst st) + (if isl (per e) then 1 else 0)"
  by (cases st; cases "per e") (simp_all add: fleet_worker_def)

lemma fleet_loop_failed:
  "lagging opts seen per (rp_failed (fst st)) es \<Longrightarrow>
   rp_failed (fst (fleet_loop cat txt opts seen per es st)) \<le> max (rp_failed (fst st)) (mo_MaxFailures opts + mo_Batch opts)"
proof (induction es arbitrary: st)
  case Nil then show ?case by simp
next
  case (Cons e es)
  obtain rp w where st: "st = (rp, w)" by fastforce
  show ?case
  proof (cases "ce_state e \<noteq> StateActive \<or> mo_TargetVersion opts \<noteq> [] \<and> ce_version e = mo_TargetVersion opts")
    case True
    let ?st = "(rp\<lparr>rp_skipped := rp_skipped rp + 1,
      rp_results := rp_results rp @ [\<lparr>tr_tenant = ce_tenant e, tr_version = ce_version e, tr_skipped = True, tr_err = []\<rparr>]\<rparr>, w)"
    show ?thesis using True Cons.IH [of st] Cons.IH [of ?st] Cons.prems st by auto
  next
    case False
    then have l: "rp_failed rp - mo_Batch opts \<le> seen e"
      "seen e < mo_MaxFailures opts \<Longrightarrow> lagging opts seen per (rp_failed (fst (fleet_worker cat txt per e st))) es"
      using Cons.prems st by (auto simp: fleet_worker_failed)
    show ?thesis
    proof (cases "seen e < mo_MaxFailures opts")
      case True
      have "rp_failed (fst (fleet_worker cat txt per e st)) \<le> mo_MaxFailures opts + mo_Batch opts"
        using l(1) True st by (simp add: fleet_worker_failed)
      then show ?thesis using Cons.IH [OF l(2) [OF True]] False True by auto
    qed (use False st in auto)
  qed
qed

text \<open>
  The failure budget bounds the damage of a fleet roll: however the workers are
  scheduled, the roll returns, at most the budget plus one batch of tenants fail, and it
  reports an error exactly when the budget was reached.
\<close>

theorem fleet_failure_budget:
  assumes "list_loop cat 500 w [] [] = Some (Inr entries)" "lagging (fleet_defaults opts) seen per 0 entries"
  shows "\<exists>rp err w'. fleetMigrate cat txt opts seen per w = Some (rp, err, w')
    \<and> rp_failed rp \<le> mo_MaxFailures (fleet_defaults opts) + mo_Batch (fleet_defaults opts)
    \<and> (err \<noteq> None \<longleftrightarrow> mo_MaxFailures (fleet_defaults opts) \<le> rp_failed rp)"
proof -
  let ?o = "fleet_defaults opts"
  obtain rp w' where f: "fleet_loop cat txt ?o seen per entries (empty_report, w) = (rp, w')" by fastforce
  have "0 \<le> mo_MaxFailures ?o + mo_Batch ?o" by (simp add: fleet_defaults_def)
  then have "rp_failed rp \<le> mo_MaxFailures ?o + mo_Batch ?o"
    using fleet_loop_failed [of ?o seen per "(empty_report, w)" entries cat "txt"] assms(2) f by (simp add: empty_report_def)
  then show ?thesis using assms(1) f by (simp add: fleetMigrate_def Let_def)
qed

definition demo_fleet :: FakeCatalog where
  "demo_fleet = \<lparr>fc_entries = [(''b'', demo_entry ''b'' 1), (''a'', demo_entry ''a'' 2)], fc_clock = 2\<rparr>"

lemma demo_fleet_ok: "fake_ok demo_fleet"
  by (simp add: demo_fleet_def fake_ok_def wf_map_def demo_entry_def ValidateEntry_def)

lemma demo_fleet_listed: "list_loop fake_catalog 500 demo_fleet [] [] = Some (Inr [demo_entry ''a'' 2, demo_entry ''b'' 1])"
  using list_loop_fake [OF demo_fleet_ok, of 500 "[]" "[]"]
  by (simp add: demo_fleet_def list_ids_def less_char_def less_eq_char_def)

text \<open>Budget one, one worker at a time: the second tenant is dispatched while the first still runs.\<close>

theorem fleet_failure_budget_witness:
  "\<exists>rp err w'. fleetMigrate fake_catalog (\<lambda>_. ''x'') \<lparr>mo_Batch = 1, mo_MaxFailures = 1, mo_TargetVersion = []\<rparr> (\<lambda>_. 0) (\<lambda>_. Inl (Errorf ''x'')) demo_fleet
     = Some (rp, err, w') \<and> rp_failed rp \<le> 2 \<and> (err \<noteq> None \<longleftrightarrow> 1 \<le> rp_failed rp)"
  using fleet_failure_budget [OF demo_fleet_listed, of "\<lparr>mo_Batch = 1, mo_MaxFailures = 1, mo_TargetVersion = []\<rparr>" "\<lambda>_. 0" "\<lambda>_. Inl (Errorf ''x'')" "\<lambda>_. ''x''"]
  by (simp add: fleet_defaults_def demo_entry_def)

text \<open>Whether the roll migrates an entry.\<close>

definition rolled :: "MigrateAllOpts \<Rightarrow> Entry \<Rightarrow> bool" where
  "rolled opts e = (ce_state e = StateActive \<and> \<not> (mo_TargetVersion opts \<noteq> [] \<and> ce_version e = mo_TargetVersion opts))"

lemma fleet_worker_fake:
  assumes "fakestore.holds w e" "per e = Inr v"
  obtains w' u where "fleet_worker fake_catalog txt per e (rp, w) = (fst (fleet_worker fake_catalog txt per e (rp, w)), w')"
    "fakestore.holds w' (e\<lparr>ce_version := v, ce_updated := u\<rparr>)" "\<forall>t. t \<noteq> ce_tenant e \<longrightarrow> FakeCatalog_Get t w' = FakeCatalog_Get t w"
proof -
  have "ValidateEntry (e\<lparr>ce_version := v\<rparr>) = None" using fakestore.holds_valid [OF assms(1)] by simp
  then obtain w' where "FakeCatalog_Put (e\<lparr>ce_version := v\<rparr>) w = (Inr (e\<lparr>ce_version := v, ce_updated := fc_clock w'\<rparr>), w')"
    "fakestore.holds w' (e\<lparr>ce_version := v, ce_updated := fc_clock w'\<rparr>)" "\<forall>t. t \<noteq> ce_tenant e \<longrightarrow> FakeCatalog_Get t w' = FakeCatalog_Get t w"
    using fakestore.write_alone [OF assms(1), of "e\<lparr>ce_version := v\<rparr>"] by auto
  then show ?thesis using that [of w' "fc_clock w'"] assms(2) by (simp add: fleet_worker_def)
qed

lemma fleet_loop_all:
  assumes "\<forall>e \<in> set es. fakestore.holds w e" "distinct (map ce_tenant es)" "fake_ok w"
    "\<forall>e \<in> set es. rolled opts e \<longrightarrow> per e = Inr (ver e)" "0 < mo_MaxFailures opts"
  shows "\<exists>rp' w'. fleet_loop fake_catalog txt opts (\<lambda>_. 0) per es (rp, w) = (rp', w') \<and> rp_failed rp' = rp_failed rp
    \<and> (\<forall>t. t \<notin> ce_tenant ` set es \<longrightarrow> FakeCatalog_Get t w' = FakeCatalog_Get t w)
    \<and> (\<forall>e \<in> set es. if rolled opts e then \<exists>u. FakeCatalog_Get (ce_tenant e) w' = Inr (e\<lparr>ce_version := ver e, ce_updated := u\<rparr>)
         else FakeCatalog_Get (ce_tenant e) w' = Inr e)"
  using assms
proof (induction es arbitrary: rp w)
  case Nil then show ?case by simp
next
  case (Cons e es)
  have d: "ce_tenant e \<notin> ce_tenant ` set es" "distinct (map ce_tenant es)" using Cons.prems(2) by simp_all
  have he: "fakestore.holds w e" using Cons.prems(1) by simp
  obtain rp1 w1 where st: "fleet_loop fake_catalog txt opts (\<lambda>_. 0) per (e # es) (rp, w) = fleet_loop fake_catalog txt opts (\<lambda>_. 0) per es (rp1, w1)"
    "rp_failed rp1 = rp_failed rp" "fake_ok w1" "\<forall>t. t \<noteq> ce_tenant e \<longrightarrow> FakeCatalog_Get t w1 = FakeCatalog_Get t w"
    "if rolled opts e then \<exists>u. FakeCatalog_Get (ce_tenant e) w1 = Inr (e\<lparr>ce_version := ver e, ce_updated := u\<rparr>)
       else FakeCatalog_Get (ce_tenant e) w1 = Inr e"
  proof (cases "rolled opts e")
    case False
    have g: "FakeCatalog_Get (ce_tenant e) w = Inr e" using he by (simp add: fake_holds)
    show ?thesis
    proof (cases "ce_state e = StateActive")
      case True
      let ?rp = "rp\<lparr>rp_skipped := rp_skipped rp + 1,
        rp_results := rp_results rp @ [\<lparr>tr_tenant = ce_tenant e, tr_version = ce_version e, tr_skipped = True, tr_err = []\<rparr>]\<rparr>"
      show ?thesis using that [of ?rp w] True False Cons.prems(3) g by (simp add: rolled_def)
    next
      case F: False then show ?thesis using that [of rp w] False Cons.prems(3) g by simp
    qed
  next
    case True
    have v: "per e = Inr (ver e)" using Cons.prems(4) True by simp
    obtain w' u where w': "fleet_worker fake_catalog txt per e (rp, w) = (fst (fleet_worker fake_catalog txt per e (rp, w)), w')"
      "fakestore.holds w' (e\<lparr>ce_version := ver e, ce_updated := u\<rparr>)" "\<forall>t. t \<noteq> ce_tenant e \<longrightarrow> FakeCatalog_Get t w' = FakeCatalog_Get t w"
      by (rule fleet_worker_fake [where per = per, OF he v])
    have "rp_failed (fst (fleet_worker fake_catalog txt per e (rp, w))) = rp_failed rp"
      using fleet_worker_failed [of fake_catalog "txt" per e "(rp, w)"] v by simp
    moreover have "fake_ok w'" "FakeCatalog_Get (ce_tenant e) w' = Inr (e\<lparr>ce_version := ver e, ce_updated := u\<rparr>)"
      using w'(2) by (simp_all add: fake_holds)
    moreover have "fleet_loop fake_catalog txt opts (\<lambda>_. 0) per (e # es) (rp, w)
        = fleet_loop fake_catalog txt opts (\<lambda>_. 0) per es (fst (fleet_worker fake_catalog txt per e (rp, w)), w')"
      using True Cons.prems(5) w'(1) by (simp add: rolled_def) (metis fst_conv)
    ultimately show ?thesis using that True w'(3) by (metis (no_types, lifting))
  qed
  have "\<forall>x \<in> set es. fakestore.holds w1 x"
  proof
    fix x assume "x \<in> set es"
    then have "fakestore.holds w x" "ce_tenant x \<noteq> ce_tenant e" using Cons.prems(1) d(1) by (simp, metis imageI)
    then show "fakestore.holds w1 x" using st(3,4) by (simp add: fakestore.holds_def)
  qed
  then obtain rp' w' where r: "fleet_loop fake_catalog txt opts (\<lambda>_. 0) per es (rp1, w1) = (rp', w')" "rp_failed rp' = rp_failed rp1"
    "\<forall>t. t \<notin> ce_tenant ` set es \<longrightarrow> FakeCatalog_Get t w' = FakeCatalog_Get t w1"
    "\<forall>e \<in> set es. if rolled opts e then \<exists>u. FakeCatalog_Get (ce_tenant e) w' = Inr (e\<lparr>ce_version := ver e, ce_updated := u\<rparr>)
       else FakeCatalog_Get (ce_tenant e) w' = Inr e"
    using Cons.IH [of w1 rp1] d(2) st(3) Cons.prems(4,5) by auto
  have "FakeCatalog_Get (ce_tenant e) w' = FakeCatalog_Get (ce_tenant e) w1" using r(3) d(1) by blast
  then show ?case using r st by auto
qed

text \<open>
  A fleet roll over a healthy fleet is complete: when no migration fails the roll
  returns without an error, every active tenant that is not at the target is recorded at
  the version its migration reported, and every other tenant's entry is left as it was.
\<close>

theorem fleet_rolls_every_active:
  assumes "fake_ok w" "\<forall>t e. FakeCatalog_Get t w = Inr e \<and> rolled opts e \<longrightarrow> per e = Inr (ver e)"
  shows "\<exists>rp w'. fleetMigrate fake_catalog txt opts (\<lambda>_. 0) per w = Some (rp, None, w') \<and> rp_failed rp = 0
    \<and> (\<forall>t. case FakeCatalog_Get t w of
          Inl err \<Rightarrow> FakeCatalog_Get t w' = Inl err
        | Inr e \<Rightarrow> if rolled opts e then \<exists>u. FakeCatalog_Get t w' = Inr (e\<lparr>ce_version := ver e, ce_updated := u\<rparr>)
                    else FakeCatalog_Get t w' = Inr e)"
proof -
  let ?o = "fleet_defaults opts"
  have ro: "rolled ?o = rolled opts" by (simp add: rolled_def fleet_defaults_def fun_eq_iff)
  let ?es = "listed w"
  have es: "list_loop fake_catalog 500 w [] [] = Some (Inr ?es)" using listed_loop [OF assms(1)] by simp
  note mem = listed_iff [OF assms(1)]
  have h: "\<forall>e \<in> set ?es. fakestore.holds w e" using mem assms(1) by (simp add: fakestore.holds_def)
  have dist: "distinct (map ce_tenant ?es)" by (rule listed_tenants(2) [OF assms(1)])
  have pv: "\<forall>e \<in> set ?es. rolled ?o e \<longrightarrow> per e = Inr (ver e)" using assms(2) mem ro by auto
  have mx: "0 < mo_MaxFailures ?o" by (simp add: fleet_defaults_def)
  obtain rp w' where r: "fleet_loop fake_catalog txt ?o (\<lambda>_. 0) per ?es (empty_report, w) = (rp, w')" "rp_failed rp = rp_failed empty_report"
    "\<forall>t. t \<notin> ce_tenant ` set ?es \<longrightarrow> FakeCatalog_Get t w' = FakeCatalog_Get t w"
    "\<forall>e \<in> set ?es. if rolled ?o e then \<exists>u. FakeCatalog_Get (ce_tenant e) w' = Inr (e\<lparr>ce_version := ver e, ce_updated := u\<rparr>)
       else FakeCatalog_Get (ce_tenant e) w' = Inr e"
    using fleet_loop_all [OF h dist assms(1) pv mx] by blast
  have z: "rp_failed rp = 0" using r(2) by (simp add: empty_report_def)
  have "case FakeCatalog_Get t w of
          Inl err \<Rightarrow> FakeCatalog_Get t w' = Inl err
        | Inr e \<Rightarrow> if rolled opts e then \<exists>u. FakeCatalog_Get t w' = Inr (e\<lparr>ce_version := ver e, ce_updated := u\<rparr>)
                    else FakeCatalog_Get t w' = Inr e" for t
  proof (cases "FakeCatalog_Get t w")
    case (Inl err)
    have "t \<notin> ce_tenant ` set ?es"
    proof
      assume "t \<in> ce_tenant ` set ?es"
      then obtain e where "e \<in> set ?es" "t = ce_tenant e" by blast
      then have "FakeCatalog_Get t w = Inr e" using mem by blast
      then show False using Inl by simp
    qed
    then show ?thesis using r(3) Inl by simp
  next
    case (Inr e)
    have t: "ce_tenant e = t" using Inr fake_ok_mget [OF assms(1)] by simp
    then have "e \<in> set ?es" using mem Inr by blast
    then show ?thesis unfolding Inr sum.case using bspec [OF r(4), unfolded ro] t by blast
  qed
  then show ?thesis using es r(1) z mx by (simp add: fleetMigrate_def Let_def)
qed

theorem fleet_rolls_every_active_witness:
  "\<exists>rp w' u. fleetMigrate fake_catalog (\<lambda>_. ''x'') \<lparr>mo_Batch = 4, mo_MaxFailures = 1, mo_TargetVersion = []\<rparr> (\<lambda>_. 0) (\<lambda>e. Inr ''2'') demo_fleet
     = Some (rp, None, w') \<and> FakeCatalog_Get ''a'' w' = Inr ((demo_entry ''a'' 2)\<lparr>ce_version := ''2'', ce_updated := u\<rparr>)"
proof -
  let ?o = "\<lparr>mo_Batch = 4, mo_MaxFailures = 1, mo_TargetVersion = []\<rparr>"
  obtain rp w' where r: "fleetMigrate fake_catalog (\<lambda>_. ''x'') ?o (\<lambda>_. 0) (\<lambda>e. Inr ''2'') demo_fleet = Some (rp, None, w')"
    "\<forall>t. case FakeCatalog_Get t demo_fleet of
          Inl err \<Rightarrow> FakeCatalog_Get t w' = Inl err
        | Inr e \<Rightarrow> if rolled ?o e then \<exists>u. FakeCatalog_Get t w' = Inr (e\<lparr>ce_version := ''2'', ce_updated := u\<rparr>)
                    else FakeCatalog_Get t w' = Inr e"
    using fleet_rolls_every_active [OF demo_fleet_ok, of ?o "\<lambda>e. Inr ''2''" "\<lambda>_. ''2''" "\<lambda>_. ''x''"] by auto
  have "FakeCatalog_Get ''a'' demo_fleet = Inr (demo_entry ''a'' 2)" by (simp add: demo_fleet_def)
  then have "if rolled ?o (demo_entry ''a'' 2) then \<exists>u. FakeCatalog_Get ''a'' w' = Inr ((demo_entry ''a'' 2)\<lparr>ce_version := ''2'', ce_updated := u\<rparr>)
      else FakeCatalog_Get ''a'' w' = Inr (demo_entry ''a'' 2)"
    using r(2) by (auto split: sum.splits simp del: fake_get_some)
  moreover have "rolled ?o (demo_entry ''a'' 2)" by (simp add: rolled_def demo_entry_def)
  ultimately obtain u where "FakeCatalog_Get ''a'' w' = Inr ((demo_entry ''a'' 2)\<lparr>ce_version := ''2'', ce_updated := u\<rparr>)" by (simp only: if_True) blast
  then show ?thesis using r(1) by blast
qed

end
