(* ===== verification/Sweep.thy ===== *)
theory Sweep
  imports Catalog
begin

text \<open>
  The tenant sweeper (\<^verbatim>\<open>core/sweep/sweep.go\<close>): which tenants a pass over the catalog
  dispatches, the exponential idle backoff, wake nudges and the decay of the bookkeeping.
  A pass waits for the sweeps it dispatched and each of them touches its own tenant's
  bookkeeping only, so a sweep's end is modelled where it is dispatched. What a sweep
  returns, when it ends and whether a nudge arrives while it runs are arguments, as is the
  scaled jitter (\<open>jit half\<close>, documented to lie between 0 and \<open>half\<close>). Instants and durations
  are in nanoseconds; the zero instant is 0.
\<close>

section \<open>Results, configuration, bookkeeping\<close>

record SweepResult =
  sr_relayed :: int
  sr_materialized :: int
  sr_compacted :: int
  sr_claimed :: bool

definition Busy :: "SweepResult \<Rightarrow> bool" where
  "Busy r = (sr_relayed r > 0 \<or> sr_materialized r > 0 \<or> sr_compacted r > 0)"

record Stats =
  sg_scanned :: nat
  sg_eligible :: nat
  sg_swept :: nat
  sg_busy :: nat
  sg_errors :: nat

record SweepConfig =
  sc_workers :: int
  sc_scanInterval :: int
  sc_sweepTimeout :: int
  sc_base :: int
  sc_cap :: int
  sc_compactEvery :: int
  sc_minVersion :: string

definition listPage :: int where
  "listPage = 500"

record tenantState =
  ts_nextDue :: int
  ts_backoff :: int
  ts_lastCompact :: int
  ts_inFlight :: bool
  ts_seen :: bool

definition zero_state :: tenantState where
  "zero_state = \<lparr>ts_nextDue = 0, ts_backoff = 0, ts_lastCompact = 0, ts_inFlight = False, ts_seen = False\<rparr>"

record SweepEngine =
  en_cfg :: SweepConfig
  en_state :: "tenantState gomap"
  en_wake :: bool

definition sweep_New :: "SweepConfig \<Rightarrow> SweepEngine" where
  "sweep_New cfg =
     \<lparr>en_cfg =
        cfg\<lparr>sc_workers := (if sc_workers cfg \<le> 0 then 16 else sc_workers cfg),
            sc_scanInterval := (if sc_scanInterval cfg \<le> 0 then 10 ^ 9 else sc_scanInterval cfg),
            sc_sweepTimeout := (if sc_sweepTimeout cfg \<le> 0 then 60 * 10 ^ 9 else sc_sweepTimeout cfg),
            sc_base := (if sc_base cfg \<le> 0 then 5 * 10 ^ 9 else sc_base cfg),
            sc_cap := (if sc_cap cfg \<le> 0 then 300 * 10 ^ 9 else sc_cap cfg),
            sc_compactEvery := (if sc_compactEvery cfg \<le> 0 then 30 * 10 ^ 9 else sc_compactEvery cfg)\<rparr>,
      en_state = [], en_wake = False\<rparr>"

section \<open>Wake and backoff\<close>

text \<open>The bookkeeping of a tenant, created on first use.\<close>

definition tracked :: "SweepEngine \<Rightarrow> string \<Rightarrow> tenantState" where
  "tracked en t = mget_or zero_state (en_state en) t"

definition wake_state :: "tenantState \<Rightarrow> tenantState" where
  "wake_state st = st\<lparr>ts_backoff := 0, ts_nextDue := 0\<rparr>"

text \<open>The nudge channel holds one token; a second nudge is dropped.\<close>

definition Wake :: "string \<Rightarrow> SweepEngine \<Rightarrow> SweepEngine" where
  "Wake tenantID en =
     en\<lparr>en_state := mput tenantID (wake_state (tracked en tenantID)) (en_state en), en_wake := True\<rparr>"

definition TrackedTenants :: "SweepEngine \<Rightarrow> nat" where
  "TrackedTenants en = length (en_state en)"

definition backoffLocked :: "SweepConfig \<Rightarrow> (int \<Rightarrow> int) \<Rightarrow> int \<Rightarrow> tenantState \<Rightarrow> tenantState" where
  "backoffLocked cfg jit now st =
     (let b = (if ts_backoff st \<le> 0 then sc_base cfg
               else let b2 = to_int64 (ts_backoff st * 2) in if b2 > sc_cap cfg then sc_cap cfg else b2);
          half = b div 2
      in st\<lparr>ts_backoff := b, ts_nextDue := now + (half + jit half)\<rparr>)"

section \<open>One pass\<close>

text \<open>
  What the sweeps of a pass do, by tenant: the result of the maintenance pass (given
  whether it compacts), the instant it ends, and whether a nudge arrives while it runs.
\<close>

record sweeps =
  sw_result :: "string \<Rightarrow> bool \<Rightarrow> gerr + SweepResult"
  sw_done :: "string \<Rightarrow> int"
  sw_woken :: "string \<Rightarrow> bool"

definition sweep_end :: "SweepConfig \<Rightarrow> (int \<Rightarrow> int) \<Rightarrow> sweeps \<Rightarrow> string \<Rightarrow> bool \<Rightarrow> tenantState \<Rightarrow> tenantState" where
  "sweep_end cfg jit sw t doCompact st0 =
     (let st = (if sw_woken sw t then wake_state st0 else st0)\<lparr>ts_inFlight := False\<rparr>;
          now = sw_done sw t;
          st' = (case sw_result sw t doCompact of
                   Inl err \<Rightarrow> backoffLocked cfg jit now st
                 | Inr res \<Rightarrow>
                     if Busy res then st\<lparr>ts_backoff := 0, ts_nextDue := now\<rparr>
                     else backoffLocked cfg jit now st)
      in if \<not> isl (sw_result sw t doCompact) \<and> doCompact then st'\<lparr>ts_lastCompact := now\<rparr> else st')"

definition eligible :: "SweepConfig \<Rightarrow> Entry \<Rightarrow> bool" where
  "eligible cfg e = (ce_state e = StateActive \<and> \<not> (sc_minVersion cfg \<noteq> [] \<and> ce_version e < sc_minVersion cfg))"

definition due :: "int \<Rightarrow> tenantState \<Rightarrow> bool" where
  "due now st = (\<not> (ts_inFlight st \<or> now < ts_nextDue st))"

text \<open>An entry of the scan: statistics, bookkeeping, and the tenants dispatched so far.\<close>

definition scan_entry :: "(int \<Rightarrow> int) \<Rightarrow> sweeps \<Rightarrow> int \<Rightarrow> Entry \<Rightarrow> Stats \<times> SweepEngine \<times> string list \<Rightarrow> Stats \<times> SweepEngine \<times> string list" where
  "scan_entry jit sw now e acc =
     (case acc of (stats, en, out) \<Rightarrow>
        let stats = stats\<lparr>sg_scanned := Suc (sg_scanned stats)\<rparr>; t = ce_tenant e
        in if \<not> eligible (en_cfg en) e then (stats, en, out)
           else
             let stats = stats\<lparr>sg_eligible := Suc (sg_eligible stats)\<rparr>;
                 st = (tracked en t)\<lparr>ts_seen := True\<rparr>
             in if \<not> due now st then (stats, en\<lparr>en_state := mput t st (en_state en)\<rparr>, out)
                else
                  let doCompact = (ts_lastCompact st = 0 \<or> now - ts_lastCompact st \<ge> sc_compactEvery (en_cfg en));
                      stats = stats\<lparr>sg_swept := Suc (sg_swept stats)\<rparr>;
                      stats = (case sw_result sw t doCompact of
                                 Inl err \<Rightarrow> stats\<lparr>sg_errors := Suc (sg_errors stats)\<rparr>
                               | Inr res \<Rightarrow> if Busy res then stats\<lparr>sg_busy := Suc (sg_busy stats)\<rparr> else stats);
                      st' = sweep_end (en_cfg en) jit sw t doCompact (st\<lparr>ts_inFlight := True\<rparr>)
                  in (stats, en\<lparr>en_state := mput t st' (en_state en)\<rparr>, out @ [t]))"

text \<open>The paging loop; a failing page ends the scan with what was read.\<close>

partial_function (option) scan_loop :: "'w Catalog_port \<Rightarrow> 'w \<Rightarrow> string \<Rightarrow> Entry list \<Rightarrow> Entry list option" where
  "scan_loop cat w cursor acc =
     (case cat_List cat cursor listPage w of
        Inl err \<Rightarrow> Some acc
      | Inr (page, next) \<Rightarrow> if next = [] then Some (acc @ page) else scan_loop cat w next (acc @ page))"

definition unmark :: "SweepEngine \<Rightarrow> SweepEngine" where
  "unmark en = en\<lparr>en_state := map (\<lambda>(t, st). (t, st\<lparr>ts_seen := False\<rparr>)) (en_state en)\<rparr>"

definition decay :: "SweepEngine \<Rightarrow> SweepEngine" where
  "decay en = en\<lparr>en_state := filter (\<lambda>(t, st). ts_seen st \<or> ts_inFlight st) (en_state en)\<rparr>"

definition zero_stats :: Stats where
  "zero_stats = \<lparr>sg_scanned = 0, sg_eligible = 0, sg_swept = 0, sg_busy = 0, sg_errors = 0\<rparr>"

text \<open>\<open>None\<close>: the listing never ends. Beside the statistics, the tenants that were swept.\<close>

definition Pass :: "'w Catalog_port \<Rightarrow> 'w \<Rightarrow> (int \<Rightarrow> int) \<Rightarrow> sweeps \<Rightarrow> int \<Rightarrow> SweepEngine \<Rightarrow> (Stats \<times> SweepEngine \<times> string list) option" where
  "Pass cat w jit sw now en =
     (case scan_loop cat w [] [] of
        None \<Rightarrow> None
      | Some entries \<Rightarrow>
          (case fold (scan_entry jit sw now) entries (zero_stats, unmark en, []) of
             (stats, en', out) \<Rightarrow> Some (stats, decay en', out)))"

section \<open>What a pass dispatches\<close>

lemma due_seen [simp]: "due now (st\<lparr>ts_seen := b\<rparr>) = due now st"
  by (simp add: due_def)

lemma tracked_mput [simp]: "tracked (en\<lparr>en_state := mput t st (en_state en)\<rparr>) t' = (if t' = t then st else tracked en t')"
  by (simp add: tracked_def mget_or_def)

lemma tracked_unmark: "due now (tracked (unmark en) t) = due now (tracked en t)"
proof (cases "mget (en_state en) t")
  case None then show ?thesis by (simp add: tracked_def unmark_def mget_or_def mget_map_snd)
next
  case (Some st) then show ?thesis by (simp add: tracked_def unmark_def mget_or_def mget_map_snd)
qed

definition dispatched :: "int \<Rightarrow> SweepEngine \<Rightarrow> Entry \<Rightarrow> bool" where
  "dispatched now en e = (eligible (en_cfg en) e \<and> due now (tracked en (ce_tenant e)))"

text \<open>One entry of the scan, by what becomes of its tenant.\<close>

lemma scan_entry_cases:
  obtains (skip) s where "scan_entry jit sw now e (stats, en, out) = (s, en, out)" "\<not> eligible (en_cfg en) e"
      "sg_swept s = sg_swept stats" "sg_scanned s = Suc (sg_scanned stats)"
  | (wait) s st where "scan_entry jit sw now e (stats, en, out) = (s, en\<lparr>en_state := mput (ce_tenant e) st (en_state en)\<rparr>, out)"
      "eligible (en_cfg en) e" "\<not> due now (tracked en (ce_tenant e))" "st = (tracked en (ce_tenant e))\<lparr>ts_seen := True\<rparr>"
      "sg_swept s = sg_swept stats" "sg_scanned s = Suc (sg_scanned stats)"
  | (go) s st c where "scan_entry jit sw now e (stats, en, out) = (s, en\<lparr>en_state := mput (ce_tenant e) st (en_state en)\<rparr>, out @ [ce_tenant e])"
      "dispatched now en e"
      "st = sweep_end (en_cfg en) jit sw (ce_tenant e) c ((tracked en (ce_tenant e))\<lparr>ts_seen := True, ts_inFlight := True\<rparr>)"
      "sg_swept s = Suc (sg_swept stats)" "sg_scanned s = Suc (sg_scanned stats)"
proof -
  let ?t = "ce_tenant e"
  let ?c = "ts_lastCompact (tracked en ?t) = 0 \<or> now - ts_lastCompact (tracked en ?t) \<ge> sc_compactEvery (en_cfg en)"
  consider (a) "\<not> eligible (en_cfg en) e" | (b) "eligible (en_cfg en) e" "\<not> due now (tracked en ?t)" | (c) "dispatched now en e"
    by (auto simp: dispatched_def)
  then show ?thesis
  proof cases
    case a then show ?thesis by (intro skip [of "stats\<lparr>sg_scanned := Suc (sg_scanned stats)\<rparr>"]) (simp_all add: scan_entry_def Let_def)
  next
    case b then show ?thesis
      by (intro wait [of "stats\<lparr>sg_scanned := Suc (sg_scanned stats), sg_eligible := Suc (sg_eligible stats)\<rparr>"]) (simp_all add: scan_entry_def Let_def)
  next
    case c
    then have "eligible (en_cfg en) e" "due now (tracked en ?t)" by (simp_all add: dispatched_def)
    then show ?thesis using c by (intro go [where c = ?c]) (auto simp: scan_entry_def Let_def split: sum.split)
  qed
qed

lemma scan_all:
  assumes "distinct (map ce_tenant es)"
  shows "\<exists>s en'. fold (scan_entry jit sw now) es (stats, en, out) = (s, en', out @ map ce_tenant (filter (dispatched now en) es))
    \<and> sg_scanned s = sg_scanned stats + length es \<and> sg_swept s = sg_swept stats + length (filter (dispatched now en) es)"
  using assms
proof (induction es arbitrary: stats en out)
  case Nil then show ?case by simp
next
  case (Cons e es)
  have d: "distinct (map ce_tenant es)" and ne: "\<And>x. x \<in> set es \<Longrightarrow> ce_tenant x \<noteq> ce_tenant e" using Cons.prems by (simp, simp, metis image_eqI)
  have f: "filter (dispatched now (en\<lparr>en_state := mput (ce_tenant e) st (en_state en)\<rparr>)) es = filter (dispatched now en) es" for st
    using ne by (intro filter_cong) (simp_all add: dispatched_def)
  show ?case
  proof (cases rule: scan_entry_cases [of jit sw now e stats en out])
    case (skip s)
    then show ?thesis using Cons.IH [OF d, of s en out] by (auto simp: dispatched_def)
  next
    case (wait s st)
    let ?en = "en\<lparr>en_state := mput (ce_tenant e) st (en_state en)\<rparr>"
    obtain s' en' where "fold (scan_entry jit sw now) es (s, ?en, out) = (s', en', out @ map ce_tenant (filter (dispatched now ?en) es))"
      "sg_scanned s' = sg_scanned s + length es" "sg_swept s' = sg_swept s + length (filter (dispatched now ?en) es)"
      using Cons.IH [OF d] by blast
    moreover have "\<not> dispatched now en e" using wait(3) by (simp add: dispatched_def)
    ultimately show ?thesis using wait(1,5,6) f by simp
  next
    case (go s st c)
    let ?en = "en\<lparr>en_state := mput (ce_tenant e) st (en_state en)\<rparr>"
    obtain s' en' where "fold (scan_entry jit sw now) es (s, ?en, out @ [ce_tenant e]) = (s', en', (out @ [ce_tenant e]) @ map ce_tenant (filter (dispatched now ?en) es))"
      "sg_scanned s' = sg_scanned s + length es" "sg_swept s' = sg_swept s + length (filter (dispatched now ?en) es)"
      using Cons.IH [OF d] by blast
    then show ?thesis using go(1,2,4,5) f by simp
  qed
qed

lemma dispatched_unmark: "dispatched now (unmark en) = dispatched now en"
  using tracked_unmark by (simp add: dispatched_def fun_eq_iff) (simp add: unmark_def)

text \<open>On the in-memory catalog the scan reads the listing.\<close>

lemma scan_loop_list:
  assumes "list_loop cat listPage w c acc = Some (Inr es)"
  shows "scan_loop cat w c acc = Some es"
proof -
  have "n = listPage \<longrightarrow> (\<forall>es. r = Inr es \<longrightarrow> scan_loop cat w c acc = Some es)" if "list_loop cat n w c acc = Some r" for n r
  proof (rule list_loop.raw_induct [OF _ that])
    fix loop cat w c acc r and n :: int
    assume ih: "\<And>cat n w c acc r. loop cat n w c acc = Some r \<Longrightarrow>
        n = listPage \<longrightarrow> (\<forall>es. r = Inr es \<longrightarrow> scan_loop cat w c acc = Some es)"
      and step: "(case cat_List cat c n w of Inl err \<Rightarrow> Some (Inl err)
        | Inr (page, nxt) \<Rightarrow> if nxt = [] then Some (Inr (acc @ page)) else loop cat n w nxt (acc @ page)) = Some r"
    show "n = listPage \<longrightarrow> (\<forall>es. r = Inr es \<longrightarrow> scan_loop cat w c acc = Some es)"
      using step ih by (subst scan_loop.simps) (auto split: sum.splits prod.splits if_splits)
  qed
  then show ?thesis using assms by blast
qed

lemma Pass_fake:
  assumes "fake_ok w"
  obtains stats en' where "Pass fake_catalog w jit sw now en = Some (stats, decay en', map ce_tenant (filter (dispatched now en) (listed w)))"
    "fold (scan_entry jit sw now) (listed w) (zero_stats, unmark en, []) = (stats, en', map ce_tenant (filter (dispatched now en) (listed w)))"
    "sg_scanned stats = length (listed w)" "sg_swept stats = length (filter (dispatched now en) (listed w))"
proof -
  have l: "scan_loop fake_catalog w [] [] = Some (listed w)" "distinct (map ce_tenant (listed w))"
    using scan_loop_list [OF listed_loop [OF assms]] listed_tenants(2) [OF assms] by (simp_all add: listPage_def)
  obtain stats en' where "fold (scan_entry jit sw now) (listed w) (zero_stats, unmark en, []) =
      (stats, en', map ce_tenant (filter (dispatched now (unmark en)) (listed w)))"
    "sg_scanned stats = sg_scanned zero_stats + length (listed w)"
    "sg_swept stats = sg_swept zero_stats + length (filter (dispatched now (unmark en)) (listed w))"
    using scan_all [OF l(2), of jit sw now zero_stats "unmark en" "[]"] by auto
  then show ?thesis using that l(1) by (simp add: Pass_def dispatched_unmark zero_stats_def)
qed

text \<open>
  C33. A pass dispatches exactly the tenants that are due: the active, version-current tenants
  of the catalog whose backoff has run out, each once, in tenant order, whatever the sweeps
  return, so that one tenant's failure never costs another its pass; and a tenant that was
  nudged is among them however long its backoff was.
\<close>

theorem pass_sweeps_exactly_due:
  assumes "fake_ok w" "0 \<le> now"
  shows "(\<exists>stats en'. Pass fake_catalog w jit sw now en =
        Some (stats, en', map ce_tenant (filter (\<lambda>e. eligible (en_cfg en) e \<and> due now (tracked en (ce_tenant e))) (listed w)))
      \<and> sg_scanned stats = length (fc_entries w)
      \<and> sg_swept stats = length (filter (\<lambda>e. eligible (en_cfg en) e \<and> due now (tracked en (ce_tenant e))) (listed w)))
    \<and> (\<forall>t e. FakeCatalog_Get t w = Inr e \<and> eligible (en_cfg en) e \<and> \<not> ts_inFlight (tracked en t) \<longrightarrow>
        (\<exists>stats en' out. Pass fake_catalog w jit sw now (Wake t en) = Some (stats, en', out) \<and> t \<in> set out))"
proof (intro conjI allI impI)
  have d: "dispatched now en = (\<lambda>e. eligible (en_cfg en) e \<and> due now (tracked en (ce_tenant e)))"
    by (simp add: dispatched_def fun_eq_iff)
  have l: "length (listed w) = length (fc_entries w)" by (simp add: listed_def)
  obtain stats en' where "Pass fake_catalog w jit sw now en = Some (stats, decay en', map ce_tenant (filter (dispatched now en) (listed w)))"
    "sg_scanned stats = length (listed w)" "sg_swept stats = length (filter (dispatched now en) (listed w))"
    by (rule Pass_fake [OF assms(1)])
  then show "\<exists>stats en'. Pass fake_catalog w jit sw now en =
        Some (stats, en', map ce_tenant (filter (\<lambda>e. eligible (en_cfg en) e \<and> due now (tracked en (ce_tenant e))) (listed w)))
      \<and> sg_scanned stats = length (fc_entries w)
      \<and> sg_swept stats = length (filter (\<lambda>e. eligible (en_cfg en) e \<and> due now (tracked en (ce_tenant e))) (listed w))"
    unfolding d l by blast
next
  fix t e assume a: "FakeCatalog_Get t w = Inr e \<and> eligible (en_cfg en) e \<and> \<not> ts_inFlight (tracked en t)"
  then have t: "ce_tenant e = t" using fake_ok_mget [OF assms(1)] by simp
  have "e \<in> set (listed w)" using a t listed_iff [OF assms(1)] by blast
  moreover have "dispatched now (Wake t en) e"
    using a t assms(2) by (simp add: dispatched_def Wake_def due_def tracked_def wake_state_def mget_or_def)
  ultimately have "t \<in> set (map ce_tenant (filter (dispatched now (Wake t en)) (listed w)))" using t by force
  moreover obtain stats en' where "Pass fake_catalog w jit sw now (Wake t en) = Some (stats, decay en', map ce_tenant (filter (dispatched now (Wake t en)) (listed w)))"
    by (rule Pass_fake [OF assms(1)])
  ultimately show "\<exists>stats en' out. Pass fake_catalog w jit sw now (Wake t en) = Some (stats, en', out) \<and> t \<in> set out"
    by blast
qed

definition demo_cfg :: SweepConfig where
  "demo_cfg = \<lparr>sc_workers = 1, sc_scanInterval = 1, sc_sweepTimeout = 1, sc_base = 4, sc_cap = 16, sc_compactEvery = 1, sc_minVersion = []\<rparr>"

definition demo_sweeps :: sweeps where
  "demo_sweeps = \<lparr>sw_result = \<lambda>t c. Inl (Errorf ''down''), sw_done = \<lambda>t. 10, sw_woken = \<lambda>t. False\<rparr>"

definition demo_catalog :: FakeCatalog where
  "demo_catalog = \<lparr>fc_entries = [(''b'', demo_entry ''b'' 1), (''a'', demo_entry ''a'' 2)], fc_clock = 2\<rparr>"

lemma demo_catalog_ok: "fake_ok demo_catalog"
  by (simp add: demo_catalog_def fake_ok_def wf_map_def demo_entry_def ValidateEntry_def)

theorem pass_sweeps_exactly_due_witness:
  "\<exists>stats en'. Pass fake_catalog demo_catalog (\<lambda>h. 0) demo_sweeps 9 (sweep_New demo_cfg) = Some (stats, en', [''a'', ''b'']) \<and> sg_swept stats = 2"
proof -
  have "listed demo_catalog = [demo_entry ''a'' 2, demo_entry ''b'' 1]"
    by (simp add: demo_catalog_def listed_def less_char_def less_eq_char_def)
  then have "filter (\<lambda>e. eligible (en_cfg (sweep_New demo_cfg)) e \<and> due 9 (tracked (sweep_New demo_cfg) (ce_tenant e))) (listed demo_catalog)
      = [demo_entry ''a'' 2, demo_entry ''b'' 1]"
    by (simp add: eligible_def sweep_New_def demo_cfg_def due_def tracked_def mget_or_def zero_state_def demo_entry_def)
  then show ?thesis
    using pass_sweeps_exactly_due [OF demo_catalog_ok, of 9 "\<lambda>h. 0" demo_sweeps "sweep_New demo_cfg"] by (auto simp: demo_entry_def numeral_2_eq_2)
qed

section \<open>The backoff over time\<close>

definition max_delay :: "SweepConfig \<Rightarrow> int" where
  "max_delay cfg = max (sc_base cfg) (sc_cap cfg)"

text \<open>The durations are such that doubling them does not overflow.\<close>

definition sane :: "SweepConfig \<Rightarrow> bool" where
  "sane cfg = (0 < sc_base cfg \<and> 0 < sc_cap cfg \<and> 2 * max_delay cfg \<le> int64_max)"

definition jitter_ok :: "(int \<Rightarrow> int) \<Rightarrow> bool" where
  "jitter_ok jit = (\<forall>h. 0 \<le> h \<longrightarrow> 0 \<le> jit h \<and> jit h \<le> h)"

text \<open>Engine states reached by nudges and passes; the last sweep so far ended by \<open>ended\<close>.\<close>

inductive sweep_reach :: "SweepConfig \<Rightarrow> int \<Rightarrow> SweepEngine \<Rightarrow> bool" for cfg where
  reach_new: "sweep_reach cfg 0 (sweep_New cfg)"
| reach_wake: "sweep_reach cfg ended en \<Longrightarrow> sweep_reach cfg ended (Wake t en)"
| reach_pass: "sweep_reach cfg ended en \<Longrightarrow> jitter_ok jit \<Longrightarrow> ended \<le> ended' \<Longrightarrow> (\<forall>t. sw_done sw t \<le> ended') \<Longrightarrow>
    fake_ok w \<Longrightarrow> Pass fake_catalog w jit sw now en = Some (stats, en', out) \<Longrightarrow> sweep_reach cfg ended' en'"

definition ts_ok :: "SweepConfig \<Rightarrow> int \<Rightarrow> tenantState \<Rightarrow> bool" where
  "ts_ok cfg ended st = (\<not> ts_inFlight st \<and> 0 \<le> ts_backoff st \<and> ts_backoff st \<le> max_delay cfg \<and> ts_nextDue st \<le> ended + max_delay cfg)"

definition en_ok :: "SweepConfig \<Rightarrow> int \<Rightarrow> SweepEngine \<Rightarrow> bool" where
  "en_ok cfg ended en = (en_cfg en = cfg \<and> 0 \<le> ended \<and> (\<forall>(t, st) \<in> set (en_state en). ts_ok cfg ended st))"

lemma ts_ok_mono: "ts_ok cfg ended st \<Longrightarrow> ended \<le> ended' \<Longrightarrow> ts_ok cfg ended' st"
  by (simp add: ts_ok_def)

lemma ts_ok_zero: "sane cfg \<Longrightarrow> 0 \<le> ended \<Longrightarrow> ts_ok cfg ended zero_state"
  by (auto simp: ts_ok_def zero_state_def sane_def max_delay_def)

lemma en_ok_tracked:
  assumes "sane cfg" "en_ok cfg ended en"
  shows "ts_ok cfg ended (tracked en t)"
proof (cases "mget (en_state en) t")
  case None then show ?thesis using assms ts_ok_zero by (simp add: tracked_def mget_or_def en_ok_def)
next
  case (Some st)
  then have "(t, st) \<in> set (en_state en)" by (rule map_of_SomeD)
  then show ?thesis using Some assms(2) by (auto simp: tracked_def mget_or_def en_ok_def)
qed

lemma en_ok_mput:
  assumes "en_ok cfg ended en" "ts_ok cfg ended st"
  shows "en_ok cfg ended (en\<lparr>en_state := mput t st (en_state en)\<rparr>)"
  using assms set_mput [of t st "en_state en"] by (auto simp: en_ok_def)

lemma backoff_ok:
  assumes "sane cfg" "jitter_ok jit" "ts_ok cfg ended st0" "ts_backoff st = ts_backoff st0 \<or> ts_backoff st = 0" "now \<le> ended" "\<not> ts_inFlight st"
  shows "ts_ok cfg ended (backoffLocked cfg jit now st)"
proof -
  define b where "b = (if ts_backoff st \<le> 0 then sc_base cfg
     else let b2 = to_int64 (ts_backoff st * 2) in if b2 > sc_cap cfg then sc_cap cfg else b2)"
  have s: "0 \<le> ts_backoff st" "ts_backoff st \<le> max_delay cfg"
    using assms(3,4) assms(1) by (auto simp: ts_ok_def sane_def max_delay_def)
  have "to_int64 (ts_backoff st * 2) = ts_backoff st * 2"
    using s assms(1) by (intro to_int64_id) (auto simp: sane_def int64_min_def)
  then have b: "0 \<le> b" "b \<le> max_delay cfg"
    using s assms(1) by (auto simp: b_def Let_def sane_def max_delay_def)
  have "0 \<le> b div 2" using b(1) by simp
  then have "jit (b div 2) \<le> b div 2" using assms(2) by (simp add: jitter_ok_def)
  then have "now + (b div 2 + jit (b div 2)) \<le> ended + max_delay cfg" using b assms(5) by linarith
  moreover have "backoffLocked cfg jit now st = st\<lparr>ts_backoff := b, ts_nextDue := now + (b div 2 + jit (b div 2))\<rparr>"
    by (simp add: backoffLocked_def b_def Let_def)
  ultimately show ?thesis using b assms(6) by (simp add: ts_ok_def)
qed

lemma sweep_end_ok:
  assumes "sane cfg" "jitter_ok jit" "ts_ok cfg ended st0" "sw_done sw t \<le> ended"
  shows "ts_ok cfg ended (sweep_end cfg jit sw t c (st0\<lparr>ts_seen := a, ts_inFlight := b\<rparr>))"
proof -
  define st where "st = (if sw_woken sw t then wake_state (st0\<lparr>ts_seen := a, ts_inFlight := b\<rparr>) else st0\<lparr>ts_seen := a, ts_inFlight := b\<rparr>)\<lparr>ts_inFlight := False\<rparr>"
  have st: "ts_backoff st = ts_backoff st0 \<or> ts_backoff st = 0" "\<not> ts_inFlight st"
    by (simp_all add: st_def wake_state_def)
  have bo: "ts_ok cfg ended (backoffLocked cfg jit (sw_done sw t) st)"
    using backoff_ok [OF assms(1,2,3) st(1) assms(4) st(2)] .
  have "0 \<le> max_delay cfg" using assms(1) by (auto simp: sane_def max_delay_def)
  then have bz: "ts_ok cfg ended (st\<lparr>ts_backoff := 0, ts_nextDue := sw_done sw t\<rparr>)"
    using assms(4) st(2) by (simp add: ts_ok_def)
  have lc: "ts_ok cfg ended (x\<lparr>ts_lastCompact := n\<rparr>) = ts_ok cfg ended x" for x n by (simp add: ts_ok_def)
  show ?thesis unfolding sweep_end_def Let_def st_def [symmetric] using bo bz lc by (simp split: sum.split)
qed

lemma scan_ok:
  assumes "sane cfg" "jitter_ok jit" "en_ok cfg ended en" "\<forall>t. sw_done sw t \<le> ended"
  shows "en_ok cfg ended (fst (snd (scan_entry jit sw now e (stats, en, out))))"
proof (cases rule: scan_entry_cases [of jit sw now e stats en out])
  case (skip s) then show ?thesis using assms(3) by simp
next
  case (wait s st)
  have "ts_ok cfg ended st" using en_ok_tracked [OF assms(1,3)] wait(4) by (simp add: ts_ok_def)
  then show ?thesis using en_ok_mput [OF assms(3)] wait(1) by simp
next
  case (go s st c)
  have "en_cfg en = cfg" using assms(3) by (simp add: en_ok_def)
  then have "ts_ok cfg ended st"
    using sweep_end_ok [OF assms(1,2) en_ok_tracked [OF assms(1,3)], of sw] assms(4) go(3) by simp
  then show ?thesis using en_ok_mput [OF assms(3)] go(1) by simp
qed

lemma scan_fold_ok:
  assumes "sane cfg" "jitter_ok jit" "\<forall>t. sw_done sw t \<le> ended" "en_ok cfg ended (fst (snd acc))"
  shows "en_ok cfg ended (fst (snd (fold (scan_entry jit sw now) es acc)))"
  using assms(4)
proof (induction es arbitrary: acc)
  case Nil then show ?case by simp
next
  case (Cons e es)
  obtain stats en out where a: "acc = (stats, en, out)" by (metis prod_cases3)
  then have "en_ok cfg ended (fst (snd (scan_entry jit sw now e acc)))"
    using scan_ok [OF assms(1,2) _ assms(3)] Cons.prems by simp
  then show ?case using Cons.IH by simp
qed

lemma en_ok_mono:
  assumes "en_ok cfg ended en" "ended \<le> ended'"
  shows "en_ok cfg ended' en"
  using assms ts_ok_mono [OF _ assms(2), of cfg] by (auto simp: en_ok_def)

lemma reach_en_ok:
  assumes "sweep_reach cfg ended en" "sane (en_cfg (sweep_New cfg))"
  shows "en_ok (en_cfg (sweep_New cfg)) ended en"
  using assms(1)
proof (induction rule: sweep_reach.induct)
  case reach_new then show ?case by (simp add: en_ok_def sweep_New_def)
next
  case (reach_wake ended en t)
  have "ts_ok (en_cfg (sweep_New cfg)) ended (wake_state (tracked en t))"
    using en_ok_tracked [OF assms(2) reach_wake.IH, of t] reach_wake.IH
    by (auto simp: ts_ok_def wake_state_def en_ok_def)
  then have "en_ok (en_cfg (sweep_New cfg)) ended (en\<lparr>en_state := mput t (wake_state (tracked en t)) (en_state en)\<rparr>)"
    by (rule en_ok_mput [OF reach_wake.IH])
  then show ?case by (simp add: Wake_def en_ok_def)
next
  case (reach_pass ended en jit ended' sw w now stats en' out)
  let ?c = "en_cfg (sweep_New cfg)"
  have "en_ok ?c ended' (unmark en)"
    using en_ok_mono [OF reach_pass.IH reach_pass(3)] by (auto simp: en_ok_def unmark_def ts_ok_def)
  then have f: "en_ok ?c ended' (fst (snd (fold (scan_entry jit sw now) es (zero_stats, unmark en, []))))" for es
    using scan_fold_ok [OF assms(2) reach_pass(2,4)] by simp
  obtain en1 where "en' = decay en1" "en_ok ?c ended' en1"
  proof -
    obtain es where "scan_loop fake_catalog w [] [] = Some es" "(case fold (scan_entry jit sw now) es (zero_stats, unmark en, []) of
        (stats, en', out) \<Rightarrow> (stats, decay en', out)) = (stats, en', out)"
      using reach_pass(6) by (auto simp: Pass_def split: option.splits prod.splits)
    then show ?thesis using that f [of es] by (auto split: prod.splits)
  qed
  then show ?case by (auto simp: en_ok_def decay_def)
qed

text \<open>
  C32. No tenant starves: whatever nudges and passes there were, failing sweeps included, a
  pass that starts one backoff ceiling (the larger of base and cap) after the last sweep
  ended sweeps every active, version-current tenant of the catalog.
\<close>

theorem no_tenant_starves:
  assumes "sweep_reach cfg ended en" "2 * max_delay (en_cfg (sweep_New cfg)) \<le> int64_max"
    "fake_ok w" "ended + max_delay (en_cfg (sweep_New cfg)) \<le> now"
  shows "\<exists>stats en'. Pass fake_catalog w jit sw now en =
    Some (stats, en', map ce_tenant (filter (eligible (en_cfg (sweep_New cfg))) (listed w)))"
proof -
  have sn: "sane (en_cfg (sweep_New cfg))" using assms(2) by (simp add: sane_def sweep_New_def)
  note ok = reach_en_ok [OF assms(1) sn]
  have "due now (tracked en t)" for t
    using en_ok_tracked [OF sn ok, of t] assms(4) by (simp add: due_def ts_ok_def)
  then have "dispatched now en = eligible (en_cfg (sweep_New cfg))"
    using ok by (simp add: dispatched_def en_ok_def fun_eq_iff)
  then show ?thesis using Pass_fake [OF assms(3)] by metis
qed

lemma demo_cfg_New [simp]: "en_cfg (sweep_New demo_cfg) = demo_cfg"
  by (simp add: sweep_New_def demo_cfg_def)

theorem no_tenant_starves_witness:
  "\<exists>stats en' s1 en1 out. Pass fake_catalog demo_catalog (\<lambda>h. h) demo_sweeps 9 (sweep_New demo_cfg) = Some (s1, en1, out)
     \<and> Pass fake_catalog demo_catalog (\<lambda>h. h) demo_sweeps 26 en1 = Some (stats, en', map ce_tenant (filter (eligible demo_cfg) (listed demo_catalog)))"
proof -
  obtain s1 en1 where p: "Pass fake_catalog demo_catalog (\<lambda>h. h) demo_sweeps 9 (sweep_New demo_cfg)
      = Some (s1, decay en1, map ce_tenant (filter (dispatched 9 (sweep_New demo_cfg)) (listed demo_catalog)))"
    by (rule Pass_fake [OF demo_catalog_ok])
  have "sweep_reach demo_cfg 10 (decay en1)"
    by (rule reach_pass [OF reach_new _ _ _ demo_catalog_ok p]) (simp_all add: jitter_ok_def demo_sweeps_def)
  moreover have "max_delay demo_cfg = 16" by (simp add: max_delay_def demo_cfg_def)
  ultimately obtain stats en' where "Pass fake_catalog demo_catalog (\<lambda>h. h) demo_sweeps 26 (decay en1)
      = Some (stats, en', map ce_tenant (filter (eligible demo_cfg) (listed demo_catalog)))"
    using no_tenant_starves [of demo_cfg 10 "decay en1" demo_catalog 26 "\<lambda>h. h" demo_sweeps]
    by (auto simp: demo_catalog_ok int64_max_def)
  then show ?thesis using p by blast
qed

section \<open>Where the sweeper forgets\<close>

text \<open>A failing catalog listing drops the bookkeeping of every tenant instead of keeping it.\<close>

lemma outage_drops_bookkeeping:
  assumes "cat_List cat [] listPage w = Inl err" "\<forall>(t, st) \<in> set (en_state en). \<not> ts_inFlight st"
  shows "\<exists>stats en'. Pass cat w jit sw now en = Some (stats, en', []) \<and> en_state en' = []"
proof -
  have "scan_loop cat w [] [] = Some []" using assms(1) by (subst scan_loop.simps) simp
  moreover have "filter (\<lambda>(t, st). ts_seen st \<or> ts_inFlight st) (en_state (unmark en)) = []"
    using assms(2) by (auto simp: unmark_def filter_empty_conv)
  ultimately show ?thesis by (simp add: Pass_def decay_def)
qed

text \<open>A nudge that arrives while the tenant's idle sweep runs is overwritten by its backoff.\<close>

lemma wake_during_sweep_lost:
  assumes "sw_woken sw t" "sw_result sw t c = Inr res" "\<not> Busy res" "sc_base cfg = 2 * h"
  shows "ts_nextDue (sweep_end cfg jit sw t c st) = sw_done sw t + (h + jit h)"
  using assms by (simp add: sweep_end_def wake_state_def backoffLocked_def Let_def)

end
