(* ===== verification/Pool.thy ===== *)
theory Pool
  imports FabErr
begin

text \<open>
  The connection pool of catalog mode (\<^verbatim>\<open>adapters/shard/provider.go\<close>): shards are dialled
  on first use, counted by reference, evicted least recently used first when the cap is
  reached, and a failed dial opens a breaker. The pool's lock is released while a shard is
  dialled, so \<^verbatim>\<open>tryAcquire\<close> is two steps, \<open>tryAcquire\<close> up to the dial and \<open>dial_end\<close> after
  it; every other operation is one step. The waiting loop of \<^verbatim>\<open>Acquire\<close> is the sequence of the
  attempts it makes. The autoscaler (\<^verbatim>\<open>adapters/shard/autoscaler.go\<close>) appears as what it does to
  the pool, a change of the cap at any time. A shard's ports are the type \<open>'p\<close>.
\<close>

section \<open>The pool\<close>

record 'p poolEntry =
  pe_shard :: "'p option"
  pe_refs :: nat
  pe_lastUsed :: int
  pe_dialing :: bool
  pe_ready :: bool
  pe_failUntil :: int
  pe_failCount :: nat

record poolCounters =
  pc_acquires :: int
  pc_misses :: int
  pc_evictions :: int
  pc_waits :: int
  pc_timeouts :: int

text \<open>The closed shards are recorded in the order they were closed.\<close>

record 'p PoolManager =
  pm_entries :: "'p poolEntry gomap"
  pm_freed :: bool
  pm_cap :: int
  pm_backoff :: int
  pm_ctr :: poolCounters
  pm_closed :: "'p option list"

text \<open>A pool with a fixed cap; the dialer, the clock and the timer are not stored.\<close>

definition NewPoolManager :: "int \<Rightarrow> int \<Rightarrow> 'p PoolManager" where
  "NewPoolManager maxActive dialBackoff =
     \<lparr>pm_entries = [], pm_freed = False, pm_cap = (if maxActive \<le> 0 then 128 else maxActive),
      pm_backoff = (if dialBackoff \<le> 0 then 2 * 10 ^ 9 else dialBackoff),
      pm_ctr = \<lparr>pc_acquires = 0, pc_misses = 0, pc_evictions = 0, pc_waits = 0, pc_timeouts = 0\<rparr>, pm_closed = []\<rparr>"

definition live_entry :: "'p poolEntry \<Rightarrow> bool" where
  "live_entry e = (pe_ready e \<or> pe_dialing e)"

definition liveCountLocked :: "'p PoolManager \<Rightarrow> int" where
  "liveCountLocked p = int (length (filter (\<lambda>(i, e). live_entry e) (pm_entries p)))"

definition pick_victim :: "'p poolEntry gomap \<Rightarrow> (string \<times> 'p poolEntry) option" where
  "pick_victim es =
     fold (\<lambda>(i, e) v.
       if \<not> pe_ready e \<or> pe_refs e > 0 then v
       else (case v of
               None \<Rightarrow> Some (i, e)
             | Some (vi, ve) \<Rightarrow> if pe_lastUsed e < pe_lastUsed ve then Some (i, e) else v)) es None"

definition evictIdleLocked :: "'p PoolManager \<Rightarrow> 'p PoolManager option" where
  "evictIdleLocked p =
     (case pick_victim (pm_entries p) of
        None \<Rightarrow> None
      | Some (i, e) \<Rightarrow>
          Some (p\<lparr>pm_entries := mdel i (pm_entries p), pm_closed := pm_closed p @ [pe_shard e],
                  pm_ctr := (pm_ctr p)\<lparr>pc_evictions := inc64 (pc_evictions (pm_ctr p))\<rparr>\<rparr>))"

lemma pick_victim_idle:
  "pick_victim es = Some (i, e) \<Longrightarrow> (i, e) \<in> set es \<and> pe_ready e \<and> pe_refs e = 0"
proof -
  have "fold (\<lambda>(i, e) v. if \<not> pe_ready e \<or> pe_refs e > 0 then v
       else (case v of None \<Rightarrow> Some (i, e) | Some (vi, ve) \<Rightarrow> if pe_lastUsed e < pe_lastUsed ve then Some (i, e) else v)) es v0 = Some (i, e)
     \<Longrightarrow> v0 = Some (i, e) \<or> (i, e) \<in> set es \<and> pe_ready e \<and> pe_refs e = 0" for v0
    by (induction es arbitrary: v0) (fastforce split: if_splits option.splits prod.splits)+
  then show "pick_victim es = Some (i, e) \<Longrightarrow> (i, e) \<in> set es \<and> pe_ready e \<and> pe_refs e = 0"
    unfolding pick_victim_def by blast
qed

lemma evict_shrinks: "evictIdleLocked p = Some p' \<Longrightarrow> length (pm_entries p') < length (pm_entries p)"
  by (auto simp: evictIdleLocked_def AList.delete_eq split: option.splits dest!: pick_victim_idle intro: length_filter_less)

text \<open>Evicting until there is room below the cap; \<open>False\<close>: every open shard is held.\<close>

function make_room :: "'p PoolManager \<Rightarrow> bool \<times> 'p PoolManager" where
  "make_room p =
     (if liveCountLocked p < pm_cap p then (True, p)
      else case evictIdleLocked p of
             None \<Rightarrow> (False, p)
           | Some p' \<Rightarrow> make_room p')"
  by pat_completeness auto

termination make_room
  by (relation "measure (\<lambda>p. length (pm_entries p))") (simp_all add: evict_shrinks)

declare make_room.simps [simp del]

section \<open>Acquire and release\<close>

definition empty_entry :: "'p poolEntry" where
  "empty_entry = \<lparr>pe_shard = None, pe_refs = 0, pe_lastUsed = 0, pe_dialing = False, pe_ready = False,
     pe_failUntil = 0, pe_failCount = 0\<rparr>"

text \<open>
  What the first part of an attempt tells the caller: the shard, an error, to wait (for
  another caller's dial or for capacity), or to dial.
\<close>

datatype 'p attempt = Held "'p option" | Refused gerr | Wait | Dial

definition tryAcquire :: "int \<Rightarrow> string \<Rightarrow> 'p PoolManager \<Rightarrow> 'p attempt \<times> 'p PoolManager" where
  "tryAcquire now shardID p =
     (let e = mget_or empty_entry (pm_entries p) shardID
      in if pe_ready e
         then (Held (pe_shard e),
               p\<lparr>pm_entries := mput shardID (e\<lparr>pe_refs := Suc (pe_refs e), pe_lastUsed := now\<rparr>) (pm_entries p),
                 pm_ctr := (pm_ctr p)\<lparr>pc_acquires := inc64 (pc_acquires (pm_ctr p))\<rparr>\<rparr>)
         else if pe_dialing e then (Wait, p)
         else if mget (pm_entries p) shardID \<noteq> None \<and> now < pe_failUntil e
         then (Refused (err_new CodeUnavailable ''shard is temporarily unreachable (dial breaker open).''
                 [WithMeta (zero_meta\<lparr>mt_detail := [(''shard'', shardID)]\<rparr>)]), p)
         else (case make_room p of
                 (False, p') \<Rightarrow> (Wait, p')
               | (True, p') \<Rightarrow>
                   (Dial, p'\<lparr>pm_entries := mput shardID (e\<lparr>pe_dialing := True\<rparr>) (pm_entries p')\<rparr>)))"

definition minShift :: "int \<Rightarrow> int \<Rightarrow> nat" where
  "minShift n maxShift = nat (max 0 (min n maxShift))"

definition dial_end :: "int \<Rightarrow> string \<Rightarrow> gerr + 'p \<Rightarrow> 'p PoolManager \<Rightarrow> (gerr + 'p) \<times> 'p PoolManager" where
  "dial_end now shardID r p =
     (let e = (mget_or empty_entry (pm_entries p) shardID)\<lparr>pe_dialing := False\<rparr>
      in case r of
           Inl err \<Rightarrow>
             (Inl (err_new CodeUnavailable ''shard dial failed.''
                [WithCause (Some err), WithMeta (zero_meta\<lparr>mt_detail := [(''shard'', shardID)]\<rparr>)]),
              p\<lparr>pm_entries := mput shardID
                  (e\<lparr>pe_failCount := Suc (pe_failCount e),
                     pe_failUntil := now + to_int64 (pm_backoff p * 2 ^ minShift (int (pe_failCount e)) 5)\<rparr>) (pm_entries p)\<rparr>)
         | Inr sh \<Rightarrow>
             (Inr sh,
              p\<lparr>pm_entries := mput shardID
                  (e\<lparr>pe_shard := Some sh, pe_ready := True, pe_failCount := 0, pe_failUntil := 0, pe_refs := 1, pe_lastUsed := now\<rparr>)
                  (pm_entries p),
                pm_ctr := (pm_ctr p)\<lparr>pc_acquires := inc64 (pc_acquires (pm_ctr p)), pc_misses := inc64 (pc_misses (pm_ctr p))\<rparr>\<rparr>))"

text \<open>The release function of a handle; \<open>released\<close> is its own flag.\<close>

definition releaseFunc :: "int \<Rightarrow> string \<Rightarrow> bool \<Rightarrow> 'p PoolManager \<Rightarrow> bool \<times> 'p PoolManager" where
  "releaseFunc now shardID released p =
     (if released then (True, p)
      else (True,
        (case mget (pm_entries p) shardID of
           Some e \<Rightarrow>
             if pe_refs e > 0
             then p\<lparr>pm_entries := mput shardID (e\<lparr>pe_refs := pe_refs e - 1, pe_lastUsed := now\<rparr>) (pm_entries p), pm_freed := True\<rparr>
             else p\<lparr>pm_freed := True\<rparr>
         | None \<Rightarrow> p\<lparr>pm_freed := True\<rparr>)))"

definition pool_Stats :: "'p PoolManager \<Rightarrow> nat \<times> nat" where
  "pool_Stats p =
     (length (filter (\<lambda>(i, e). pe_ready e) (pm_entries p)),
      length (filter (\<lambda>(i, e). pe_ready e \<and> pe_refs e > 0) (pm_entries p)))"

text \<open>Every open shard is closed, held or not; the first error of closing is the result.\<close>

definition CloseAll :: "('p option \<Rightarrow> gerr option) \<Rightarrow> 'p PoolManager \<Rightarrow> gerr option \<times> 'p PoolManager" where
  "CloseAll close p =
     (let opened = map (\<lambda>(i, e). pe_shard e) (filter (\<lambda>(i, e). pe_ready e) (pm_entries p))
      in (fold (\<lambda>sh firstErr. case firstErr of None \<Rightarrow> close sh | Some err \<Rightarrow> firstErr) opened None,
          p\<lparr>pm_entries := [], pm_closed := pm_closed p @ opened\<rparr>))"

section \<open>Callers and the pool\<close>

text \<open>
  The pool with its callers: the dials in flight, the handles given out and not yet
  released (handle and shard), and the largest cap so far. The cap may be moved at any time.
  The steps are those of a running pool, before \<open>CloseAll\<close> shuts it down.
\<close>

record 'p system =
  sy_pool :: "'p PoolManager"
  sy_dials :: "string list"
  sy_handles :: "(nat \<times> string) list"
  sy_high :: int

definition handles_on :: "'p system \<Rightarrow> string \<Rightarrow> nat" where
  "handles_on s i = length (filter (\<lambda>(h, i'). i' = i) (sy_handles s))"

inductive pool_step :: "'p system \<Rightarrow> 'p system \<Rightarrow> bool" where
  step_hit: "tryAcquire now i (sy_pool s) = (Held sh, p) \<Longrightarrow> h \<notin> fst ` set (sy_handles s) \<Longrightarrow>
    pool_step s (s\<lparr>sy_pool := p, sy_handles := (h, i) # sy_handles s\<rparr>)"
| step_dial: "tryAcquire now i (sy_pool s) = (Dial, p) \<Longrightarrow> pool_step s (s\<lparr>sy_pool := p, sy_dials := i # sy_dials s\<rparr>)"
| step_idle: "tryAcquire now i (sy_pool s) = (r, p) \<Longrightarrow> r = Wait \<or> r = Refused err \<Longrightarrow> pool_step s (s\<lparr>sy_pool := p\<rparr>)"
| step_dialled: "i \<in> set (sy_dials s) \<Longrightarrow> dial_end now i (Inr sh) (sy_pool s) = (Inr sh', p) \<Longrightarrow> h \<notin> fst ` set (sy_handles s) \<Longrightarrow>
    pool_step s (s\<lparr>sy_pool := p, sy_dials := remove1 i (sy_dials s), sy_handles := (h, i) # sy_handles s\<rparr>)"
| step_failed: "i \<in> set (sy_dials s) \<Longrightarrow> dial_end now i (Inl err) (sy_pool s) = (Inl err', p) \<Longrightarrow>
    pool_step s (s\<lparr>sy_pool := p, sy_dials := remove1 i (sy_dials s)\<rparr>)"
| step_release: "(h, i) \<in> set (sy_handles s) \<Longrightarrow> releaseFunc now i False (sy_pool s) = (released, p) \<Longrightarrow>
    pool_step s (s\<lparr>sy_pool := p, sy_handles := remove1 (h, i) (sy_handles s)\<rparr>)"
| step_cap: "pool_step s (s\<lparr>sy_pool := (sy_pool s)\<lparr>pm_cap := c\<rparr>, sy_high := max (sy_high s) c\<rparr>)"

definition pool_start :: "int \<Rightarrow> int \<Rightarrow> 'p system" where
  "pool_start maxActive dialBackoff =
     \<lparr>sy_pool = NewPoolManager maxActive dialBackoff, sy_dials = [], sy_handles = [],
      sy_high = pm_cap (NewPoolManager maxActive dialBackoff :: 'p PoolManager)\<rparr>"

inductive pool_reach :: "int \<Rightarrow> int \<Rightarrow> 'p system \<Rightarrow> bool" for a b where
  pool_reach_start: "pool_reach a b (pool_start a b)"
| pool_reach_step: "pool_reach a b s \<Longrightarrow> pool_step s s' \<Longrightarrow> pool_reach a b s'"

section \<open>The invariant\<close>

text \<open>An entry against the callers: its reference count, its dial, its readiness.\<close>

definition entry_ok :: "'p system \<Rightarrow> string \<Rightarrow> 'p poolEntry option \<Rightarrow> bool" where
  "entry_ok s i oe =
     (case oe of
        None \<Rightarrow> handles_on s i = 0 \<and> i \<notin> set (sy_dials s)
      | Some e \<Rightarrow> pe_refs e = handles_on s i \<and> pe_dialing e = (i \<in> set (sy_dials s))
                   \<and> (pe_ready e \<longrightarrow> \<not> pe_dialing e) \<and> (\<not> pe_ready e \<longrightarrow> pe_refs e = 0))"

lemma entry_ok_cong:
  "handles_on s' j = handles_on s j \<Longrightarrow> (j \<in> set (sy_dials s')) = (j \<in> set (sy_dials s)) \<Longrightarrow> entry_ok s' j oe = entry_ok s j oe"
  by (cases oe) (simp_all add: entry_ok_def)

lemma entry_ok_pool [simp]: "entry_ok (s\<lparr>sy_pool := p\<rparr>) j oe = entry_ok s j oe"
  by (rule entry_ok_cong) (simp_all add: handles_on_def)

definition pool_inv :: "'p system \<Rightarrow> bool" where
  "pool_inv s =
     (wf_map (pm_entries (sy_pool s)) \<and> distinct (sy_dials s) \<and> distinct (map fst (sy_handles s))
      \<and> (\<forall>i. entry_ok s i (mget (pm_entries (sy_pool s)) i))
      \<and> liveCountLocked (sy_pool s) \<le> sy_high s \<and> pm_cap (sy_pool s) \<le> sy_high s)"

text \<open>The number of live entries, split at one shard.\<close>

definition live_in :: "'p poolEntry gomap \<Rightarrow> nat" where
  "live_in m = length (filter (\<lambda>(i, e). live_entry e) m)"

lemma live_in_del:
  "wf_map m \<Longrightarrow> live_in m = live_in (mdel i m) + (case mget m i of Some e \<Rightarrow> if live_entry e then 1 else 0 | None \<Rightarrow> 0)"
proof (induction m)
  case Nil then show ?case by (simp add: live_in_def)
next
  case (Cons x m)
  obtain j e where x: "x = (j, e)" by fastforce
  have w: "wf_map m" and nj: "mget m j = None" using Cons.prems x by (auto simp: wf_map_def map_of_eq_None_iff)
  have d: "mdel j m = m" using nj by (simp add: AList.delete_notin_dom domIff map_of_eq_None_iff)
  show ?case
  proof (cases "j = i")
    case True then show ?thesis using d x by (simp add: live_in_def)
  next
    case False then show ?thesis using Cons.IH [OF w] x by (simp add: live_in_def)
  qed
qed

lemma live_in_put:
  assumes "wf_map m"
  shows "live_in (mput i e m) = live_in (mdel i m) + (if live_entry e then 1 else 0)"
proof -
  have "mdel i (mput i e m) = mdel i m" by (induction m) auto
  then show ?thesis using live_in_del [OF wf_map_mput [OF assms], of i e i] by simp
qed

lemma liveCount_eq: "liveCountLocked p = int (live_in (pm_entries p))"
  by (simp add: liveCountLocked_def live_in_def)

text \<open>Eviction keeps the invariant, and frees no shard that is held or being dialled.\<close>

lemma evict_inv:
  assumes "pool_inv s" "evictIdleLocked (sy_pool s) = Some p"
  shows "pool_inv (s\<lparr>sy_pool := p\<rparr>)" "\<forall>i. pe_ready (mget_or empty_entry (pm_entries (sy_pool s)) i) = False \<longrightarrow> mget (pm_entries p) i = mget (pm_entries (sy_pool s)) i"
    "pm_cap p = pm_cap (sy_pool s)"
proof -
  obtain i e where v: "pick_victim (pm_entries (sy_pool s)) = Some (i, e)" "pm_entries p = mdel i (pm_entries (sy_pool s))"
    "pm_cap p = pm_cap (sy_pool s)"
    using assms(2) by (auto simp: evictIdleLocked_def split: option.splits)
  have w: "wf_map (pm_entries (sy_pool s))" using assms(1) by (simp add: pool_inv_def)
  have e: "mget (pm_entries (sy_pool s)) i = Some e" "pe_ready e" "pe_refs e = 0"
    using pick_victim_idle [OF v(1)] w by (simp_all add: mget_in_set)
  have ei: "entry_ok s i (Some e)" using assms(1) e(1) unfolding pool_inv_def by metis
  then have "handles_on s i = 0" "i \<notin> set (sy_dials s)" using e by (auto simp: entry_ok_def)
  then have "entry_ok s i None" by (simp add: entry_ok_def)
  then have a: "\<forall>j. entry_ok s j (mget (pm_entries p) j)" using assms(1) v(2) by (simp add: pool_inv_def)
  have "live_in (pm_entries p) \<le> live_in (pm_entries (sy_pool s))" using live_in_del [OF w, of i] v(2) by simp
  then show "pool_inv (s\<lparr>sy_pool := p\<rparr>)"
    using assms(1) a v w by (simp add: pool_inv_def liveCount_eq)
  show "\<forall>j. pe_ready (mget_or empty_entry (pm_entries (sy_pool s)) j) = False \<longrightarrow> mget (pm_entries p) j = mget (pm_entries (sy_pool s)) j"
    using v(2) e by (auto simp: mget_or_def)
  show "pm_cap p = pm_cap (sy_pool s)" by (rule v(3))
qed

lemma make_room_inv:
  assumes "pool_inv s" "make_room (sy_pool s) = (ok, p)"
  shows "pool_inv (s\<lparr>sy_pool := p\<rparr>) \<and> (ok \<longrightarrow> liveCountLocked p < pm_cap p)
    \<and> (\<forall>i. \<not> pe_ready (mget_or empty_entry (pm_entries (sy_pool s)) i) \<longrightarrow> mget (pm_entries p) i = mget (pm_entries (sy_pool s)) i)"
  using assms
proof (induction "sy_pool s" arbitrary: s rule: make_room.induct)
  case 1
  show ?case
  proof (cases "liveCountLocked (sy_pool s) < pm_cap (sy_pool s)")
    case True then show ?thesis using 1(2,3) by (subst (asm) make_room.simps) auto
  next
    case False
    show ?thesis
    proof (cases "evictIdleLocked (sy_pool s)")
      case None then show ?thesis using False 1(2,3) by (subst (asm) make_room.simps) auto
    next
      case (Some p1)
      note ev = evict_inv [OF 1(2) Some]
      have r: "make_room p1 = (ok, p)" using 1(3) False Some by (simp add: make_room.simps [of "sy_pool s"])
      have ih: "pool_inv (s\<lparr>sy_pool := p\<rparr>) \<and> (ok \<longrightarrow> liveCountLocked p < pm_cap p)
          \<and> (\<forall>i. \<not> pe_ready (mget_or empty_entry (pm_entries p1) i) \<longrightarrow> mget (pm_entries p) i = mget (pm_entries p1) i)"
        using 1(1) [of "s\<lparr>sy_pool := p1\<rparr>"] False Some ev(1) r by simp
      then show ?thesis using ev(2) by (simp add: mget_or_def)
    qed
  qed
qed

text \<open>Changing one entry, its handles and its dial.\<close>

lemma pool_inv_put:
  assumes "pool_inv s" "pm_entries (sy_pool s') = mput i e (pm_entries (sy_pool s))"
    "pm_cap (sy_pool s') = pm_cap (sy_pool s)" "sy_high s' = sy_high s"
    "entry_ok s' i (Some e)" "\<forall>j. j \<noteq> i \<longrightarrow> handles_on s' j = handles_on s j \<and> (j \<in> set (sy_dials s')) = (j \<in> set (sy_dials s))"
    "distinct (sy_dials s')" "distinct (map fst (sy_handles s'))"
    "live_entry e \<longrightarrow> live_entry (mget_or empty_entry (pm_entries (sy_pool s)) i) \<or> liveCountLocked (sy_pool s) < sy_high s"
  shows "pool_inv s'"
proof -
  let ?m = "pm_entries (sy_pool s)"
  have w: "wf_map ?m" and o: "\<forall>j. entry_ok s j (mget ?m j)" and lv: "int (live_in ?m) \<le> sy_high s"
    using assms(1) by (simp_all add: pool_inv_def liveCount_eq)
  have "entry_ok s' j (mget ?m j)" if "j \<noteq> i" for j
    using o entry_ok_cong [of s' j s] assms(6) that by simp
  then have a: "\<forall>j. entry_ok s' j (mget (pm_entries (sy_pool s')) j)" using assms(2,5) by simp
  have "int (live_in (mput i e ?m)) \<le> sy_high s"
    using live_in_put [OF w, of i e] live_in_del [OF w, of i] lv assms(9)
    by (auto simp: mget_or_def empty_entry_def live_entry_def liveCount_eq split: option.splits if_splits)
  then show ?thesis using assms w a by (simp add: pool_inv_def liveCount_eq)
qed

lemma pool_inv_entry:
  assumes "pool_inv s"
  shows "let e = mget_or empty_entry (pm_entries (sy_pool s)) i in
    pe_refs e = handles_on s i \<and> pe_dialing e = (i \<in> set (sy_dials s)) \<and> (pe_ready e \<longrightarrow> \<not> pe_dialing e) \<and> (\<not> pe_ready e \<longrightarrow> pe_refs e = 0)"
proof -
  have "entry_ok s i (mget (pm_entries (sy_pool s)) i)" using assms by (simp add: pool_inv_def)
  then show ?thesis by (auto simp: entry_ok_def Let_def mget_or_def empty_entry_def split: option.splits)
qed

lemma handles_on_cons: "handles_on (s\<lparr>sy_pool := p, sy_handles := (h, i) # sy_handles s\<rparr>) j = handles_on s j + (if j = i then 1 else 0)"
  by (simp add: handles_on_def)

lemma handles_on_remove:
  assumes "(h, i) \<in> set (sy_handles s)"
  shows "handles_on s j = handles_on (s\<lparr>sy_pool := p, sy_handles := remove1 (h, i) (sy_handles s)\<rparr>) j + (if j = i then 1 else 0)"
proof -
  have "length (filter (\<lambda>(h', i'). i' = j) hs) = length (filter (\<lambda>(h', i'). i' = j) (remove1 (h, i) hs)) + (if j = i then 1 else 0)"
    if "(h, i) \<in> set hs" for hs
    using that by (induction hs) auto
  then show ?thesis using assms by (simp add: handles_on_def)
qed

lemma hit_inv:
  assumes "pool_inv s" "tryAcquire now i (sy_pool s) = (Held sh, p)" "h \<notin> fst ` set (sy_handles s)"
  shows "pool_inv (s\<lparr>sy_pool := p, sy_handles := (h, i) # sy_handles s\<rparr>)"
proof -
  let ?e = "mget_or empty_entry (pm_entries (sy_pool s)) i"
  have r: "pe_ready ?e" "p = (sy_pool s)\<lparr>pm_entries := mput i (?e\<lparr>pe_refs := Suc (pe_refs ?e), pe_lastUsed := now\<rparr>) (pm_entries (sy_pool s)),
      pm_ctr := (pm_ctr (sy_pool s))\<lparr>pc_acquires := inc64 (pc_acquires (pm_ctr (sy_pool s)))\<rparr>\<rparr>"
    using assms(2) by (auto simp: tryAcquire_def Let_def split: if_splits prod.splits bool.splits)
  note e = pool_inv_entry [OF assms(1), of i, unfolded Let_def]
  show ?thesis
    by (rule pool_inv_put [OF assms(1), where i = i and e = "?e\<lparr>pe_refs := Suc (pe_refs ?e), pe_lastUsed := now\<rparr>"])
      (use assms r e in \<open>auto simp: entry_ok_def handles_on_cons live_entry_def pool_inv_def\<close>)
qed

lemma dial_inv:
  assumes "pool_inv s" "tryAcquire now i (sy_pool s) = (Dial, p)"
  shows "pool_inv (s\<lparr>sy_pool := p, sy_dials := i # sy_dials s\<rparr>)"
proof -
  let ?e = "mget_or empty_entry (pm_entries (sy_pool s)) i"
  obtain p1 where r: "\<not> pe_ready ?e" "\<not> pe_dialing ?e" "make_room (sy_pool s) = (True, p1)"
    "p = p1\<lparr>pm_entries := mput i (?e\<lparr>pe_dialing := True\<rparr>) (pm_entries p1)\<rparr>"
    using assms(2) by (auto simp: tryAcquire_def Let_def split: if_splits prod.splits bool.splits)
  note mr = make_room_inv [OF assms(1) r(3)]
  let ?s = "s\<lparr>sy_pool := p1\<rparr>"
  have g: "mget_or empty_entry (pm_entries p1) i = ?e" using mr r(1) by (simp add: mget_or_def)
  have iv: "pool_inv ?s" using mr by blast
  note e = pool_inv_entry [OF iv, of i, unfolded Let_def]
  have c: "pm_cap p1 \<le> sy_high s" using iv by (simp add: pool_inv_def)
  show ?thesis
    by (rule pool_inv_put [OF iv, where i = i and e = "?e\<lparr>pe_dialing := True\<rparr>"])
      (use iv r e g mr c in \<open>auto simp: entry_ok_def handles_on_def live_entry_def pool_inv_def\<close>)
qed

lemma idle_inv:
  assumes "pool_inv s" "tryAcquire now i (sy_pool s) = (r, p)" "r = Wait \<or> r = Refused err"
  shows "pool_inv (s\<lparr>sy_pool := p\<rparr>)"
proof -
  have "p = sy_pool s \<or> make_room (sy_pool s) = (False, p)"
    using assms(2,3) by (auto simp: tryAcquire_def Let_def split: if_splits prod.splits bool.splits)
  moreover have "s\<lparr>sy_pool := sy_pool s\<rparr> = s" by simp
  ultimately show ?thesis using make_room_inv [OF assms(1)] assms(1) by metis
qed

lemma dialled_inv:
  assumes "pool_inv s" "i \<in> set (sy_dials s)" "dial_end now i (Inr sh) (sy_pool s) = (Inr sh', p)" "h \<notin> fst ` set (sy_handles s)"
  shows "pool_inv (s\<lparr>sy_pool := p, sy_dials := remove1 i (sy_dials s), sy_handles := (h, i) # sy_handles s\<rparr>)"
proof -
  let ?e = "mget_or empty_entry (pm_entries (sy_pool s)) i"
  let ?e' = "?e\<lparr>pe_dialing := False, pe_shard := Some sh, pe_ready := True, pe_failCount := 0, pe_failUntil := 0, pe_refs := 1, pe_lastUsed := now\<rparr>"
  have p: "pm_entries p = mput i ?e' (pm_entries (sy_pool s))" "pm_cap p = pm_cap (sy_pool s)"
    using assms(3) by (auto simp: dial_end_def Let_def)
  note e = pool_inv_entry [OF assms(1), of i, unfolded Let_def]
  have d: "distinct (sy_dials s)" using assms(1) by (simp add: pool_inv_def)
  have z: "handles_on s i = 0" using e assms(2) by auto
  show ?thesis
  proof (rule pool_inv_put [OF assms(1), where i = i and e = ?e'])
    show "entry_ok (s\<lparr>sy_pool := p, sy_dials := remove1 i (sy_dials s), sy_handles := (h, i) # sy_handles s\<rparr>) i (Some ?e')"
      using z d by (simp add: entry_ok_def handles_on_def)
  next
    show "live_entry ?e' \<longrightarrow> live_entry ?e \<or> liveCountLocked (sy_pool s) < sy_high s" using e assms(2) by (simp add: live_entry_def)
  next
    show "distinct (map fst (sy_handles (s\<lparr>sy_pool := p, sy_dials := remove1 i (sy_dials s), sy_handles := (h, i) # sy_handles s\<rparr>)))"
      using assms(1,4) by (simp add: pool_inv_def)
  qed (simp_all add: p d handles_on_def)
qed

lemma failed_inv:
  assumes "pool_inv s" "i \<in> set (sy_dials s)" "dial_end now i (Inl err) (sy_pool s) = (Inl err', p)"
  shows "pool_inv (s\<lparr>sy_pool := p, sy_dials := remove1 i (sy_dials s)\<rparr>)"
proof -
  let ?e = "mget_or empty_entry (pm_entries (sy_pool s)) i"
  obtain e' where p: "pm_entries p = mput i e' (pm_entries (sy_pool s))" "pm_cap p = pm_cap (sy_pool s)"
    "pe_refs e' = pe_refs ?e" "\<not> pe_dialing e'" "pe_ready e' = pe_ready ?e"
    using assms(3) by (auto simp: dial_end_def Let_def)
  note e = pool_inv_entry [OF assms(1), of i, unfolded Let_def]
  have d: "distinct (sy_dials s)" using assms(1) by (simp add: pool_inv_def)
  have z: "handles_on s i = 0" "\<not> pe_ready ?e" using e assms(2) by auto
  show ?thesis
  proof (rule pool_inv_put [OF assms(1), where i = i and e = e'])
    show "entry_ok (s\<lparr>sy_pool := p, sy_dials := remove1 i (sy_dials s)\<rparr>) i (Some e')"
      using z d e p by (simp add: entry_ok_def handles_on_def)
  next
    show "live_entry e' \<longrightarrow> live_entry ?e \<or> liveCountLocked (sy_pool s) < sy_high s" using p z by (simp add: live_entry_def)
  next
    show "distinct (map fst (sy_handles (s\<lparr>sy_pool := p, sy_dials := remove1 i (sy_dials s)\<rparr>)))"
      using assms(1) by (simp add: pool_inv_def)
  qed (simp_all add: p d handles_on_def)
qed

lemma distinct_fst_remove1: "distinct (map fst hs) \<Longrightarrow> distinct (map fst (remove1 x hs))"
  by (induction hs) (auto dest: set_remove1_subset [THEN subsetD])

lemma handle_entry:
  assumes "pool_inv s" "(h, i) \<in> set (sy_handles s)"
  obtains e where "mget (pm_entries (sy_pool s)) i = Some e" "pe_ready e" "pe_refs e = handles_on s i" "0 < handles_on s i" "i \<notin> set (sy_dials s)"
proof -
  have "0 < handles_on s i" using handles_on_remove [OF assms(2), of i "sy_pool s"] by simp
  moreover have "entry_ok s i (mget (pm_entries (sy_pool s)) i)" using assms(1) by (simp add: pool_inv_def)
  ultimately show ?thesis using that by (cases "mget (pm_entries (sy_pool s)) i") (auto simp: entry_ok_def)
qed

lemma release_inv:
  assumes "pool_inv s" "(h, i) \<in> set (sy_handles s)" "releaseFunc now i False (sy_pool s) = (released, p)"
  shows "pool_inv (s\<lparr>sy_pool := p, sy_handles := remove1 (h, i) (sy_handles s)\<rparr>)"
proof -
  obtain e where e: "mget (pm_entries (sy_pool s)) i = Some e" "pe_ready e" "pe_refs e = handles_on s i" "0 < handles_on s i" "i \<notin> set (sy_dials s)"
    by (rule handle_entry [OF assms(1,2)])
  let ?e' = "e\<lparr>pe_refs := pe_refs e - 1, pe_lastUsed := now\<rparr>"
  have p: "pm_entries p = mput i ?e' (pm_entries (sy_pool s))" "pm_cap p = pm_cap (sy_pool s)"
    using assms(3) e by (auto simp: releaseFunc_def)
  note hr = handles_on_remove [OF assms(2), where p = p]
  have nd: "\<not> pe_dialing e" using pool_inv_entry [OF assms(1), of i] e by (simp add: Let_def mget_or_def)
  show ?thesis
  proof (rule pool_inv_put [OF assms(1), where i = i and e = ?e'])
    show "entry_ok (s\<lparr>sy_pool := p, sy_handles := remove1 (h, i) (sy_handles s)\<rparr>) i (Some ?e')"
      using e nd hr [of i] by (simp add: entry_ok_def)
    show "\<forall>j. j \<noteq> i \<longrightarrow> handles_on (s\<lparr>sy_pool := p, sy_handles := remove1 (h, i) (sy_handles s)\<rparr>) j = handles_on s j
        \<and> (j \<in> set (sy_dials (s\<lparr>sy_pool := p, sy_handles := remove1 (h, i) (sy_handles s)\<rparr>))) = (j \<in> set (sy_dials s))"
      using hr by simp
    show "distinct (map fst (sy_handles (s\<lparr>sy_pool := p, sy_handles := remove1 (h, i) (sy_handles s)\<rparr>)))"
      using assms(1) by (simp add: pool_inv_def distinct_fst_remove1)
  next
    show "distinct (sy_dials (s\<lparr>sy_pool := p, sy_handles := remove1 (h, i) (sy_handles s)\<rparr>))"
      using assms(1) by (simp add: pool_inv_def)
  qed (use e in \<open>simp_all add: p live_entry_def mget_or_def\<close>)
qed

lemma pool_step_inv: "pool_step s s' \<Longrightarrow> pool_inv s \<Longrightarrow> pool_inv s'"
proof (induction rule: pool_step.induct)
  case (step_hit now i s sh p h) then show ?case by (intro hit_inv)
next
  case (step_dial now i s p) then show ?case by (intro dial_inv)
next
  case (step_idle now i s r p err) then show ?case by (intro idle_inv)
next
  case (step_dialled i s now sh sh' p h) then show ?case by (intro dialled_inv)
next
  case (step_failed i s now err err' p) then show ?case by (intro failed_inv)
next
  case (step_release h i s now released p) then show ?case by (intro release_inv)
next
  case (step_cap s c)
  have "entry_ok (s\<lparr>sy_pool := (sy_pool s)\<lparr>pm_cap := c\<rparr>, sy_high := max (sy_high s) c\<rparr>) j oe = entry_ok s j oe" for j oe
    by (rule entry_ok_cong) (simp_all add: handles_on_def)
  then show ?case using step_cap by (auto simp: pool_inv_def liveCountLocked_def)
qed

lemma pool_reach_inv: "pool_reach a b s \<Longrightarrow> pool_inv s"
proof (induction rule: pool_reach.induct)
  case pool_reach_start
  show ?case by (simp add: pool_inv_def pool_start_def NewPoolManager_def entry_ok_def handles_on_def liveCountLocked_def)
next
  case (pool_reach_step s s') show ?case by (rule pool_step_inv [OF pool_reach_step(2,3)])
qed

text \<open>
  C36. Until the pool is shut down a shard in use is never closed: however callers, dials, releases and cap changes
  interleave, every handle given out and not released refers to an open shard of the pool,
  counted once per handle; a shard has at most one dial in flight, and none while it is
  open; the open and dialling shards never exceed the largest cap there was; and an eviction
  removes a shard no handle refers to.
\<close>

theorem held_shards_stay_open:
  assumes "pool_reach a b s"
  shows "(\<forall>h i. (h, i) \<in> set (sy_handles s) \<longrightarrow>
        (\<exists>e. mget (pm_entries (sy_pool s)) i = Some e \<and> pe_ready e \<and> pe_refs e = handles_on s i \<and> i \<notin> set (sy_dials s)))
    \<and> distinct (sy_dials s) \<and> liveCountLocked (sy_pool s) \<le> sy_high s
    \<and> (\<forall>p. evictIdleLocked (sy_pool s) = Some p \<longrightarrow>
        (\<exists>i. handles_on s i = 0 \<and> pm_entries p = mdel i (pm_entries (sy_pool s))))"
proof (intro conjI allI impI)
  note inv = pool_reach_inv [OF assms]
  show "distinct (sy_dials s)" "liveCountLocked (sy_pool s) \<le> sy_high s" using inv by (simp_all add: pool_inv_def)
  show "\<exists>e. mget (pm_entries (sy_pool s)) i = Some e \<and> pe_ready e \<and> pe_refs e = handles_on s i \<and> i \<notin> set (sy_dials s)"
    if "(h, i) \<in> set (sy_handles s)" for h i
    using handle_entry [OF inv that] by metis
  show "\<exists>i. handles_on s i = 0 \<and> pm_entries p = mdel i (pm_entries (sy_pool s))" if ev: "evictIdleLocked (sy_pool s) = Some p" for p
  proof -
    obtain i e where v: "pick_victim (pm_entries (sy_pool s)) = Some (i, e)" "pm_entries p = mdel i (pm_entries (sy_pool s))"
      using ev by (cases "pick_victim (pm_entries (sy_pool s))") (auto simp: evictIdleLocked_def)
    have "mget (pm_entries (sy_pool s)) i = Some e" "pe_refs e = 0"
      using pick_victim_idle [OF v(1)] inv by (simp_all add: mget_in_set pool_inv_def)
    then have "handles_on s i = 0" using pool_inv_entry [OF inv, of i] by (simp add: Let_def mget_or_def)
    then show ?thesis using v(2) by blast
  qed
qed

theorem held_shards_stay_open_witness:
  "\<exists>(s :: nat system) e. pool_reach 1 1 s \<and> (0, ''a'') \<in> set (sy_handles s) \<and> mget (pm_entries (sy_pool s)) ''a'' = Some e \<and> pe_ready e \<and> pe_refs e = 1"
proof -
  let ?s0 = "pool_start 1 1 :: nat system"
  have t: "tryAcquire 5 ''a'' (sy_pool ?s0) = (Dial, (sy_pool ?s0)\<lparr>pm_entries := [(''a'', empty_entry\<lparr>pe_dialing := True\<rparr>)]\<rparr>)"
    by (simp add: tryAcquire_def pool_start_def NewPoolManager_def make_room.simps liveCountLocked_def Let_def mget_or_def empty_entry_def)
  let ?s1 = "?s0\<lparr>sy_pool := (sy_pool ?s0)\<lparr>pm_entries := [(''a'', empty_entry\<lparr>pe_dialing := True\<rparr>)]\<rparr>, sy_dials := [''a'']\<rparr>"
  have r1: "pool_reach 1 1 ?s1"
    using pool_reach_step [OF pool_reach_start step_dial [OF t]] by (simp add: pool_start_def)
  obtain p where p: "dial_end 6 ''a'' (Inr 7) (sy_pool ?s1) = (Inr 7, p)" by (simp add: dial_end_def Let_def)
  let ?s2 = "?s1\<lparr>sy_pool := p, sy_dials := remove1 ''a'' (sy_dials ?s1), sy_handles := (0, ''a'') # sy_handles ?s1\<rparr>"
  have r2: "pool_reach 1 1 ?s2"
    by (rule pool_reach_step [OF r1 step_dialled [OF _ p]]) (simp_all add: pool_start_def)
  have h: "(0, ''a'') \<in> set (sy_handles ?s2)" "handles_on ?s2 ''a'' = 1" by (simp_all add: pool_start_def handles_on_def)
  have "\<exists>e. mget (pm_entries (sy_pool ?s2)) ''a'' = Some e \<and> pe_ready e \<and> pe_refs e = handles_on ?s2 ''a'' \<and> ''a'' \<notin> set (sy_dials ?s2)"
    using held_shards_stay_open [OF r2, THEN conjunct1] h(1) by (elim allE impE)
  then obtain e where "mget (pm_entries (sy_pool ?s2)) ''a'' = Some e \<and> pe_ready e \<and> pe_refs e = handles_on ?s2 ''a'' \<and> ''a'' \<notin> set (sy_dials ?s2)" ..
  then have "pool_reach 1 1 ?s2 \<and> (0, ''a'') \<in> set (sy_handles ?s2) \<and> mget (pm_entries (sy_pool ?s2)) ''a'' = Some e \<and> pe_ready e \<and> pe_refs e = 1"
    using r2 h by simp
  then show ?thesis by (intro exI)
qed

end
