(* ===== verification/Redact.thy ===== *)
theory Redact
  imports Registry "HOL-Library.Sublist"
begin

text \<open>
  The redaction of payloads for the analytics store shared by all tenants
  (\<^verbatim>\<open>core/analytics/applier.go\<close>): a payload is projected to the allow-listed paths of the
  entity's \<^verbatim>\<open>AnalyticsSpec\<close>, the paths listed for hashing are replaced by a salted hash, the
  excluded ones are removed, and the rest is printed with sorted keys. The bytes of a leaf
  are the value they spell; SHA-256 with its hexadecimal text is the argument \<open>sha\<close>.
\<close>

section \<open>Objects and paths\<close>

text \<open>The output under construction: a \<^verbatim>\<open>map[string]any\<close> whose leaves are raw values.\<close>

datatype outv = Leaf json | Node "outv gomap"

definition splitPath :: "string \<Rightarrow> string list" where
  "splitPath p = split_on CHR ''.'' p"

definition parseObject :: "rawmsg \<Rightarrow> gerr + json gomap" where
  "parseObject raw =
     (case raw of
        RawEmpty \<Rightarrow> Inr []
      | RawBad s \<Rightarrow> Inl (Errorf ''invalid character'')
      | RawJson (JObj ms) \<Rightarrow> Inr (go_map_of ms)
      | RawJson JNull \<Rightarrow> Inr []
      | RawJson _ \<Rightarrow> Inl (Errorf ''json: cannot unmarshal into map''))"

fun getPath :: "json gomap \<Rightarrow> string list \<Rightarrow> json option" where
  "getPath cur [] = None"
| "getPath cur [s] = mget cur s"
| "getPath cur (s # t # segs) =
     (case mget cur s of
        None \<Rightarrow> None
      | Some v \<Rightarrow> (case parseObject (RawJson v) of Inl err \<Rightarrow> None | Inr next \<Rightarrow> getPath next (t # segs)))"

definition looksLikeObject :: "json \<Rightarrow> bool" where
  "looksLikeObject raw = (case raw of JObj ms \<Rightarrow> True | _ \<Rightarrow> False)"

lemma go_map_of_subset: "set (go_map_of kvs) \<subseteq> set kvs"
proof (induction kvs rule: rev_induct)
  case Nil then show ?case by (simp add: go_map_of_def)
next
  case (snoc x xs) then show ?case by (cases x) (auto simp: go_map_of_snoc dest: set_mput [THEN subsetD])
qed

lemma member_size: "(k, v) \<in> set ms \<Longrightarrow> size v < size (JObj ms)"
  by (induction ms) auto

text \<open>Expanding an object into the output shape, nested objects included.\<close>

function deepConvert :: "json gomap \<Rightarrow> outv gomap" where
  "deepConvert obj =
     map (\<lambda>(k, v). (k,
       (case parseObject (RawJson v) of
          Inr child \<Rightarrow> if looksLikeObject v then Node (deepConvert child) else Leaf v
        | Inl err \<Rightarrow> Leaf v))) obj"
  by pat_completeness auto

termination deepConvert
proof (relation "measure (\<lambda>obj. Max (insert 0 (size ` snd ` set obj)))")
  fix obj :: "json gomap" and kv k v child
  assume a: "kv \<in> set obj" "(k, v) = kv" "parseObject (RawJson v) = Inr child" "looksLikeObject v"
  obtain ms where v: "v = JObj ms" using a(4) by (cases v) (auto simp: looksLikeObject_def)
  then have c: "child = go_map_of ms" using a(3) by (simp add: parseObject_def)
  have "size w < size v" if "w \<in> snd ` set child" for w
    using that go_map_of_subset [of ms] member_size v c by fastforce
  then have "Max (insert 0 (size ` snd ` set child)) < size v" using v by (subst Max_less_iff) auto
  also have "size v \<le> Max (insert 0 (size ` snd ` set obj))" using a by (intro Max_ge) force+
  finally show "(child, obj) \<in> measure (\<lambda>obj. Max (insert 0 (size ` snd ` set obj)))" by simp
qed simp

declare deepConvert.simps [simp del]

text \<open>Writing and removing a path; a raw object on the way is expanded.\<close>

fun setPath :: "outv gomap \<Rightarrow> string list \<Rightarrow> json \<Rightarrow> outv gomap" where
  "setPath out [] v = out"
| "setPath out [s] v = mput s (Leaf v) out"
| "setPath out (s # t # segs) v =
     (let child =
        (case mget out s of
           Some (Node m) \<Rightarrow> m
         | Some (Leaf raw) \<Rightarrow>
             (if looksLikeObject raw
              then (case parseObject (RawJson raw) of Inr parsed \<Rightarrow> deepConvert parsed | Inl err \<Rightarrow> [])
              else [])
         | None \<Rightarrow> [])
      in mput s (Node (setPath child (t # segs) v)) out)"

fun deletePath :: "outv gomap \<Rightarrow> string list \<Rightarrow> outv gomap" where
  "deletePath out [] = out"
| "deletePath out [s] = mdel s out"
| "deletePath out (s # t # segs) =
     (case mget out s of
        Some (Node m) \<Rightarrow> mput s (Node (deletePath m (t # segs))) out
      | Some (Leaf raw) \<Rightarrow>
          (if looksLikeObject raw
           then (case parseObject (RawJson raw) of
                   Inl err \<Rightarrow> out
                 | Inr parsed \<Rightarrow> mput s (Node (deletePath (deepConvert parsed) (t # segs))) out)
           else out)
      | None \<Rightarrow> out)"

text \<open>Printing with the keys sorted at every level.\<close>

fun marshal_value :: "outv \<Rightarrow> json" where
  "marshal_value (Leaf raw) = raw"
| "marshal_value (Node m) = JObj (sort_key fst (map (\<lambda>(k, v). (k, marshal_value v)) m))"

definition marshalCanonical :: "outv gomap \<Rightarrow> json" where
  "marshalCanonical m = marshal_value (Node m)"

section \<open>Redaction\<close>

definition hashValue :: "golib \<Rightarrow> (string \<Rightarrow> string) \<Rightarrow> string \<Rightarrow> json \<Rightarrow> json" where
  "hashValue lib sha salt raw = JStr (sha (salt @ [char_of (0 :: nat)] @ json_text lib raw))"

definition redact :: "golib \<Rightarrow> (string \<Rightarrow> string) \<Rightarrow> rawmsg \<Rightarrow> AnalyticsSpec \<Rightarrow> string \<Rightarrow> gerr + json" where
  "redact lib sha raw spec salt =
     (if an_hash spec \<noteq> [] \<and> salt = [] then Inl (Errorf ''analytics Hash requires a stable non-empty HashSalt'')
      else case parseObject raw of
             Inl err \<Rightarrow> Inl err
           | Inr obj \<Rightarrow>
               let put = (\<lambda>f p out. case getPath obj (splitPath p) of
                            Some v \<Rightarrow> setPath out (splitPath p) (f v)
                          | None \<Rightarrow> out);
                   included = (if an_include_all spec then deepConvert obj else fold (put (\<lambda>v. v)) (an_include spec) []);
                   hashed = fold (put (hashValue lib sha salt)) (an_hash spec) included
               in Inr (marshalCanonical (fold (\<lambda>p out. deletePath out (splitPath p)) (an_exclude spec) hashed)))"

section \<open>Reading the output\<close>

text \<open>The members of a value, none unless it is an object.\<close>

definition members :: "json \<Rightarrow> json gomap" where
  "members v = (case parseObject (RawJson v) of Inr m \<Rightarrow> m | Inl err \<Rightarrow> [])"

lemma members_simps [simp]: "members (JObj ms) = go_map_of ms" "\<not> looksLikeObject v \<Longrightarrow> members v = []"
  by (auto simp: members_def parseObject_def looksLikeObject_def split: json.splits)

lemma getPath_Nil [simp]: "getPath [] p = None"
  by (cases "([] :: json gomap, p)" rule: getPath.cases) auto

lemma getPath_Cons:
  "getPath cur (s # r) = (case mget cur s of None \<Rightarrow> None | Some v \<Rightarrow> if r = [] then Some v else getPath (members v) r)"
  by (cases r) (auto simp: members_def split: option.splits sum.splits)

declare getPath.simps(3) [simp del]

lemma getPath_append:
  "q \<noteq> [] \<Longrightarrow> r \<noteq> [] \<Longrightarrow> getPath obj (q @ r) = (case getPath obj q of None \<Rightarrow> None | Some v \<Rightarrow> getPath (members v) r)"
  by (induction q arbitrary: obj) (auto simp: getPath_Cons split: option.splits)

fun oget :: "outv gomap \<Rightarrow> string list \<Rightarrow> json option" where
  "oget m [] = None"
| "oget m [s] = map_option marshal_value (mget m s)"
| "oget m (s # t # r) =
     (case mget m s of
        None \<Rightarrow> None
      | Some (Leaf j) \<Rightarrow> getPath (members j) (t # r)
      | Some (Node m') \<Rightarrow> oget m' (t # r))"

lemma oget_Nil [simp]: "oget [] p = None"
  by (cases "([] :: outv gomap, p)" rule: oget.cases) auto

fun wf_out :: "outv \<Rightarrow> bool" where
  "wf_out (Leaf j) = True"
| "wf_out (Node m) = (wf_map m \<and> (\<forall>(k, v) \<in> set m. wf_out v))"

lemma getPath_below:
  assumes "q \<noteq> []" "prefix q p" "getPath obj p = Some j"
  obtains v where "getPath obj q = Some v" "if p = q then v = j else getPath (members v) (drop (length q) p) = Some j"
proof (cases "p = q")
  case True then show ?thesis using assms that by simp
next
  case False
  then obtain r where r: "p = q @ r" "r \<noteq> []" using assms(2) by (auto simp: prefix_def)
  then show ?thesis using assms(1,3) that False by (cases "getPath obj q") (auto simp: getPath_append)
qed

lemma getPath_scalar_end:
  assumes "getPath obj p = Some j" "\<not> looksLikeObject j" "prefix p q" "getPath obj q = Some v"
  shows "p = q"
proof (rule ccontr)
  assume "p \<noteq> q"
  then obtain r where "q = p @ r" "r \<noteq> []" using assms(3) by (auto simp: prefix_def)
  moreover have "p \<noteq> []" using assms(1) by auto
  ultimately show False using assms by (simp add: getPath_append)
qed

text \<open>The output as a tree, raw objects seen as expanded.\<close>

definition kids :: "outv option \<Rightarrow> outv gomap" where
  "kids x = (case x of None \<Rightarrow> [] | Some (Node m) \<Rightarrow> m | Some (Leaf j) \<Rightarrow> deepConvert (members j))"

lemma deepConvert_Nil [simp]: "deepConvert [] = []"
  by (simp add: deepConvert.simps)

lemma mget_deepConvert:
  "mget (deepConvert obj) s = map_option (\<lambda>v. if looksLikeObject v then Node (deepConvert (members v)) else Leaf v) (mget obj s)"
  by (subst deepConvert.simps)
    (induction obj, auto simp: members_def parseObject_def looksLikeObject_def split: json.splits)

lemma oget_deepConvert:
  "\<not> looksLikeObject j \<Longrightarrow> (oget (deepConvert obj) p = Some j) = (getPath obj p = Some j)"
proof (induction p arbitrary: obj)
  case (Cons s r)
  show ?case
  proof (cases "mget obj s")
    case None then show ?thesis by (cases r) (simp_all add: mget_deepConvert getPath_Cons)
  next
    case (Some v)
    have "looksLikeObject (JObj ms)" for ms by (simp add: looksLikeObject_def)
    then show ?thesis using Some Cons by (cases r) (auto simp: mget_deepConvert getPath_Cons)
  qed
qed simp

lemma oget_Cons:
  assumes "\<not> looksLikeObject j"
  shows "(oget m (s # r) = Some j) = (if r = [] then map_option marshal_value (mget m s) = Some j else oget (kids (mget m s)) r = Some j)"
proof (cases r)
  case (Cons t r')
  then show ?thesis
    by (auto simp: kids_def oget_deepConvert [OF assms] split: option.splits outv.splits)
qed simp

lemma setPath_Cons:
  "q \<noteq> [] \<Longrightarrow> setPath m (s # q) v = mput s (Node (setPath (kids (mget m s)) q v)) m"
  by (cases q) (auto simp: kids_def members_def parseObject_def looksLikeObject_def split: option.splits outv.splits json.splits)

definition scalar_leaf :: "outv option \<Rightarrow> bool" where
  "scalar_leaf x = (case x of Some (Leaf j) \<Rightarrow> \<not> looksLikeObject j | Some (Node m) \<Rightarrow> False | None \<Rightarrow> True)"

lemma deletePath_Cons:
  "q \<noteq> [] \<Longrightarrow> deletePath m (s # q) = (if scalar_leaf (mget m s) then m else mput s (Node (deletePath (kids (mget m s)) q)) m)"
  by (cases q) (auto simp: kids_def scalar_leaf_def members_def parseObject_def looksLikeObject_def split: option.splits outv.splits json.splits)

lemma marshal_object: "looksLikeObject (marshal_value (Node m))"
  by (simp add: looksLikeObject_def)

text \<open>What a write and a removal do to the values of the output that are not objects.\<close>

lemma oget_setPath:
  assumes "\<not> looksLikeObject j"
  shows "q \<noteq> [] \<Longrightarrow> (oget (setPath m q v) p = Some j) =
    (if prefix q p then (if p = q then v = j else getPath (members v) (drop (length q) p) = Some j)
     else oget m p = Some j \<and> \<not> prefix p q)"
proof (induction q arbitrary: m p)
  case (Cons s q)
  show ?case
  proof (cases p)
    case (Cons s' r)
    note p = this
    show ?thesis
    proof (cases "s' = s")
      case False then show ?thesis using p assms by (cases q) (auto simp: oget_Cons setPath_Cons)
    next
      case True
      show ?thesis
      proof (cases "q = []")
        case True then show ?thesis using p \<open>s' = s\<close> by (cases r) auto
      next
        case False
        then show ?thesis using p True Cons.IH [OF False, of "kids (mget m s)" r] assms marshal_object
          by (auto simp: oget_Cons setPath_Cons kids_def)
      qed
    qed
  qed simp
qed simp

lemma oget_deletePath:
  assumes "\<not> looksLikeObject j"
  shows "q \<noteq> [] \<Longrightarrow> (oget (deletePath m q) p = Some j) = (oget m p = Some j \<and> \<not> prefix q p)"
proof (induction q arbitrary: m p)
  case (Cons s q)
  show ?case
  proof (cases p)
    case (Cons s' r)
    note p = this
    show ?thesis
    proof (cases "s' = s \<and> q \<noteq> []")
      case False then show ?thesis using p assms by (cases "q = []") (auto simp: oget_Cons deletePath_Cons kids_def)
    next
      case True
      show ?thesis
      proof (cases "scalar_leaf (mget m s)")
        case True
        then show ?thesis using p \<open>s' = s \<and> q \<noteq> []\<close> assms
          by (auto simp: oget_Cons deletePath_Cons kids_def scalar_leaf_def split: option.splits outv.splits)
      next
        case False
        then show ?thesis using p True Cons.IH [of "kids (mget m s)" r] assms marshal_object
          by (auto simp: oget_Cons deletePath_Cons kids_def scalar_leaf_def split: option.splits outv.splits)
      qed
    qed
  qed simp
qed simp

section \<open>What is published\<close>

definition under :: "string list \<Rightarrow> string list \<Rightarrow> bool" where
  "under ps p = (\<exists>q \<in> set ps. prefix (splitPath q) p)"

definition put_path :: "(json \<Rightarrow> json) \<Rightarrow> json gomap \<Rightarrow> string \<Rightarrow> outv gomap \<Rightarrow> outv gomap" where
  "put_path f obj p out =
     (case getPath obj (splitPath p) of Some v \<Rightarrow> setPath out (splitPath p) (f v) | None \<Rightarrow> out)"

lemma splitPath_ne [simp]: "splitPath p \<noteq> []"
  by (simp add: splitPath_def)

lemma under_simps [simp]: "\<not> under [] p" "under (q # qs) p = (prefix (splitPath q) p \<or> under qs p)"
  "under (qs @ qs') p = (under qs p \<or> under qs' p)"
  by (auto simp: under_def)

lemma put_path_snoc:
  "fold (put_path f obj) (hs @ [h]) out =
     (case getPath obj (splitPath h) of
        Some v \<Rightarrow> setPath (fold (put_path f obj) hs out) (splitPath h) (f v)
      | None \<Rightarrow> fold (put_path f obj) hs out)"
  by (simp add: put_path_def)

lemma included_exact:
  assumes "\<not> looksLikeObject j"
  shows "(oget (fold (put_path (\<lambda>v. v) obj) ps []) p = Some j) = (getPath obj p = Some j \<and> under ps p)"
proof (induction ps rule: rev_induct)
  case Nil show ?case by simp
next
  case (snoc q ps)
  let ?q = "splitPath q"
  show ?case
  proof (cases "getPath obj ?q")
    case None
    have "\<not> prefix ?q p" if "getPath obj p = Some j" using getPath_below [OF splitPath_ne _ that, of q] None by force
    then show ?thesis using snoc None by (auto simp: put_path_snoc simp del: fold_append)
  next
    case (Some v)
    have a: "p = ?q" if "getPath obj p = Some j" "prefix p ?q" using getPath_scalar_end [OF that(1) assms that(2) Some] .
    have b: "(if p = ?q then v = j else getPath (members v) (drop (length ?q) p) = Some j) = (getPath obj p = Some j)"
      if pq: "prefix ?q p"
    proof (cases "p = ?q")
      case False
      then obtain r where "p = ?q @ r" "r \<noteq> []" using pq by (auto simp: prefix_def)
      then show ?thesis using Some by (simp add: getPath_append)
    qed (use Some in simp)
    have "(oget (setPath (fold (put_path (\<lambda>v. v) obj) ps []) ?q v) p = Some j) =
        (if prefix ?q p then getPath obj p = Some j else getPath obj p = Some j \<and> under ps p)"
      unfolding oget_setPath [OF assms splitPath_ne] snoc using a b by auto
    then show ?thesis by (simp only: put_path_snoc Some option.case  under_simps) auto
  qed
qed

lemma hashed_sound:
  assumes "\<not> looksLikeObject j" "\<forall>v. \<not> looksLikeObject (f v)" "oget (fold (put_path f obj) hs out) p = Some j"
  shows "oget out p = Some j \<and> (\<forall>h \<in> set hs. prefix (splitPath h) p \<longrightarrow> getPath obj (splitPath h) = None)
    \<or> (\<exists>h \<in> set hs. splitPath h = p) \<and> (\<exists>v. getPath obj p = Some v \<and> j = f v)"
  using assms(3)
proof (induction hs rule: rev_induct)
  case (snoc h hs)
  show ?case
  proof (cases "getPath obj (splitPath h)")
    case None then show ?thesis using snoc by (auto simp: put_path_snoc simp del: fold_append)
  next
    case (Some v)
    have s: "if prefix (splitPath h) p then (if p = splitPath h then f v = j else getPath (members (f v)) (drop (length (splitPath h)) p) = Some j)
        else oget (fold (put_path f obj) hs out) p = Some j \<and> \<not> prefix p (splitPath h)"
      using snoc(2) Some by (simp only: put_path_snoc option.case oget_setPath [OF assms(1) splitPath_ne])
    show ?thesis
    proof (cases "prefix (splitPath h) p")
      case True then show ?thesis using s Some assms(2) by (auto split: if_splits)
    next
      case False then show ?thesis using s snoc(1) by auto
    qed
  qed
qed simp

lemma hashed_keeps:
  assumes "\<not> looksLikeObject j" "getPath obj p = Some j" "oget out p = Some j" "\<not> under hs p"
  shows "oget (fold (put_path f obj) hs out) p = Some j"
  using assms(4)
proof (induction hs rule: rev_induct)
  case (snoc h hs)
  have "\<not> prefix p (splitPath h)" if "getPath obj (splitPath h) = Some v" for v
    using getPath_scalar_end [OF assms(2,1) _ that] snoc(2) by auto
  then show ?case using snoc by (auto simp: put_path_snoc oget_setPath [OF assms(1) splitPath_ne] simp del: fold_append split: option.splits)
qed (simp add: assms(3))

lemma hashed_present:
  assumes "\<not> looksLikeObject (f v)" "getPath obj p = Some v"
    "\<forall>h \<in> set hs. splitPath h \<noteq> p \<longrightarrow> \<not> prefix (splitPath h) p \<and> \<not> prefix p (splitPath h)"
  shows "\<exists>h \<in> set hs. splitPath h = p \<Longrightarrow> oget (fold (put_path f obj) hs out) p = Some (f v)"
  using assms(3)
proof (induction hs rule: rev_induct)
  case (snoc h hs)
  show ?case
  proof (cases "splitPath h = p")
    case True then show ?thesis using assms(1,2) splitPath_ne [of h] by (simp add: put_path_snoc oget_setPath del: fold_append)
  next
    case False
    then have "oget (fold (put_path f obj) hs out) p = Some (f v)" using snoc by auto
    then show ?thesis using False snoc(3) assms(1)
      by (auto simp: put_path_snoc oget_setPath [OF assms(1) splitPath_ne] simp del: fold_append split: option.splits)
  qed
qed simp

lemma excluded_exact:
  assumes "\<not> looksLikeObject j"
  shows "(oget (fold (\<lambda>p out. deletePath out (splitPath p)) es out) p = Some j) = (oget out p = Some j \<and> \<not> under es p)"
  by (induction es arbitrary: out) (auto simp: oget_deletePath [OF assms splitPath_ne])

text \<open>The output has no repeated keys, so reading what was printed is reading the tree.\<close>

lemma wf_out_mput: "wf_out (Node m) \<Longrightarrow> wf_out x \<Longrightarrow> wf_out (Node (mput s x m))"
  using set_mput [of s x m] by auto

lemma wf_out_deepConvert: "wf_map obj \<Longrightarrow> wf_out (Node (deepConvert obj))"
proof (induction obj rule: deepConvert.induct)
  case (1 obj)
  have "wf_map (deepConvert obj)" using 1(2) by (subst deepConvert.simps) (simp add: wf_map_def comp_def split_def)
  moreover have "wf_out x" if kx: "(k, x) \<in> set (deepConvert obj)" for k x
  proof -
    obtain v where v: "(k, v) \<in> set obj" "x = (case parseObject (RawJson v) of
        Inr child \<Rightarrow> if looksLikeObject v then Node (deepConvert child) else Leaf v | Inl err \<Rightarrow> Leaf v)"
      using kx by (auto simp: deepConvert.simps [of obj])
    show ?thesis
    proof (cases "looksLikeObject v")
      case True
      then obtain ms where ms: "v = JObj ms" by (cases v) (auto simp: looksLikeObject_def)
      then have "parseObject (RawJson v) = Inr (go_map_of ms)" by (simp add: parseObject_def)
      then show ?thesis using 1(1) [OF v(1) refl _ True] v(2) True by simp
    qed (use v(2) in \<open>auto split: sum.splits\<close>)
  qed
  ultimately show ?case by auto
qed

lemma wf_out_get: "wf_out (Node m) \<Longrightarrow> mget m s = Some x \<Longrightarrow> wf_out x"
  using map_of_SomeD [of m s x] by auto

lemma wf_members: "wf_map (members j)"
  by (cases j) (simp_all add: members_def parseObject_def)

lemma wf_out_kids:
  assumes "wf_out (Node m)"
  shows "wf_out (Node (kids (mget m s)))"
proof (cases "mget m s")
  case (Some x)
  then show ?thesis using wf_out_get [OF assms Some] wf_out_deepConvert [OF wf_members] by (cases x) (simp_all add: kids_def del: wf_out.simps)
qed (simp add: kids_def)

lemma wf_out_setPath: "wf_out (Node m) \<Longrightarrow> wf_out (Node (setPath m q v))"
proof (induction q arbitrary: m)
  case (Cons s q)
  show ?case
  proof (cases "q = []")
    case True then show ?thesis using wf_out_mput [OF Cons.prems, of "Leaf v"] by simp
  next
    case False
    then show ?thesis using wf_out_mput [OF Cons.prems Cons.IH [OF wf_out_kids [OF Cons.prems]]] by (simp add: setPath_Cons)
  qed
qed simp

lemma wf_out_deletePath: "wf_out (Node m) \<Longrightarrow> wf_out (Node (deletePath m q))"
proof (induction q arbitrary: m)
  case (Cons s q)
  show ?case
  proof (cases "q = []")
    case True then show ?thesis using Cons.prems by (auto simp: AList.delete_eq wf_map_def distinct_map_filter)
  next
    case False
    then show ?thesis using Cons.prems wf_out_mput [OF Cons.prems Cons.IH [OF wf_out_kids [OF Cons.prems]]] by (simp add: deletePath_Cons)
  qed
qed simp

lemma mget_marshal:
  assumes "wf_map m"
  shows "mget (members (marshalCanonical m)) s = map_option marshal_value (mget m s)"
proof -
  let ?xs = "map (\<lambda>(k, v). (k, marshal_value v)) m"
  have d: "distinct (map fst ?xs)" using assms by (simp add: wf_map_def comp_def split_def)
  have "distinct (map fst (sort_key fst ?xs))"
    using d by (rule distinct_map_sort_key)
  then have "distinct (map fst (rev (sort_key fst ?xs)))" by (simp add: rev_map [symmetric])
  then have "map_of (rev (sort_key fst ?xs)) = map_of ?xs" using d by (subst map_of_inject_set) auto
  then show ?thesis by (simp add: marshalCanonical_def mget_go_map_of map_of_map)
qed

lemma getPath_marshal: "wf_out (Node m) \<Longrightarrow> getPath (members (marshalCanonical m)) p = oget m p"
proof (induction p arbitrary: m)
  case (Cons s r)
  show ?case
  proof (cases r)
    case Nil then show ?thesis using mget_marshal [of m s] Cons.prems by simp
  next
    case (Cons t r')
    have r: "r \<noteq> []" using Cons by simp
    have g: "mget (members (marshalCanonical m)) s = map_option marshal_value (mget m s)" using mget_marshal [of m s] Cons.prems by simp
    show ?thesis
    proof (cases "mget m s")
      case None then show ?thesis using g Cons by (simp add: getPath_Cons)
    next
      case (Some x)
      show ?thesis
      proof (cases x)
        case (Leaf j) then show ?thesis using Some g r Cons by (simp add: getPath_Cons [of _ s])
      next
        case (Node m')
        have "getPath (members (marshalCanonical m')) r = oget m' r"
          using Cons.IH [of m'] wf_out_get [OF Cons.prems Some] Node by simp
        then show ?thesis using Some Node g r Cons by (simp add: getPath_Cons [of _ s] marshalCanonical_def)
      qed
    qed
  qed
qed simp

lemma wf_out_excludes: "wf_out (Node m) \<Longrightarrow> wf_out (Node (fold (\<lambda>p out. deletePath out (splitPath p)) es m))"
  by (induction es arbitrary: m) (simp_all add: wf_out_deletePath del: wf_out.simps)

lemma redact_out:
  assumes "parseObject raw = Inr obj" "redact lib sha raw spec salt = Inr out" "\<not> looksLikeObject j"
  shows "(getPath (members out) p = Some j) =
    (oget (fold (put_path (hashValue lib sha salt) obj) (an_hash spec)
       (if an_include_all spec then deepConvert obj else fold (put_path (\<lambda>v. v) obj) (an_include spec) [])) p = Some j
     \<and> \<not> under (an_exclude spec) p)"
proof -
  let ?inc = "if an_include_all spec then deepConvert obj else fold (put_path (\<lambda>v. v) obj) (an_include spec) []"
  let ?h = "fold (put_path (hashValue lib sha salt) obj) (an_hash spec) ?inc"
  let ?o = "fold (\<lambda>p out. deletePath out (splitPath p)) (an_exclude spec) ?h"
  have "wf_map obj" using assms(1) by (auto simp: parseObject_def split: rawmsg.splits json.splits)
  then have d: "wf_out (Node (deepConvert obj))" by (rule wf_out_deepConvert)
  have f: "wf_out (Node (fold (put_path f obj) ps m))" if "wf_out (Node m)" for f ps m
    using that by (induction ps arbitrary: m) (auto simp: put_path_def wf_out_setPath simp del: wf_out.simps split: option.splits)
  have "wf_out (Node [])" by simp
  then have "wf_out (Node ?inc)" using d f by (cases "an_include_all spec") (simp_all only: if_True if_False)
  then have "wf_out (Node ?h)" by (rule f)
  then have "wf_out (Node ?o)" by (rule wf_out_excludes)
  then have "getPath (members (marshalCanonical ?o)) p = oget ?o p" by (rule getPath_marshal)
  moreover have "out = marshalCanonical ?o"
    using assms(1,2) by (simp add: redact_def Let_def put_path_def [abs_def] split: if_splits)
  ultimately show ?thesis using excluded_exact [OF assms(3)] by simp
qed

text \<open>
  C9. Nothing leaves a tenant's database but what the entity allows: a value in a redacted
  payload is not at or below an excluded path, and it is either the source's own value at the
  same path, at or below an included path and not at or below a hashed one, or the salted
  hash of the source's value at a path listed for hashing.
\<close>

theorem redaction_sound:
  assumes "redact lib sha raw spec salt = Inr out" "getPath (members out) p = Some j" "\<not> looksLikeObject j"
  shows "\<exists>obj. parseObject raw = Inr obj \<and> \<not> under (an_exclude spec) p
    \<and> (getPath obj p = Some j \<and> (an_include_all spec \<or> under (an_include spec) p) \<and> \<not> under (an_hash spec) p
       \<or> (\<exists>h \<in> set (an_hash spec). splitPath h = p)
         \<and> (\<exists>v. getPath obj p = Some v \<and> j = hashValue lib sha salt v) \<and> salt \<noteq> [])"
proof -
  obtain obj where t: "parseObject raw = Inr obj"
    using assms(1) by (cases "parseObject raw") (auto simp: redact_def split: if_splits)
  let ?inc = "if an_include_all spec then deepConvert obj else fold (put_path (\<lambda>v. v) obj) (an_include spec) []"
  have o: "oget (fold (put_path (hashValue lib sha salt) obj) (an_hash spec) ?inc) p = Some j" "\<not> under (an_exclude spec) p"
    using redact_out [OF t assms(1,3), of p] assms(2) by simp_all
  have i: "getPath obj p = Some j \<and> (an_include_all spec \<or> under (an_include spec) p)" if "oget ?inc p = Some j"
    using that by (simp add: included_exact [OF assms(3)] oget_deepConvert [OF assms(3)] split: if_splits)
  have s: "salt \<noteq> []" if "h \<in> set (an_hash spec)" for h
    using assms(1) that by (auto simp: redact_def split: if_splits)
  from hashed_sound [OF assms(3) _ o(1)] consider
      "oget ?inc p = Some j" "\<forall>h \<in> set (an_hash spec). prefix (splitPath h) p \<longrightarrow> getPath obj (splitPath h) = None"
    | "\<exists>h \<in> set (an_hash spec). splitPath h = p" "\<exists>v. getPath obj p = Some v \<and> j = hashValue lib sha salt v"
    by (auto simp: hashValue_def looksLikeObject_def)
  then show ?thesis
  proof cases
    case 1
    have "\<not> under (an_hash spec) p"
    proof
      assume "under (an_hash spec) p"
      then obtain h where h: "h \<in> set (an_hash spec)" "prefix (splitPath h) p" by (auto simp: under_def)
      obtain v where "getPath obj (splitPath h) = Some v" by (rule getPath_below [OF splitPath_ne h(2) i [OF 1(1), THEN conjunct1]])
      then show False using 1(2) h by simp
    qed
    then show ?thesis using t o(2) i [OF 1(1)] by blast
  next
    case 2 then show ?thesis using t o(2) s by blast
  qed
qed

text \<open>
  C10. Redaction loses nothing it should publish: a value of the source that is not an object,
  at or below an included path and neither hashed nor excluded, is in the output at its
  path, and a path listed for hashing that no other hashed path contains or extends holds
  the hash of the source's value there.
\<close>

theorem redaction_complete:
  assumes "parseObject raw = Inr obj" "redact lib sha raw spec salt = Inr out" "getPath obj p = Some v"
    "\<not> under (an_exclude spec) p"
  shows "(\<not> looksLikeObject v \<and> (an_include_all spec \<or> under (an_include spec) p) \<and> \<not> under (an_hash spec) p
      \<longrightarrow> getPath (members out) p = Some v)
    \<and> ((\<exists>h \<in> set (an_hash spec). splitPath h = p)
         \<and> (\<forall>h \<in> set (an_hash spec). splitPath h \<noteq> p \<longrightarrow> \<not> prefix (splitPath h) p \<and> \<not> prefix p (splitPath h))
      \<longrightarrow> getPath (members out) p = Some (hashValue lib sha salt v))"
proof (intro conjI impI; elim conjE)
  let ?inc = "if an_include_all spec then deepConvert obj else fold (put_path (\<lambda>v. v) obj) (an_include spec) []"
  assume v: "\<not> looksLikeObject v" "an_include_all spec \<or> under (an_include spec) p" "\<not> under (an_hash spec) p"
  have "oget ?inc p = Some v"
    using v assms(3) by (auto simp: included_exact [OF v(1)] oget_deepConvert [OF v(1)])
  then show "getPath (members out) p = Some v"
    using redact_out [OF assms(1,2) v(1)] hashed_keeps [OF v(1) assms(3) _ v(3)] assms(4) by simp
next
  assume h: "\<exists>h \<in> set (an_hash spec). splitPath h = p"
    "\<forall>h \<in> set (an_hash spec). splitPath h \<noteq> p \<longrightarrow> \<not> prefix (splitPath h) p \<and> \<not> prefix p (splitPath h)"
  have n: "\<not> looksLikeObject (hashValue lib sha salt v)" by (simp add: hashValue_def looksLikeObject_def)
  show "getPath (members out) p = Some (hashValue lib sha salt v)"
    using redact_out [OF assms(1,2) n] hashed_present [where f = "hashValue lib sha salt", OF n assms(3) h(2) h(1)] assms(4) by simp
qed

text \<open>
  C13. Re-applying an unchanged allow-list without hashed paths to an already redacted payload
  succeeds and changes no value.
\<close>

theorem reprojection_idempotent:
  assumes "redact lib sha raw spec salt = Inr out" "an_hash spec = []"
  shows "\<exists>out'. redact lib sha (RawJson out) spec salt = Inr out'
    \<and> (\<forall>p j. \<not> looksLikeObject j \<longrightarrow> (getPath (members out') p = Some j) = (getPath (members out) p = Some j))"
proof -
  obtain obj where t: "parseObject raw = Inr obj"
    using assms by (cases "parseObject raw") (auto simp: redact_def)
  obtain ms where o: "out = JObj ms" using assms t by (auto simp: redact_def Let_def marshalCanonical_def)
  then have t': "parseObject (RawJson out) = Inr (members out)" by (simp add: parseObject_def)
  then obtain out' where r: "redact lib sha (RawJson out) spec salt = Inr out'" using assms(2) by (simp add: redact_def Let_def)
  have "(getPath (members out') p = Some j) = (getPath (members out) p = Some j)" if "\<not> looksLikeObject j" for p j
    using redact_out [OF t' r that, of p] redact_out [OF t assms(1) that, of p] assms(2)
    by (auto simp: included_exact [OF that] oget_deepConvert [OF that] split: if_splits)
  then show ?thesis using r by blast
qed

section \<open>A payload\<close>

definition text_lib :: golib where
  "text_lib = \<lparr>time_parse = (\<lambda>s. None), time_format = (\<lambda>t l. []), float_to_int64 = (\<lambda>f. 0), to_lower = id,
     json_text = (\<lambda>j. case j of JStr s \<Rightarrow> s | _ \<Rightarrow> [])\<rparr>"

definition demo_payload :: rawmsg where
  "demo_payload = RawJson (JObj [(''a'', JObj [(''b'', JStr ''x''), (''c'', JInt 1)]), (''d'', JInt 2)])"

definition demo_redaction :: AnalyticsSpec where
  "demo_redaction = \<lparr>an_include = [''a'', ''d''], an_include_all = False, an_exclude = [''d''], an_hash = [''a.b'']\<rparr>"

lemma demo_redacted:
  "redact text_lib (\<lambda>s. ''#'' @ s) demo_payload demo_redaction ''k'' =
     Inr (JObj [(''a'', JObj [(''b'', hashValue text_lib (\<lambda>s. ''#'' @ s) ''k'' (JStr ''x'')), (''c'', JInt 1)])])"
  by (simp add: redact_def demo_payload_def demo_redaction_def parseObject_def go_map_of_def splitPath_def deepConvert.simps
      getPath_Cons looksLikeObject_def marshalCanonical_def Let_def)

theorem redaction_sound_witness:
  "\<exists>obj. parseObject demo_payload = Inr obj \<and> getPath obj [''a'', ''c''] = Some (JInt 1)
    \<and> under (an_include demo_redaction) [''a'', ''c''] \<and> \<not> under (an_hash demo_redaction) [''a'', ''c'']"
proof -
  have "getPath (members (JObj [(''a'', JObj [(''b'', hashValue text_lib (\<lambda>s. ''#'' @ s) ''k'' (JStr ''x'')), (''c'', JInt 1)])]))
      [''a'', ''c''] = Some (JInt 1)"
    by (simp add: getPath_Cons go_map_of_def)
  from redaction_sound [OF demo_redacted this] show ?thesis
    by (auto simp: looksLikeObject_def hashValue_def demo_redaction_def)
qed

theorem redaction_complete_witness:
  "getPath (members (JObj [(''a'', JObj [(''b'', hashValue text_lib (\<lambda>s. ''#'' @ s) ''k'' (JStr ''x'')), (''c'', JInt 1)])]))
     [''a'', ''b''] = Some (hashValue text_lib (\<lambda>s. ''#'' @ s) ''k'' (JStr ''x''))"
proof -
  obtain obj where o: "parseObject demo_payload = Inr obj" "getPath obj [''a'', ''b''] = Some (JStr ''x'')"
    by (simp add: demo_payload_def parseObject_def go_map_of_def getPath_Cons)
  have "\<not> under (an_exclude demo_redaction) [''a'', ''b'']" by (simp add: demo_redaction_def under_def splitPath_def)
  from redaction_complete [OF o(1) demo_redacted o(2) this] show ?thesis
    by (simp add: demo_redaction_def splitPath_def)
qed

theorem reprojection_idempotent_witness:
  "\<exists>out out'. redact text_lib id demo_payload (demo_redaction\<lparr>an_hash := []\<rparr>) [] = Inr out
    \<and> redact text_lib id (RawJson out) (demo_redaction\<lparr>an_hash := []\<rparr>) [] = Inr out'
    \<and> (getPath (members out') [''a'', ''b''] = Some (JStr ''x'')) = (getPath (members out) [''a'', ''b''] = Some (JStr ''x''))"
proof -
  obtain out where o: "redact text_lib id demo_payload (demo_redaction\<lparr>an_hash := []\<rparr>) [] = Inr out"
    by (simp add: redact_def demo_payload_def parseObject_def Let_def)
  have "an_hash (demo_redaction\<lparr>an_hash := []\<rparr>) = []" by simp
  from reprojection_idempotent [OF o this] obtain out' where r:
    "redact text_lib id (RawJson out) (demo_redaction\<lparr>an_hash := []\<rparr>) [] = Inr out'"
    "\<forall>p j. \<not> looksLikeObject j \<longrightarrow> (getPath (members out') p = Some j) = (getPath (members out) p = Some j)"
    by (elim exE conjE)
  have "\<not> looksLikeObject (JStr ''x'')" by (simp add: looksLikeObject_def)
  with r(2) have "(getPath (members out') [''a'', ''b''] = Some (JStr ''x'')) = (getPath (members out) [''a'', ''b''] = Some (JStr ''x''))"
    by (elim allE impE)
  with o r(1) show ?thesis by (intro exI conjI)
qed

end
