(* ===== verification/Analytics.thy ===== *)
theory Analytics
  imports Redact FakeSink
begin

text \<open>
  The analytics feed shared by all tenants: the applier that turns an event into a redacted
  fact and history record (\<^verbatim>\<open>core/analytics/applier.go\<close>), the consumer that writes them
  (\<^verbatim>\<open>core/analytics/consumer.go\<close>) and the in-memory sink (\<^verbatim>\<open>core/fabriqtest/analytics_fake.go\<close>).
  The sink is a port; spans and the metric hooks of the consumer are left out.
\<close>

section \<open>Records and applier\<close>

record Fact =
  fa_tenant :: string
  fa_aggregate :: string
  fa_aggid :: string
  fa_version :: int
  fa_payload :: json
  fa_at :: "int \<times> nat"
  fa_deleted :: bool

record AnEvent =
  ae_tenant :: string
  ae_aggregate :: string
  ae_aggid :: string
  ae_version :: int
  ae_type :: string
  ae_payload :: json
  ae_at :: "int \<times> nat"

record Watermark =
  wm_tenant :: string
  wm_aggregate :: string
  wm_aggid :: string
  wm_version :: int

record Applier =
  ap_reg :: Registry
  ap_salt :: string

text \<open>\<open>None\<close>: the aggregate is not marked for analytics.\<close>

definition analytics_Apply ::
  "golib \<Rightarrow> (string \<Rightarrow> string) \<Rightarrow> Applier \<Rightarrow> Envelope \<Rightarrow> gerr + (Fact \<times> AnEvent) option" where
  "analytics_Apply lib sha a env =
     (case Get (ap_reg a) (ev_aggregate env) of
        None \<Rightarrow> Inr None
      | Some ent \<Rightarrow>
          (case es_analytics (e_spec ent) of
             None \<Rightarrow> Inr None
           | Some spec \<Rightarrow>
               let deleted = suffix ''.deleted'' (ev_type env)
               in case (if deleted then Inr (JObj [])
                        else case redact lib sha (ev_payload env) spec (ap_salt a) of
                               Inl err \<Rightarrow> Inl (WrapErr ''analytics redact'' err)
                             | Inr red \<Rightarrow> Inr red) of
                    Inl err \<Rightarrow> Inl err
                  | Inr payload \<Rightarrow>
                      Inr (Some
                        (\<lparr>fa_tenant = ev_tenant env, fa_aggregate = ev_aggregate env, fa_aggid = ev_aggid env,
                          fa_version = ev_version env, fa_payload = payload, fa_at = ev_at env, fa_deleted = deleted\<rparr>,
                         \<lparr>ae_tenant = ev_tenant env, ae_aggregate = ev_aggregate env, ae_aggid = ev_aggid env,
                          ae_version = ev_version env, ae_type = ev_type env, ae_payload = payload, ae_at = ev_at env\<rparr>))))"

section \<open>Consumer\<close>

record 's Sink =
  sk_UpsertFacts :: "gctx \<Rightarrow> Fact list \<Rightarrow> 's \<Rightarrow> gerr option \<times> 's"
  sk_AppendEvents :: "gctx \<Rightarrow> AnEvent list \<Rightarrow> 's \<Rightarrow> gerr option \<times> 's"
  sk_SetWatermark :: "gctx \<Rightarrow> Watermark list \<Rightarrow> 's \<Rightarrow> gerr option \<times> 's"

record 's Consumer =
  co_applier :: Applier
  co_sink :: "'s Sink"
  co_upcasters :: "UpcasterChain option"
  co_observed :: bool

definition consumer_write :: "'s Sink \<Rightarrow> gctx \<Rightarrow> Envelope \<Rightarrow> Fact \<Rightarrow> AnEvent \<Rightarrow> 's \<Rightarrow> gerr option \<times> 's" where
  "consumer_write sink ctx env fct ev s =
     (case sk_UpsertFacts sink ctx [fct] s of
        (Some err, s1) \<Rightarrow> (Some err, s1)
      | (None, s1) \<Rightarrow>
          (case sk_AppendEvents sink ctx [ev] s1 of
             (Some err, s2) \<Rightarrow> (Some err, s2)
           | (None, s2) \<Rightarrow>
               sk_SetWatermark sink ctx
                 [\<lparr>wm_tenant = ev_tenant env, wm_aggregate = ev_aggregate env, wm_aggid = ev_aggid env,
                   wm_version = ev_version env\<rparr>] s2))"

text \<open>One delivery; an error leaves the entry pending, and \<open>None\<close> is an upcaster chain that never ends.\<close>

definition consumer_handle ::
  "golib \<Rightarrow> (string \<Rightarrow> string) \<Rightarrow> 's Consumer \<Rightarrow> gctx \<Rightarrow> 's \<Rightarrow> Envelope
     \<Rightarrow> (gerr option \<times> 's \<times> (string \<times> metric_result) list) option" where
  "consumer_handle lib sha c ctx s env0 =
     (case (case co_upcasters c of None \<Rightarrow> Some (Inr env0) | Some ch \<Rightarrow> ApplyUpcasters ch env0) of
        None \<Rightarrow> None
      | Some (Inl err) \<Rightarrow> Some (None, s, [])
      | Some (Inr env) \<Rightarrow>
          (case analytics_Apply lib sha (co_applier c) env of
             Inl err \<Rightarrow> Some (None, s, [])
           | Inr None \<Rightarrow> Some (None, s, [])
           | Inr (Some (fct, ev)) \<Rightarrow>
               (case WithTenant ctx (ev_tenant env) of
                  Inl err \<Rightarrow> Some (None, s, [])
                | Inr tctx \<Rightarrow>
                    (case consumer_write (co_sink c) tctx env fct ev s of
                       (err, s') \<Rightarrow>
                         Some (err, s',
                           if co_observed c then [(''analytics'', if err = None then ResultOK else ResultError)] else [])))))"

section \<open>The in-memory sink\<close>

record FakeAnalyticsSink =
  an_facts :: "Fact gomap"
  an_evs :: "AnEvent gomap"
  an_wm :: "int gomap"

definition NewFakeAnalyticsSink :: FakeAnalyticsSink where
  "NewFakeAnalyticsSink = \<lparr>an_facts = [], an_evs = [], an_wm = []\<rparr>"

definition factKey :: "string \<Rightarrow> string \<Rightarrow> string \<Rightarrow> string" where
  "factKey tenant agg i = tenant @ ''|'' @ agg @ ''|'' @ i"

definition eventKey :: "string \<Rightarrow> string \<Rightarrow> string \<Rightarrow> int \<Rightarrow> string" where
  "eventKey tenant agg i v = tenant @ ''|'' @ agg @ ''|'' @ i @ ''|'' @ int_str v"

definition UpsertFacts :: "gctx \<Rightarrow> Fact list \<Rightarrow> FakeAnalyticsSink \<Rightarrow> gerr option \<times> FakeAnalyticsSink" where
  "UpsertFacts ctx facts s =
     (None, s\<lparr>an_facts :=
        fold (\<lambda>f m. let k = factKey (fa_tenant f) (fa_aggregate f) (fa_aggid f)
                    in case mget m k of
                         Some cur \<Rightarrow> if fa_version cur \<ge> fa_version f then m else mput k f m
                       | None \<Rightarrow> mput k f m) facts (an_facts s)\<rparr>)"

definition AppendEvents :: "gctx \<Rightarrow> AnEvent list \<Rightarrow> FakeAnalyticsSink \<Rightarrow> gerr option \<times> FakeAnalyticsSink" where
  "AppendEvents ctx events s =
     (None, s\<lparr>an_evs :=
        fold (\<lambda>e m. let k = eventKey (ae_tenant e) (ae_aggregate e) (ae_aggid e) (ae_version e)
                    in if mget m k \<noteq> None then m else mput k e m) events (an_evs s)\<rparr>)"

definition SetWatermark :: "gctx \<Rightarrow> Watermark list \<Rightarrow> FakeAnalyticsSink \<Rightarrow> gerr option \<times> FakeAnalyticsSink" where
  "SetWatermark ctx ws s =
     (None, s\<lparr>an_wm :=
        fold (\<lambda>w m. let k = factKey (wm_tenant w) (wm_aggregate w) (wm_aggid w)
                    in if wm_version w > mget_or 0 m k then mput k (wm_version w) m else m) ws (an_wm s)\<rparr>)"

definition fake_sink :: "FakeAnalyticsSink Sink" where
  "fake_sink = \<lparr>sk_UpsertFacts = UpsertFacts, sk_AppendEvents = AppendEvents, sk_SetWatermark = SetWatermark\<rparr>"

text \<open>Facts, history and watermarks are gated as the projection sinks are; the history keeps its first record.\<close>

abbreviation put_fact :: "Fact \<Rightarrow> FakeAnalyticsSink \<Rightarrow> FakeAnalyticsSink" where
  "put_fact f s \<equiv> snd (UpsertFacts background [f] s)"

abbreviation put_event :: "AnEvent \<Rightarrow> FakeAnalyticsSink \<Rightarrow> FakeAnalyticsSink" where
  "put_event e s \<equiv> snd (AppendEvents background [e] s)"

abbreviation put_wm :: "Watermark \<Rightarrow> FakeAnalyticsSink \<Rightarrow> FakeAnalyticsSink" where
  "put_wm w s \<equiv> snd (SetWatermark background [w] s)"

definition fact_look :: "FakeAnalyticsSink \<Rightarrow> string \<Rightarrow> (int \<times> Fact) option" where
  "fact_look s k = map_option (\<lambda>f. (fa_version f, f)) (mget (an_facts s) k)"

definition event_look :: "FakeAnalyticsSink \<Rightarrow> string \<Rightarrow> (int \<times> AnEvent) option" where
  "event_look s k = map_option (Pair 0) (mget (an_evs s) k)"

interpretation facts: version_gated put_fact fact_look
  "\<lambda>f. factKey (fa_tenant f) (fa_aggregate f) (fa_aggid f)" fa_version id
  by unfold_locales (auto simp: UpsertFacts_def fact_look_def Let_def gate_def split: option.splits)

interpretation history: version_gated put_event event_look
  "\<lambda>e. eventKey (ae_tenant e) (ae_aggregate e) (ae_aggid e) (ae_version e)" "\<lambda>e. 0" id
  by unfold_locales (auto simp: AppendEvents_def event_look_def Let_def gate_def split: option.splits)

interpretation marks: version_gated put_wm "\<lambda>s k. Some (mget_or 0 (an_wm s) k, ())"
  "\<lambda>w. factKey (wm_tenant w) (wm_aggregate w) (wm_aggid w)" wm_version "\<lambda>w. ()"
  by unfold_locales (auto simp: SetWatermark_def Let_def gate_def)

section \<open>Deliveries\<close>

definition analytics_consumer :: "Applier \<Rightarrow> FakeAnalyticsSink Consumer" where
  "analytics_consumer a = \<lparr>co_applier = a, co_sink = fake_sink, co_upcasters = None, co_observed = False\<rparr>"

fun consume :: "golib \<Rightarrow> (string \<Rightarrow> string) \<Rightarrow> 's Consumer \<Rightarrow> gctx \<Rightarrow> 's \<Rightarrow> Envelope list \<Rightarrow> 's option" where
  "consume lib sha c ctx s [] = Some s"
| "consume lib sha c ctx s (env # envs) =
     (case consumer_handle lib sha c ctx s env of Some (None, s', obs) \<Rightarrow> consume lib sha c ctx s' envs | _ \<Rightarrow> None)"

text \<open>The records an envelope owes the sink.\<close>

definition written :: "golib \<Rightarrow> (string \<Rightarrow> string) \<Rightarrow> Applier \<Rightarrow> Envelope \<Rightarrow> (Fact \<times> AnEvent) list" where
  "written lib sha a env =
     (if Valid (ev_tenant env)
      then (case analytics_Apply lib sha a env of Inr (Some fe) \<Rightarrow> [fe] | _ \<Rightarrow> [])
      else [])"

definition mark_of :: "Fact \<Rightarrow> Watermark" where
  "mark_of f = \<lparr>wm_tenant = fa_tenant f, wm_aggregate = fa_aggregate f, wm_aggid = fa_aggid f, wm_version = fa_version f\<rparr>"

definition write_rec :: "Fact \<times> AnEvent \<Rightarrow> FakeAnalyticsSink \<Rightarrow> FakeAnalyticsSink" where
  "write_rec fe s = put_wm (mark_of (fst fe)) (put_event (snd fe) (put_fact (fst fe) s))"

lemma Apply_shape:
  assumes "analytics_Apply lib sha a env = Inr (Some (f, e))"
  obtains ent spec where "Get (ap_reg a) (ev_aggregate env) = Some ent" "es_analytics (e_spec ent) = Some spec"
    "fa_tenant f = ev_tenant env" "fa_aggregate f = ev_aggregate env" "fa_aggid f = ev_aggid env" "fa_version f = ev_version env"
    "ae_tenant e = ev_tenant env" "ae_aggregate e = ev_aggregate env" "ae_aggid e = ev_aggid env" "ae_version e = ev_version env"
    "ae_payload e = fa_payload f"
    "if suffix ''.deleted'' (ev_type env) then fa_payload f = JObj []
     else redact lib sha (ev_payload env) spec (ap_salt a) = Inr (fa_payload f)"
proof (cases "Get (ap_reg a) (ev_aggregate env)")
  case None then show ?thesis using assms by (simp add: analytics_Apply_def)
next
  case (Some ent)
  show ?thesis
  proof (cases "es_analytics (e_spec ent)")
    case None then show ?thesis using assms Some by (simp add: analytics_Apply_def)
  next
    case (Some spec)
    show ?thesis
      by (rule that [OF \<open>Get (ap_reg a) (ev_aggregate env) = Some ent\<close> Some])
        (use assms \<open>Get (ap_reg a) (ev_aggregate env) = Some ent\<close> Some in
          \<open>auto simp: analytics_Apply_def Let_def split: if_splits sum.splits\<close>)
  qed
qed

lemma any_ctx:
  "UpsertFacts ctx fs s = (None, snd (UpsertFacts background fs s))"
  "AppendEvents ctx es s = (None, snd (AppendEvents background es s))"
  "SetWatermark ctx ws s = (None, snd (SetWatermark background ws s))"
  by (simp_all add: UpsertFacts_def AppendEvents_def SetWatermark_def)

lemma handle_fake:
  "consumer_handle lib sha (analytics_consumer a) ctx s env = Some (None, fold write_rec (written lib sha a env) s, [])"
proof (cases "analytics_Apply lib sha a env")
  case (Inr r)
  show ?thesis
  proof (cases r)
    case (Some fe)
    obtain f e where fe: "fe = (f, e)" by fastforce
    have m: "mark_of f = \<lparr>wm_tenant = ev_tenant env, wm_aggregate = ev_aggregate env, wm_aggid = ev_aggid env, wm_version = ev_version env\<rparr>"
      using Inr Some fe by (auto simp: mark_of_def elim: Apply_shape)
    show ?thesis using Inr Some fe m any_ctx [of "ctx\<lparr>cv_tenant := Some (ev_tenant env)\<rparr>"]
      by (simp add: consumer_handle_def analytics_consumer_def written_def WithTenant_def consumer_write_def fake_sink_def write_rec_def)
  qed (use Inr in \<open>simp add: consumer_handle_def analytics_consumer_def written_def\<close>)
qed (simp add: consumer_handle_def analytics_consumer_def written_def)

lemma consume_fake:
  "consume lib sha (analytics_consumer a) ctx s envs = Some (fold write_rec (concat (map (written lib sha a) envs)) s)"
  by (induction envs arbitrary: s) (simp_all add: handle_fake)

text \<open>The three stores are written independently of each other.\<close>

lemma write_rec_stores:
  "an_facts (write_rec fe s) = an_facts (put_fact (fst fe) s)"
  "an_evs (write_rec fe s) = an_evs (put_event (snd fe) s)"
  "an_wm (write_rec fe s) = an_wm (put_wm (mark_of (fst fe)) s)"
  by (simp_all add: write_rec_def UpsertFacts_def AppendEvents_def SetWatermark_def)

lemma put_cong:
  "an_facts s = an_facts s' \<Longrightarrow> an_facts (put_fact f s) = an_facts (put_fact f s')"
  "an_evs s = an_evs s' \<Longrightarrow> an_evs (put_event e s) = an_evs (put_event e s')"
  "an_wm s = an_wm s' \<Longrightarrow> an_wm (put_wm w s) = an_wm (put_wm w s')"
  by (simp_all add: UpsertFacts_def AppendEvents_def SetWatermark_def)

lemma write_stores:
  "an_facts s = an_facts s' \<Longrightarrow> an_facts (fold write_rec ws s) = an_facts (fold put_fact (map fst ws) s')"
  "an_evs s = an_evs s' \<Longrightarrow> an_evs (fold write_rec ws s) = an_evs (fold put_event (map snd ws) s')"
  "an_wm s = an_wm s' \<Longrightarrow> an_wm (fold write_rec ws s) = an_wm (fold put_wm (map (mark_of \<circ> fst) ws) s')"
proof (induction ws arbitrary: s s')
  case (Cons fe ws)
  {
    case 1
    have "an_facts (write_rec fe s) = an_facts (put_fact (fst fe) s')" using put_cong(1) [OF 1] by (simp only: write_rec_stores)
    from Cons(1) [OF this] show ?case by simp
  next
    case 2
    have "an_evs (write_rec fe s) = an_evs (put_event (snd fe) s')" using put_cong(2) [OF 2] by (simp only: write_rec_stores)
    from Cons(2) [OF this] show ?case by simp
  next
    case 3
    have "an_wm (write_rec fe s) = an_wm (put_wm (mark_of (fst fe)) s')" using put_cong(3) [OF 3] by (simp only: write_rec_stores)
    from Cons(3) [OF this] show ?case by simp
  }
qed simp_all

lemma written_Apply:
  "(f, e) \<in> set (concat (map (written lib sha a) envs)) \<Longrightarrow>
     \<exists>env \<in> set envs. Valid (ev_tenant env) \<and> analytics_Apply lib sha a env = Inr (Some (f, e))"
  by (auto simp: written_def split: if_splits sum.splits option.splits)

lemma written_keys:
  assumes "(f, e) \<in> set (concat (map (written lib sha a) envs))"
  shows "ae_tenant e = fa_tenant f \<and> ae_aggregate e = fa_aggregate f \<and> ae_aggid e = fa_aggid f \<and> ae_version e = fa_version f"
  using written_Apply [OF assms] by (auto elim: Apply_shape)

lemma eventKey_factKey: "eventKey t g i v = factKey t g i @ ''|'' @ int_str v"
  by (simp add: eventKey_def factKey_def)

lemma look_inj:
  "fact_look s k = fact_look s' k \<Longrightarrow> mget (an_facts s) k = mget (an_facts s') k"
  "event_look s k = event_look s' k \<Longrightarrow> mget (an_evs s) k = mget (an_evs s') k"
  by (auto simp: fact_look_def event_look_def map_option_case split: option.splits)

lemma marks_value:
  "let n = mget_or 0 (an_wm (fold put_wm ws NewFakeAnalyticsSink)) k in
     (n = 0 \<or> (\<exists>w \<in> set ws. factKey (wm_tenant w) (wm_aggregate w) (wm_aggid w) = k \<and> wm_version w = n)) \<and> 0 \<le> n
     \<and> (\<forall>w \<in> set ws. factKey (wm_tenant w) (wm_aggregate w) (wm_aggid w) = k \<longrightarrow> wm_version w \<le> n)"
proof (induction ws rule: rev_induct)
  case Nil then show ?case by (simp add: NewFakeAnalyticsSink_def mget_or_def)
next
  case (snoc w ws)
  have "mget_or 0 (an_wm (put_wm w s)) k =
      (if factKey (wm_tenant w) (wm_aggregate w) (wm_aggid w) = k \<and> wm_version w > mget_or 0 (an_wm s) k then wm_version w
       else mget_or 0 (an_wm s) k)" for s
    by (auto simp: SetWatermark_def Let_def)
  then show ?case using snoc by (auto simp: Let_def split: if_splits)
qed

lemma marks_converge:
  assumes "set ws = set ws'"
  shows "mget_or 0 (an_wm (fold put_wm ws NewFakeAnalyticsSink)) k = mget_or 0 (an_wm (fold put_wm ws' NewFakeAnalyticsSink)) k"
  using marks_value [of ws k, unfolded Let_def] marks_value [of ws' k, unfolded Let_def] assms by (metis order_antisym)

lemma facts_converge:
  assumes "set envs = set envs'"
    and "\<forall>(f, e) \<in> set (concat (map (written lib sha a) envs)). \<forall>(f', e') \<in> set (concat (map (written lib sha a) envs)).
      eventKey (ae_tenant e) (ae_aggregate e) (ae_aggid e) (ae_version e)
        = eventKey (ae_tenant e') (ae_aggregate e') (ae_aggid e') (ae_version e') \<longrightarrow> f = f' \<and> e = e'"
  shows "fact_look (fold put_fact (map fst (concat (map (written lib sha a) envs))) NewFakeAnalyticsSink) k
    = fact_look (fold put_fact (map fst (concat (map (written lib sha a) envs'))) NewFakeAnalyticsSink) k"
  (is "fact_look (fold put_fact (map fst ?W) ?n) k = fact_look (fold put_fact (map fst ?V) ?n) k")
proof (rule facts.converges)
  show "fact_look ?n k = None" by (simp add: fact_look_def NewFakeAnalyticsSink_def)
  show "set (map fst ?W) = set (map fst ?V)" using assms(1) by simp
  show "\<forall>m \<in> set (map fst ?W). \<forall>m' \<in> set (map fst ?W).
      factKey (fa_tenant m) (fa_aggregate m) (fa_aggid m) = factKey (fa_tenant m') (fa_aggregate m') (fa_aggid m')
      \<and> fa_version m = fa_version m' \<longrightarrow> id m = id m'"
  proof (intro ballI impI)
    fix m m'
    assume m: "m \<in> set (map fst ?W)" "m' \<in> set (map fst ?W)" "factKey (fa_tenant m) (fa_aggregate m) (fa_aggid m)
        = factKey (fa_tenant m') (fa_aggregate m') (fa_aggid m') \<and> fa_version m = fa_version m'"
    obtain e where e: "(m, e) \<in> set ?W" using m(1) unfolding set_map by (metis imageE prod.collapse)
    obtain e' where e': "(m', e') \<in> set ?W" using m(2) unfolding set_map by (metis imageE prod.collapse)
    have "eventKey (ae_tenant e) (ae_aggregate e) (ae_aggid e) (ae_version e)
        = eventKey (ae_tenant e') (ae_aggregate e') (ae_aggid e') (ae_version e')"
      using m(3) written_keys [OF e] written_keys [OF e'] by (simp add: eventKey_factKey)
    then show "id m = id m'" using bspec [OF bspec [OF assms(2) e, unfolded prod.case] e', unfolded prod.case] by simp
  qed
qed

lemma history_converge:
  assumes "set envs = set envs'"
    and "\<forall>(f, e) \<in> set (concat (map (written lib sha a) envs)). \<forall>(f', e') \<in> set (concat (map (written lib sha a) envs)).
      eventKey (ae_tenant e) (ae_aggregate e) (ae_aggid e) (ae_version e)
        = eventKey (ae_tenant e') (ae_aggregate e') (ae_aggid e') (ae_version e') \<longrightarrow> f = f' \<and> e = e'"
  shows "event_look (fold put_event (map snd (concat (map (written lib sha a) envs))) NewFakeAnalyticsSink) k
    = event_look (fold put_event (map snd (concat (map (written lib sha a) envs'))) NewFakeAnalyticsSink) k"
  (is "event_look (fold put_event (map snd ?W) ?n) k = event_look (fold put_event (map snd ?V) ?n) k")
proof (rule history.converges)
  show "event_look ?n k = None" by (simp add: event_look_def NewFakeAnalyticsSink_def)
  show "set (map snd ?W) = set (map snd ?V)" using assms(1) by simp
  show "\<forall>m \<in> set (map snd ?W). \<forall>m' \<in> set (map snd ?W).
      eventKey (ae_tenant m) (ae_aggregate m) (ae_aggid m) (ae_version m)
        = eventKey (ae_tenant m') (ae_aggregate m') (ae_aggid m') (ae_version m') \<and> (0 :: int) = 0 \<longrightarrow> id m = id m'"
  proof (intro ballI impI)
    fix m m'
    assume m: "m \<in> set (map snd ?W)" "m' \<in> set (map snd ?W)"
      "eventKey (ae_tenant m) (ae_aggregate m) (ae_aggid m) (ae_version m)
        = eventKey (ae_tenant m') (ae_aggregate m') (ae_aggid m') (ae_version m') \<and> (0 :: int) = 0"
    obtain f where f: "(f, m) \<in> set ?W" using m(1) unfolding set_map by (metis imageE prod.collapse)
    obtain f' where f': "(f', m') \<in> set ?W" using m(2) unfolding set_map by (metis imageE prod.collapse)
    show "id m = id m'" using bspec [OF bspec [OF assms(2) f, unfolded prod.case] f', unfolded prod.case] m(3) by simp
  qed
qed


definition publishes :: "golib \<Rightarrow> (string \<Rightarrow> string) \<Rightarrow> Applier \<Rightarrow> Envelope \<Rightarrow> json \<Rightarrow> bool" where
  "publishes lib sha a env payload =
     (Valid (ev_tenant env) \<and> (\<exists>ent spec. Get (ap_reg a) (ev_aggregate env) = Some ent \<and> es_analytics (e_spec ent) = Some spec
        \<and> (if suffix ''.deleted'' (ev_type env) then payload = JObj []
           else redact lib sha (ev_payload env) spec (ap_salt a) = Inr payload)))"

lemma Apply_publishes:
  assumes "analytics_Apply lib sha a env = Inr (Some (f, e))" "Valid (ev_tenant env)"
  shows "publishes lib sha a env (fa_payload f)" "ae_payload e = fa_payload f"
    "fa_tenant f = ev_tenant env" "fa_aggregate f = ev_aggregate env" "ae_tenant e = ev_tenant env" "ae_aggregate e = ev_aggregate env"
  by (rule Apply_shape [OF assms(1)], use assms(2) in \<open>auto simp: publishes_def\<close>)+

text \<open>
  C11. The shared store holds redacted data of marked entities only: every fact and every
  history record in it, after any deliveries, belongs to the tenant and entity of a delivered
  event, the tenant is valid, the entity is marked for analytics, and its payload is what
  redaction under the entity's specification leaves of the event's payload, or empty for a
  deletion.
\<close>

theorem analytics_confined:
  assumes "consume lib sha (analytics_consumer a) ctx NewFakeAnalyticsSink envs = Some s"
  shows "(\<forall>k f. mget (an_facts s) k = Some f \<longrightarrow>
      (\<exists>env \<in> set envs. publishes lib sha a env (fa_payload f) \<and> fa_tenant f = ev_tenant env \<and> fa_aggregate f = ev_aggregate env))
    \<and> (\<forall>k e. mget (an_evs s) k = Some e \<longrightarrow>
      (\<exists>env \<in> set envs. publishes lib sha a env (ae_payload e) \<and> ae_tenant e = ev_tenant env \<and> ae_aggregate e = ev_aggregate env))"
proof (intro conjI allI impI)
  let ?w = "concat (map (written lib sha a) envs)" and ?n = NewFakeAnalyticsSink
  have s: "s = fold write_rec ?w ?n" using assms by (simp only: consume_fake option.inject)
  {
    fix k f
    assume "mget (an_facts s) k = Some f"
    then have "fact_look (fold put_fact (map fst ?w) ?n) k = Some (fa_version f, f)"
      unfolding s fact_look_def write_stores(1) [OF refl] by simp
    moreover have "fact_look ?n k = None" by (simp add: fact_look_def NewFakeAnalyticsSink_def)
    ultimately have "f \<in> set (map fst ?w)" using facts.look_fold(2) [of ?n k "map fst ?w" "fa_version f" f] by auto
    then obtain e where "(f, e) \<in> set ?w" unfolding set_map by (metis imageE prod.collapse)
    then have "\<exists>env \<in> set envs. Valid (ev_tenant env) \<and> analytics_Apply lib sha a env = Inr (Some (f, e))" by (rule written_Apply)
    then obtain env where env: "env \<in> set envs" "Valid (ev_tenant env)" "analytics_Apply lib sha a env = Inr (Some (f, e))" by blast
    show "\<exists>env \<in> set envs. publishes lib sha a env (fa_payload f) \<and> fa_tenant f = ev_tenant env \<and> fa_aggregate f = ev_aggregate env"
      using Apply_publishes [OF env(3,2)] by (intro bexI [OF _ env(1)]) simp
  }
  {
    fix k e
    assume "mget (an_evs s) k = Some e"
    then have "event_look (fold put_event (map snd ?w) ?n) k = Some (0, e)"
      unfolding s event_look_def write_stores(2) [OF refl] by simp
    moreover have "event_look ?n k = None" by (simp add: event_look_def NewFakeAnalyticsSink_def)
    ultimately have "e \<in> set (map snd ?w)" using history.look_fold(2) [of ?n k "map snd ?w" 0 e] by auto
    then obtain f where "(f, e) \<in> set ?w" unfolding set_map by (metis imageE prod.collapse)
    then have "\<exists>env \<in> set envs. Valid (ev_tenant env) \<and> analytics_Apply lib sha a env = Inr (Some (f, e))" by (rule written_Apply)
    then obtain env where env: "env \<in> set envs" "Valid (ev_tenant env)" "analytics_Apply lib sha a env = Inr (Some (f, e))" by blast
    show "\<exists>env \<in> set envs. publishes lib sha a env (ae_payload e) \<and> ae_tenant e = ev_tenant env \<and> ae_aggregate e = ev_aggregate env"
      using Apply_publishes [OF env(3,2)] by (intro bexI [OF _ env(1)]) simp
  }
qed

section \<open>A marked entity\<close>

definition marked_applier :: Applier where
  "marked_applier =
     \<lparr>ap_reg = widget_reg\<lparr>r_entities := [(''widget'',
        \<lparr>e_spec = (zero_spec ''widget'')\<lparr>es_analytics :=
           Some \<lparr>an_include = [''name''], an_include_all = False, an_exclude = [], an_hash = []\<rparr>\<rparr>,
         e_binding = e_binding (the (Get widget_reg ''widget''))\<rparr>)]\<rparr>,
      ap_salt = []\<rparr>"

definition marked_fact :: Fact where
  "marked_fact = \<lparr>fa_tenant = ''acme'', fa_aggregate = ''widget'', fa_aggid = ''w1'', fa_version = 3,
     fa_payload = JObj [(''name'', JStr ''bolt'')], fa_at = (0, 0), fa_deleted = False\<rparr>"

lemma marked_written:
  "\<exists>e. written demo_lib id marked_applier demo_env = [(marked_fact, e)]"
  by (simp add: written_def analytics_Apply_def marked_applier_def demo_env_def Get_def redact_def parseObject_def go_map_of_def
      splitPath_def marshalCanonical_def Let_def suffix_def marked_fact_def Valid_def id_char_def is_lower_def less_eq_char_def)

lemma marked_fact_stored:
  assumes "consume demo_lib id (analytics_consumer marked_applier) background NewFakeAnalyticsSink [demo_env] = Some s"
  shows "mget (an_facts s) ''acme|widget|w1'' = Some marked_fact"
proof -
  obtain e where "written demo_lib id marked_applier demo_env = [(marked_fact, e)]" using marked_written ..
  then have "s = write_rec (marked_fact, e) NewFakeAnalyticsSink" using assms [unfolded consume_fake] by simp
  then show ?thesis by (simp add: write_rec_stores UpsertFacts_def NewFakeAnalyticsSink_def factKey_def marked_fact_def)
qed


theorem analytics_confined_witness:
  "\<exists>s. consume demo_lib id (analytics_consumer marked_applier) background NewFakeAnalyticsSink [demo_env] = Some s
    \<and> mget (an_facts s) ''acme|widget|w1'' = Some marked_fact \<and> publishes demo_lib id marked_applier demo_env (fa_payload marked_fact)"
proof -
  obtain s where s: "consume demo_lib id (analytics_consumer marked_applier) background NewFakeAnalyticsSink [demo_env] = Some s"
    by (simp only: consume_fake)
  note f = marked_fact_stored [OF s]
  have "\<exists>env \<in> set [demo_env]. publishes demo_lib id marked_applier env (fa_payload marked_fact)
      \<and> fa_tenant marked_fact = ev_tenant env \<and> fa_aggregate marked_fact = ev_aggregate env"
    using analytics_confined [OF s, THEN conjunct1] f by blast
  then show ?thesis using s f by simp
qed

end
