(* ===== verification/Spec2Isabelle.thy ===== *)
theory Spec2Isabelle
  imports FakeStore FakeSink LiveReach Subscribe Cluster ShardDir Provision Sweep Pool Analytics
begin

text \<open>
  \<^bold>\<open>fabriq: a verification development\<close>

  fabriq is a multi-tenant data fabric written in Go. Commands change rows of one tenant in
  Postgres and append an event to an outbox in the same transaction; the events feed
  projections (graph, search, analytics), subscriptions and live queries; a control plane
  places tenants on databases and keeps their schemas current. This development models the
  parts of the program that decide what is written, published and routed, and proves what
  makes them correct. Paths are relative to the repository's source directory.

  \<^bold>\<open>How the code is represented.\<close> A Go struct is a \<^emph>\<open>record\<close>, a tagged union a
  \<^emph>\<open>datatype\<close>, a method one definition with the state passed in and returned. An error is a
  value of the type \<open>gerr\<close>, a fallible function returns \<open>gerr + 'a\<close> or \<open>gerr option\<close>, a run-time
  panic is \<open>None\<close>. A Go map is an association list with distinct keys whose order stands for
  an arbitrary iteration order. Integers wrap at 64 bits where the code relies on them
  (\<open>to_int64\<close>, \<open>inc64\<close>); hashes are machine words. A port (database, bus, cluster, clock, random
  source) is an argument: a record of operations over an arbitrary state, an instant, or a
  supply indexed by a counter. A mutex makes an operation one step; what runs concurrently is
  a sequence of such steps, or an argument that says what others did in between. Unless a
  theory says otherwise, message texts of errors, logging, spans and metrics are left out.

  \<^bold>\<open>Theories.\<close>

  \<^item> \<^verbatim>\<open>Prelude\<close>: integers, floats, dynamic values, JSON by its parse, maps, strings, validation
    combinators, and the lemmas every component uses.

  \<^item> \<^verbatim>\<open>FabErr\<close>, \<^verbatim>\<open>Tenant\<close>: \<^verbatim>\<open>core/fabriqerr\<close>, \<^verbatim>\<open>core/tenant\<close>, \<^verbatim>\<open>core/pathctx\<close>. Error values
    with their chain walks; the tenant and scope of a context.

  \<^item> \<^verbatim>\<open>Spec\<close>, \<^verbatim>\<open>Binding\<close>, \<^verbatim>\<open>Registry\<close>: \<^verbatim>\<open>core/registry\<close>. Entity specifications and the names derived
    from them, the compiled columns of an entity and the coercion of values, registration and
    start-up validation. Every reachable registry is well formed; \<^verbatim>\<open>Validate\<close> accepts exactly the
    consistent ones; a coerced row holds values of its columns' types.

  \<^item> \<^verbatim>\<open>Event\<close>: \<^verbatim>\<open>core/event\<close>. The envelope, its codec and the upcaster chain. Decoding inverts
    encoding; upcasting returns.

  \<^item> \<^verbatim>\<open>Command\<close>, \<^verbatim>\<open>FakeStore\<close>: \<^verbatim>\<open>core/command\<close> over the transactional store of
    \<^verbatim>\<open>core/fabriqtest/fakes.go\<close>. The store's contract is the locale \<open>tx_store\<close>, interpreted on the
    in-memory store. A batch refines an abstract machine on rows and outbox, is all or nothing,
    stamps every row with its tenant, writes one event per change, and never overwrites a
    version it did not expect.

  \<^item> \<^verbatim>\<open>Projection\<close>, \<^verbatim>\<open>Rebuild\<close>, \<^verbatim>\<open>FakeSink\<close>: \<^verbatim>\<open>core/projection\<close> and its in-memory sinks. The locale
    \<open>version_gated\<close> carries the argument that upserts converge under any order and repetition; the
    graph nodes, the search index, the watermarks and the three analytics stores interpret it.
    The watermark follows the sinks; a rebuild moves the live pointer only to a complete
    projection; drift detection finds exactly the drifted aggregates.

  \<^item> \<^verbatim>\<open>Redact\<close>, \<^verbatim>\<open>Analytics\<close>: \<^verbatim>\<open>core/analytics/applier.go\<close>, \<^verbatim>\<open>consumer.go\<close> and the in-memory sink. What
    redaction publishes, value by value and path by path, in both directions; the shared store
    holds redacted data of marked entities only, and converges.

  \<^item> \<^verbatim>\<open>QueryFilter\<close>, \<^verbatim>\<open>Match\<close>: \<^verbatim>\<open>core/query\<close> filters and \<^verbatim>\<open>core/livequery/match\<close>. The in-memory evaluator
    agrees with the SQL meaning of a filter on typed rows; the four-index LIKE loop returns and
    agrees with a recursive reference.

  \<^item> \<^verbatim>\<open>LiveIndex\<close>, \<^verbatim>\<open>LiveWindow\<close>, \<^verbatim>\<open>LivePrefix\<close>: \<^verbatim>\<open>core/livequery/index.go\<close>, \<^verbatim>\<open>window.go\<close> and what they
    use. The index misses no affected subscription; the deltas of a change replay the window at
    the client; the window is an exact prefix of the result (locale \<open>row_order\<close>).

  \<^item> \<^verbatim>\<open>LiveEngine\<close>, \<^verbatim>\<open>LiveRouting\<close>, \<^verbatim>\<open>LiveReach\<close>: \<^verbatim>\<open>core/livequery/dispatcher.go\<close>, \<^verbatim>\<open>engine.go\<close>. One
    definition per closure run on a partition's goroutine, the relation of the partitions they
    reach, its invariant, and exact dispatch to streamed views.

  \<^item> \<^verbatim>\<open>Cluster\<close>: \<^verbatim>\<open>core/livequery/cluster\<close>. Partition hashing at 64 bits, rendezvous ownership, gateway
    and shard; after a failover every partition is served by exactly one shard.

  \<^item> \<^verbatim>\<open>Subscribe\<close>: \<^verbatim>\<open>core/subscribe\<close>. A channel carries the events of its tenant and scope and no
    others; conflation keeps the latest delta per aggregate; a raw subscriber misses no frame
    while it is attached.

  \<^item> \<^verbatim>\<open>Catalog\<close>, \<^verbatim>\<open>Provision\<close>: \<^verbatim>\<open>core/catalog\<close>, \<^verbatim>\<open>core/provision\<close>. The compare-and-set contract of the
    catalog (locales \<open>catalog_contract\<close> and \<open>catalog_store\<close>) on the in-memory catalog; provisioning
    beside other writers is serialisable and a retried provisioning converges.

  \<^item> \<^verbatim>\<open>ShardDir\<close>, \<^verbatim>\<open>Pool\<close>, \<^verbatim>\<open>Sweep\<close>: \<^verbatim>\<open>adapters/shard\<close> and \<^verbatim>\<open>core/sweep\<close>. Directories share the locale
    \<open>placement\<close>; a route is never older than its time to live, and an outage is not cached. A pool
    never closes a shard in use. No tenant starves for longer than the backoff ceiling.

  Some theorems state what the code does where that is not what its comments say; the
  manifest lists them as findings.

  \<^bold>\<open>Bounds and fuel.\<close> No definition carries fuel. Loops are structural recursion, \<open>function\<close> with a
  measure, or \<open>partial_function (option)\<close> where termination is itself a theorem (the upcaster
  chain, the LIKE loop, the walks over catalog pages). Version and attempt counters are bounded by 64 bits where a theorem
  needs it, as an explicit hypothesis. Witnesses evaluate the definitions on small inputs.

  \<^bold>\<open>Not modelled.\<close>

  \<^item> Drivers and transports (\<^verbatim>\<open>adapters/postgres\<close>, \<^verbatim>\<open>redis\<close>, \<^verbatim>\<open>elastic\<close>, \<^verbatim>\<open>falkordb\<close>, \<^verbatim>\<open>trove\<close> and the other
    adapters, \<^verbatim>\<open>remote\<close>, \<^verbatim>\<open>client\<close>, \<^verbatim>\<open>gateway\<close>, \<^verbatim>\<open>migrations\<close>): their behaviour is that of SQL statements,
    scripts and services outside the repository. They enter as ports; the contracts are proved
    for the in-memory implementations of \<^verbatim>\<open>core/fabriqtest\<close>.

  \<^item> \<^verbatim>\<open>core/agent\<close>, \<^verbatim>\<open>core/document\<close>, \<^verbatim>\<open>core/crypto\<close>: wrappers of language-model and embedding services,
    a third-party CRDT library and cryptographic primitives.

  \<^item> Wiring and presentation (the root package, \<^verbatim>\<open>forgeext\<close>, \<^verbatim>\<open>cmd\<close>, \<^verbatim>\<open>domain\<close>, \<^verbatim>\<open>core/telemetry\<close>, metrics),
    generated code, and test harnesses.

  \<^item> Reflection into Go structs (\<^verbatim>\<open>Populate\<close>, the generic repository of \<^verbatim>\<open>core/query\<close>), the erasure
    executor of \<^verbatim>\<open>core/command\<close>, \<^verbatim>\<open>core/insights\<close>, and the backfill, reconcile and reproject jobs of
    \<^verbatim>\<open>core/analytics\<close>, which run the modelled applier over snapshots of the drivers.

  \<^item> The pool's autoscaler, a floating-point heuristic: the pool is proved for every sequence of
    caps it could choose.

  \<^item> Goroutine scheduling, channel closing, timers and contexts' deadlines, except as the points of
    an execution at which their effects happen.
\<close>

end
